(* ===== verification/Go_Prelude.thy ===== *)
theory Go_Prelude
  imports
    Complex_Main
    "HOL-Library.Word"
    "HOL-Library.Mapping"
    "HOL-Library.AList_Mapping"
    "HOL-Library.Char_ord"
    "HOL-Library.List_Lexorder"
    "HOL-Library.Multiset"
begin

text \<open>
  What every component shares: Go's machine integers and durations, run-time panics as values,
  the string functions of package \<open>strings\<close> that the sources call, the counter maps
  (\<open>map[string]uint64\<close>), and the transition-system locale from which the state machines of the
  engine, the coordinator and the consumer take their reachability proofs.

  Conventions. A Go \<open>uint64\<close> is a \<open>64 word\<close>, so \<open>+\<close> and \<open>-\<close> wrap. A Go \<open>int\<close>, \<open>int64\<close> or
  \<open>time.Duration\<close> is an \<open>int\<close>; every operation of the sources that can leave the 64-bit range
  goes through \<open>i64\<close>, which wraps it. A Go string is a list of bytes (\<open>char list\<close>).
\<close>

named_theorems go_defs \<open>definitions of the small Go operations, unfolded together\<close>
named_theorems snapshot_simps \<open>what the snapshot operations do to each field\<close>

section \<open>Integers and durations\<close>

type_synonym u64 = "64 word"
type_synonym duration = int
type_synonym gotime = int

text \<open>Reading a word as a number stays \<open>of_nat (unat w)\<close>, the form the counting lemmas use.\<close>

declare of_nat_unat [simp del] of_int_uint [simp del]

definition i64 :: "int \<Rightarrow> int" where
  "i64 x = (x + 2 ^ 63) mod 2 ^ 64 - 2 ^ 63"

definition in_i64 :: "int \<Rightarrow> bool" where
  "in_i64 x \<longleftrightarrow> - (2 ^ 63) \<le> x \<and> x < 2 ^ 63"

lemma i64_id [simp]: "in_i64 x \<Longrightarrow> i64 x = x"
  by (simp add: i64_def in_i64_def)

lemma in_i64_i64 [simp, intro]: "in_i64 (i64 x)"
  using pos_mod_bound [of "2 ^ 64" "x + 2 ^ 63"] pos_mod_sign [of "2 ^ 64" "x + 2 ^ 63"]
  by (simp add: i64_def in_i64_def)

lemma i64_small: "\<bar>x\<bar> < 2 ^ 63 \<Longrightarrow> i64 x = x"
  by (rule i64_id) (auto simp: in_i64_def)

lemma sint_small: "unat (w :: u64) < 2 ^ 63 \<Longrightarrow> sint w = int (unat w)"
proof -
  assume w: "unat w < 2 ^ 63"
  have u: "uint w = int (unat w)" by (simp add: of_nat_unat)
  then have "uint w < 2 ^ 63" using w by (metis of_nat_less_iff of_nat_numeral of_nat_power)
  then have "signed_take_bit 63 (uint w) = uint w" using uint_ge_0 [of w] by (intro signed_take_bit_int_eq_self) linarith+
  then show ?thesis unfolding u [symmetric] by (simp add: sint_uint)
qed

lemma unat_at_least_1: "unat (if (w :: u64) < 1 then 1 else w) = max 1 (unat w)"
  by (auto simp: max_def word_less_nat_alt)

lemma unat_Suc_below: "(a :: u64) < b \<Longrightarrow> unat (a + 1) = Suc (unat a)"
  using unsigned_less [of b, where ?'a = nat] by (simp add: word_less_nat_alt unat_word_ariths)

lemma word_of_unat [simp]: "(of_nat (unat w) :: u64) = w"
  by (simp add: of_nat_unat)

text \<open>The units of package \<open>time\<close>, in nanoseconds.\<close>

abbreviation (input) Microsecond :: duration where "Microsecond \<equiv> 1000"
abbreviation (input) Millisecond :: duration where "Millisecond \<equiv> 1000000"
abbreviation (input) Second :: duration where "Second \<equiv> 1000000000"
abbreviation (input) Minute :: duration where "Minute \<equiv> 60000000000"

text \<open>Go's integer division and remainder truncate towards zero.\<close>

definition go_div :: "int \<Rightarrow> int \<Rightarrow> int" where
  "go_div a b = sgn a * sgn b * (\<bar>a\<bar> div \<bar>b\<bar>)"

definition go_mod :: "int \<Rightarrow> int \<Rightarrow> int" where
  "go_mod a b = a - b * go_div a b"

lemma go_div_nonneg [simp]: "0 \<le> a \<Longrightarrow> 0 < b \<Longrightarrow> go_div a b = a div b"
  by (cases "a = 0") (simp_all add: go_div_def)

lemma go_mod_nonneg [simp]: "0 \<le> a \<Longrightarrow> 0 < b \<Longrightarrow> go_mod a b = a mod b"
  by (simp add: go_mod_def minus_mult_div_eq_mod)

section \<open>Panics\<close>

text \<open>A run-time panic is the left value of a sum; a normal result is on the right.\<close>

datatype go_panic = IndexOutOfRange | NilMapWrite | NilDereference | IntegerDivideByZero | CloseOfClosedChannel

fun bind_ok :: "go_panic + 'a \<Rightarrow> ('a \<Rightarrow> go_panic + 'b) \<Rightarrow> go_panic + 'b" where
  "bind_ok (Inl p) f = Inl p"
| "bind_ok (Inr x) f = f x"

fun fold_ok :: "('a \<Rightarrow> 'b \<Rightarrow> go_panic + 'b) \<Rightarrow> 'a list \<Rightarrow> 'b \<Rightarrow> go_panic + 'b" where
  "fold_ok f [] s = Inr s"
| "fold_ok f (x # xs) s = bind_ok (f x s) (fold_ok f xs)"

lemma fold_ok_append: "fold_ok f (xs @ ys) s = bind_ok (fold_ok f xs s) (fold_ok f ys)"
proof (induction xs arbitrary: s)
  case (Cons x xs)
  then show ?case by (cases "f x s") simp_all
qed simp

text \<open>A loop whose body never panics is a plain fold.\<close>

lemma fold_ok_total:
  assumes "P s" and "\<And>x s. x \<in> set xs \<Longrightarrow> P s \<Longrightarrow> f x s = Inr (g x s) \<and> P (g x s)"
  shows "fold_ok f xs s = Inr (fold g xs s) \<and> P (fold g xs s)"
  using assms by (induction xs arbitrary: s) auto

section \<open>Bytes and strings\<close>

definition has_prefix :: "string \<Rightarrow> string \<Rightarrow> bool" where
  "has_prefix s p \<longleftrightarrow> take (length p) s = p"

definition trim_prefix :: "string \<Rightarrow> string \<Rightarrow> string" where
  "trim_prefix s p = (if has_prefix s p then drop (length p) s else s)"

definition has_suffix :: "string \<Rightarrow> string \<Rightarrow> bool" where
  "has_suffix s p \<longleftrightarrow> length p \<le> length s \<and> drop (length s - length p) s = p"

definition trim_suffix :: "string \<Rightarrow> string \<Rightarrow> string" where
  "trim_suffix s p = (if has_suffix s p then take (length s - length p) s else s)"

text \<open>ASCII white space, as \<open>strings.TrimSpace\<close> and \<open>strings.Fields\<close> cut it: tab, newline,
  vertical tab, form feed, carriage return and space.\<close>

definition is_space :: "char \<Rightarrow> bool" where
  "is_space c \<longleftrightarrow> of_char c \<in> {9, 10, 11, 12, 13, 32 :: nat}"

definition trim_space :: "string \<Rightarrow> string" where
  "trim_space s = rev (dropWhile is_space (rev (dropWhile is_space s)))"

definition upper_char :: "char \<Rightarrow> char" where
  "upper_char c = (let n = of_char c :: nat in if 97 \<le> n \<and> n \<le> 122 then char_of (n - 32) else c)"

definition lower_char :: "char \<Rightarrow> char" where
  "lower_char c = (let n = of_char c :: nat in if 65 \<le> n \<and> n \<le> 90 then char_of (n + 32) else c)"

definition to_upper :: "string \<Rightarrow> string" where
  "to_upper = map upper_char"

definition to_lower :: "string \<Rightarrow> string" where
  "to_lower = map lower_char"

lemma has_prefix_append [simp]: "has_prefix (p @ s) p"
  by (simp add: has_prefix_def)

lemma has_prefix_iff: "has_prefix s p \<longleftrightarrow> (\<exists>t. s = p @ t)"
proof
  assume "has_prefix s p"
  then have "s = p @ drop (length p) s"
    by (metis append_take_drop_id has_prefix_def)
  then show "\<exists>t. s = p @ t" ..
qed auto

lemma trim_prefix_append [simp]: "trim_prefix (p @ s) p = s"
  by (simp add: trim_prefix_def)

lemma upper_char_idem [simp]: "upper_char (upper_char c) = upper_char c"
proof (cases "97 \<le> (of_char c :: nat) \<and> (of_char c :: nat) \<le> 122")
  case True
  then have "(of_char (char_of ((of_char c :: nat) - 32)) :: nat) = of_char c - 32"
    by (auto simp: of_char_of intro!: mod_less)
  with True show ?thesis by (auto simp: upper_char_def Let_def)
qed (auto simp: upper_char_def Let_def)

section \<open>Sorting with a less function\<close>

text \<open>\<open>sort.Slice\<close> and \<open>sort.SliceStable\<close> with a less function: the order they leave is the one
  of a stable insertion sort wherever the less function orders the elements.\<close>

fun insort_by :: "('a \<Rightarrow> 'a \<Rightarrow> bool) \<Rightarrow> 'a \<Rightarrow> 'a list \<Rightarrow> 'a list" where
  "insort_by lt x [] = [x]"
| "insort_by lt x (y # ys) = (if lt y x then y # insort_by lt x ys else x # y # ys)"

definition sort_by :: "('a \<Rightarrow> 'a \<Rightarrow> bool) \<Rightarrow> 'a list \<Rightarrow> 'a list" where
  "sort_by lt xs = foldr (insort_by lt) xs []"

lemma mset_insort_by [simp]: "mset (insort_by lt x xs) = add_mset x (mset xs)"
  by (induction xs) auto

lemma mset_sort_by [simp]: "mset (sort_by lt xs) = mset xs"
  by (induction xs) (simp_all add: sort_by_def)

lemma set_insort_by [simp]: "set (insort_by lt x xs) = insert x (set xs)"
  by (metis mset_insort_by set_mset_add_mset_insert set_mset_mset)

lemma set_sort_by [simp]: "set (sort_by lt xs) = set xs"
  by (metis mset_sort_by set_mset_mset)

text \<open>A less function that is the strict part of a total preorder.\<close>

locale less_order =
  fixes lt :: "'a \<Rightarrow> 'a \<Rightarrow> bool"
  assumes less_asym: "lt x y \<Longrightarrow> \<not> lt y x"
    and not_less_trans: "\<not> lt y x \<Longrightarrow> \<not> lt z y \<Longrightarrow> \<not> lt z x"
begin

lemma insort_by_sorted:
  "sorted_wrt (\<lambda>a b. \<not> lt b a) xs \<Longrightarrow> sorted_wrt (\<lambda>a b. \<not> lt b a) (insort_by lt x xs)"
proof (induction xs)
  case (Cons y ys)
  have tail: "\<And>z. z \<in> set ys \<Longrightarrow> \<not> lt z y" using Cons.prems by simp
  show ?case
  proof (cases "lt y x")
    case True
    with Cons tail less_asym show ?thesis by simp
  next
    case False
    with tail have "\<And>z. z \<in> set ys \<Longrightarrow> \<not> lt z x" using not_less_trans by blast
    with False Cons.prems show ?thesis by simp
  qed
qed simp

lemma sort_by_sorted: "sorted_wrt (\<lambda>a b. \<not> lt b a) (sort_by lt xs)"
  by (induction xs) (simp_all add: sort_by_def insort_by_sorted)

end

section \<open>Counting in lists\<close>

lemma count_update:
  "i < length xs \<Longrightarrow>
     length (filter P (xs[i := y])) + (if P (xs ! i) then 1 else 0) = length (filter P xs) + (if P y then 1 else 0)"
proof (induction xs arbitrary: i)
  case (Cons x xs)
  then show ?case by (cases i) auto
qed simp

section \<open>Transition systems\<close>

text \<open>A state machine is a partial step function: \<open>step s e\<close> is the state after event \<open>e\<close>, or
  \<open>None\<close> when \<open>e\<close> cannot happen in \<open>s\<close>. Nondeterminism (the scheduler, Go's \<open>select\<close>, the network)
  is the choice of the event; a run is a list of events.\<close>

fun exec :: "('s \<Rightarrow> 'e \<Rightarrow> 's option) \<Rightarrow> 's \<Rightarrow> 'e list \<Rightarrow> 's option" where
  "exec step s [] = Some s"
| "exec step s (e # es) = (case step s e of None \<Rightarrow> None | Some s' \<Rightarrow> exec step s' es)"

lemma exec_append: "exec step s (es @ fs) = Option.bind (exec step s es) (\<lambda>s'. exec step s' fs)"
  by (induction es arbitrary: s) (auto split: option.splits)

lemma exec_snoc: "exec step s (es @ [e]) = Some s' \<longleftrightarrow> (\<exists>r. exec step s es = Some r \<and> step r e = Some s')"
  by (auto simp: exec_append bind_eq_Some_conv split: option.splits)

definition guard :: "bool \<Rightarrow> 'a \<Rightarrow> 'a option" where
  "guard b s = (if b then Some s else None)"

lemma guard_eq_Some [simp]: "guard b s = Some s' \<longleftrightarrow> b \<and> s' = s"
  by (auto simp: guard_def)

text \<open>The invariant may speak of the events so far, which is how the theorems relate the state to the
  requests, tokens and reports of the whole run.\<close>

locale machine =
  fixes step :: "'s \<Rightarrow> 'e \<Rightarrow> 's option" and start :: "'s \<Rightarrow> bool" and inv :: "'s \<Rightarrow> 'e list \<Rightarrow> 's \<Rightarrow> bool"
  assumes inv_start: "start s0 \<Longrightarrow> inv s0 [] s0"
    and inv_step: "start s0 \<Longrightarrow> inv s0 es s \<Longrightarrow> step s e = Some s' \<Longrightarrow> inv s0 (es @ [e]) s'"
begin

lemma inv_exec: "start s0 \<Longrightarrow> exec step s0 es = Some s \<Longrightarrow> inv s0 es s"
proof (induction es arbitrary: s rule: rev_induct)
  case Nil
  then show ?case using inv_start by simp
next
  case (snoc e es)
  then obtain r where "exec step s0 es = Some r" "step r e = Some s" by (auto simp: exec_snoc)
  with snoc show ?case using inv_step by blast
qed

end

text \<open>A machine refines an abstract step relation when every step, from a state that satisfies the invariant, is
  matched by abstract steps (or by none).\<close>

locale simulation =
  fixes step :: "'s \<Rightarrow> 'e \<Rightarrow> 's option" and inv :: "'s \<Rightarrow> bool" and abs :: "'s \<Rightarrow> 'a" and spec :: "'a \<Rightarrow> 'a \<Rightarrow> bool"
  assumes inv_kept: "inv s \<Longrightarrow> step s e = Some s' \<Longrightarrow> inv s'"
    and matched: "inv s \<Longrightarrow> step s e = Some s' \<Longrightarrow> spec\<^sup>*\<^sup>* (abs s) (abs s')"
begin

lemma exec_inv: "inv s \<Longrightarrow> exec step s es = Some s' \<Longrightarrow> inv s'"
  by (induction es arbitrary: s) (auto intro: inv_kept split: option.splits)

lemma exec_matched: "inv s \<Longrightarrow> exec step s es = Some s' \<Longrightarrow> spec\<^sup>*\<^sup>* (abs s) (abs s')"
proof (induction es arbitrary: s)
  case (Cons e es)
  then obtain r where r: "step s e = Some r" "exec step r es = Some s'" by (auto split: option.splits)
  then have "spec\<^sup>*\<^sup>* (abs r) (abs s')" using Cons inv_kept by blast
  with matched [OF Cons.prems(1) r(1)] show ?case by simp
qed simp

end

end
