(* ===== verification/Float64.thy ===== *)
theory Float64
  imports Go_Prelude
begin

text \<open>
  Go's \<open>float64\<close>. A value is a real number and every arithmetic operation of the sources rounds
  its exact result with \<open>f64\<close>: IEEE 754 binary64, round to nearest with ties to even, gradual
  underflow included. Infinities and NaN are outside the model (the sources only divide after
  testing the divisor, and their operands are counts, durations and rates far below
  \<open>2 ^ 1023\<close>). The locale \<open>float_format\<close> states what the components rely on: rounding is
  monotone, exact on the integers up to \<open>2 ^ 53\<close> and has relative error at most \<open>2 ^ -53\<close>.
  \<open>math.Log\<close> and \<open>math.Pow\<close> are modelled by the correctly rounded functions.
\<close>

section \<open>Rounding to an integer\<close>

definition round_half_even :: "real \<Rightarrow> int" where
  "round_half_even x =
     (let n = \<lfloor>x\<rfloor>; d = x - of_int n in
      if d < 1 / 2 then n else if 1 / 2 < d then n + 1 else if even n then n else n + 1)"

lemma round_half_even_of_int [simp]: "round_half_even (of_int n) = n"
  by (simp add: round_half_even_def)

lemma round_half_even_error: "\<bar>of_int (round_half_even x) - x\<bar> \<le> 1 / 2"
proof -
  have "round_half_even x = \<lfloor>x\<rfloor> \<and> x - of_int \<lfloor>x\<rfloor> \<le> 1 / 2 \<or>
        round_half_even x = \<lfloor>x\<rfloor> + 1 \<and> 1 / 2 \<le> x - of_int \<lfloor>x\<rfloor>"
    by (auto simp: round_half_even_def Let_def)
  then show ?thesis by linarith
qed

lemma round_half_even_cases:
  "round_half_even x = \<lfloor>x\<rfloor> \<or> round_half_even x = \<lfloor>x\<rfloor> + 1"
  by (simp add: round_half_even_def Let_def)

lemma round_half_even_mono:
  assumes "x \<le> y"
  shows "round_half_even x \<le> round_half_even y"
proof (cases "\<lfloor>x\<rfloor> = \<lfloor>y\<rfloor>")
  case True
  with assms show ?thesis by (auto simp: round_half_even_def Let_def)
next
  case False
  with assms have "\<lfloor>x\<rfloor> + 1 \<le> \<lfloor>y\<rfloor>" using floor_mono [OF assms] by linarith
  with round_half_even_cases [of x] round_half_even_cases [of y] show ?thesis by linarith
qed

lemma round_half_even_minus: "round_half_even (- x) = - round_half_even x"
proof (cases "x = of_int \<lfloor>x\<rfloor>")
  case True
  then show ?thesis by (metis of_int_minus round_half_even_of_int)
next
  case False
  then have f: "\<lfloor>- x\<rfloor> = - \<lfloor>x\<rfloor> - 1"
    by (simp add: floor_minus ceiling_altdef)
  show ?thesis by (auto simp: round_half_even_def Let_def f)
qed

section \<open>Binary64\<close>

definition f64_exp :: "real \<Rightarrow> int" where
  "f64_exp x = max (\<lfloor>log 2 \<bar>x\<bar>\<rfloor> - 52) (- 1074)"

definition f64 :: "real \<Rightarrow> real" where
  "f64 x = (if x = 0 then 0
            else of_int (round_half_even (x / 2 powr of_int (f64_exp x))) * 2 powr of_int (f64_exp x))"

lemma f64_zero [simp]: "f64 0 = 0"
  by (simp add: f64_def)

lemma f64_minus [simp]: "f64 (- x) = - f64 x"
  by (simp add: f64_def f64_exp_def round_half_even_minus)

lemma f64_exp_upper: "0 < x \<Longrightarrow> x < 2 powr of_int (f64_exp x + 53)"
proof -
  assume x: "0 < x"
  have "x < 2 powr of_int (\<lfloor>log 2 x\<rfloor> + 1)"
    using floor_log_eq_powr_iff [OF x, of 2 "\<lfloor>log 2 x\<rfloor>"] by simp
  also have "\<dots> \<le> 2 powr of_int (f64_exp x + 53)"
    using x by (intro powr_mono) (simp_all add: f64_exp_def)
  finally show ?thesis .
qed

lemma f64_exp_lower: "0 < x \<Longrightarrow> - 1074 < f64_exp x \<Longrightarrow> 2 powr of_int (f64_exp x + 52) \<le> x"
  using floor_log_eq_powr_iff [of x 2 "\<lfloor>log 2 x\<rfloor>"] by (auto simp: f64_exp_def max_def split: if_splits)

lemma f64_exp_mono: "0 < x \<Longrightarrow> x \<le> y \<Longrightarrow> f64_exp x \<le> f64_exp y"
  unfolding f64_exp_def by (intro max.mono diff_mono floor_mono) simp_all

lemma f64_nonneg: "0 \<le> x \<Longrightarrow> 0 \<le> f64 x"
  using round_half_even_mono [of 0 "x / 2 powr of_int (f64_exp x)"] round_half_even_of_int [of 0]
  by (simp add: f64_def)

lemma f64_le_binade:
  assumes "0 < x"
  shows "f64 x \<le> 2 powr of_int (f64_exp x + 53)"
proof -
  let ?e = "f64_exp x"
  have "x / 2 powr ?e \<le> of_int (2 ^ 53)"
    using f64_exp_upper [OF assms] by (simp add: powr_add field_simps powr_realpow [symmetric])
  then have "round_half_even (x / 2 powr ?e) \<le> 2 ^ 53"
    by (metis round_half_even_mono round_half_even_of_int)
  then have "of_int (round_half_even (x / 2 powr ?e)) \<le> (2 ^ 53 :: real)"
    by (metis of_int_le_iff of_int_numeral of_int_power)
  then have "of_int (round_half_even (x / 2 powr ?e)) * 2 powr ?e \<le> 2 ^ 53 * 2 powr ?e"
    by (intro mult_right_mono) simp_all
  then show ?thesis using assms by (simp add: f64_def powr_add powr_realpow [symmetric] mult.commute)
qed

lemma f64_ge_binade:
  assumes "0 < x" "- 1074 < f64_exp x"
  shows "2 powr of_int (f64_exp x + 52) \<le> f64 x"
proof -
  let ?e = "f64_exp x"
  have "of_int (2 ^ 52) \<le> x / 2 powr ?e"
    using f64_exp_lower [OF assms] by (simp add: powr_add field_simps powr_realpow [symmetric])
  then have "2 ^ 52 \<le> round_half_even (x / 2 powr ?e)"
    by (metis round_half_even_mono round_half_even_of_int)
  then have "(2 ^ 52 :: real) \<le> of_int (round_half_even (x / 2 powr ?e))"
    by (metis of_int_le_iff of_int_numeral of_int_power)
  then have "2 ^ 52 * 2 powr ?e \<le> of_int (round_half_even (x / 2 powr ?e)) * 2 powr ?e"
    by (intro mult_right_mono) simp_all
  then show ?thesis using assms by (simp add: f64_def powr_add powr_realpow [symmetric] mult.commute)
qed

lemma f64_mono_pos:
  assumes "0 < x" "x \<le> y"
  shows "f64 x \<le> f64 y"
proof (cases "f64_exp x = f64_exp y")
  case True
  have "round_half_even (x / 2 powr f64_exp y) \<le> round_half_even (y / 2 powr f64_exp y)"
    using assms by (intro round_half_even_mono divide_right_mono) simp_all
  with True assms show ?thesis by (simp add: f64_def)
next
  case False
  with assms have e: "f64_exp x < f64_exp y" using f64_exp_mono [of x y] by simp
  then have "- 1074 < f64_exp y" by (simp add: f64_exp_def max_def split: if_splits)
  then have "2 powr of_int (f64_exp y + 52) \<le> f64 y" using assms by (intro f64_ge_binade) simp_all
  moreover have "(2 :: real) powr of_int (f64_exp x + 53) \<le> 2 powr of_int (f64_exp y + 52)"
    using e by (intro powr_mono) simp_all
  ultimately show ?thesis using f64_le_binade [OF assms(1)] by linarith
qed

lemma f64_mono: "x \<le> y \<Longrightarrow> f64 x \<le> f64 y"
proof -
  assume xy: "x \<le> y"
  consider "0 < x" | "y < 0" | "x \<le> 0" "0 \<le> y" by linarith
  then show ?thesis
  proof cases
    case 1
    then show ?thesis using xy by (rule f64_mono_pos)
  next
    case 2
    then have "f64 (- y) \<le> f64 (- x)" using xy by (intro f64_mono_pos) simp_all
    then show ?thesis by simp
  next
    case 3
    then have "f64 x \<le> 0" using f64_nonneg [of "- x"] by simp
    with 3 show ?thesis using f64_nonneg [of y] by linarith
  qed
qed

text \<open>The numbers of the format, \<open>m * 2 ^ k\<close> with \<open>\<bar>m\<bar> \<le> 2 ^ 53\<close>, are fixed points.\<close>

lemma f64_exact_multiple:
  assumes "f64_exp x \<le> k" "x = of_int m * 2 powr of_int k"
  shows "f64 x = x"
proof -
  have "x / 2 powr f64_exp x = of_int (m * 2 ^ nat (k - f64_exp x))"
    using assms by (simp add: powr_realpow [symmetric] powr_diff)
  then have "of_int (round_half_even (x / 2 powr f64_exp x)) = x / 2 powr f64_exp x"
    by (metis round_half_even_of_int)
  then show ?thesis by (simp add: f64_def)
qed

lemma f64_exact:
  assumes "\<bar>m\<bar> \<le> 2 ^ 53" "- 1074 \<le> k"
  shows "f64 (of_int m * 2 powr of_int k) = of_int m * 2 powr of_int k"
proof (cases "m = 0")
  case False
  let ?x = "of_int m * 2 powr of_int k :: real"
  have "f64_exp ?x = f64_exp (of_int \<bar>m\<bar> * 2 powr of_int k)" by (simp add: f64_exp_def abs_mult)
  have log: "log 2 \<bar>?x\<bar> = log 2 (of_int \<bar>m\<bar>) + of_int k"
    using False by (simp add: abs_mult log_mult)
  show ?thesis
  proof (cases "\<bar>m\<bar> = 2 ^ 53")
    case True
    then have "of_int \<bar>m\<bar> = (2 powr 53 :: real)" by simp
    then have "log 2 (of_int \<bar>m\<bar>) = 53" by (simp only: log_powr_cancel)
    then have "f64_exp ?x \<le> k + 1" using log assms(2) by (simp add: f64_exp_def)
    moreover have "?x = of_int (sgn m * 2 ^ 52) * 2 powr of_int (k + 1)"
      using True by (auto simp: powr_add abs_if sgn_if split: if_splits)
    ultimately show ?thesis by (metis f64_exact_multiple)
  next
    case m: False
    with assms(1) have "of_int \<bar>m\<bar> < (2 ^ 53 :: real)"
      by (metis less_le of_int_less_iff of_int_numeral of_int_power)
    then have "log 2 (of_int \<bar>m\<bar>) < 53"
      using False by (simp add: log_less_iff powr_realpow [symmetric])
    then have "\<lfloor>log 2 \<bar>?x\<bar>\<rfloor> \<le> k + 52" using log by linarith
    then have "f64_exp ?x \<le> k" using assms(2) by (simp add: f64_exp_def)
    then show ?thesis by (rule f64_exact_multiple) simp
  qed
qed simp

lemma f64_of_int: "\<bar>m\<bar> \<le> 2 ^ 53 \<Longrightarrow> f64 (of_int m) = of_int m"
  using f64_exact [of m 0] by simp

lemma f64_relative_error:
  assumes "2 powr - 1022 \<le> \<bar>x\<bar>"
  shows "\<bar>f64 x - x\<bar> \<le> 2 powr - 53 * \<bar>x\<bar>"
proof -
  let ?e = "f64_exp x"
  have x: "x \<noteq> 0" using assms by auto
  have "- 1022 \<le> log 2 \<bar>x\<bar>" using assms x by (simp add: le_log_iff)
  then have "- 1022 \<le> \<lfloor>log 2 \<bar>x\<bar>\<rfloor>" by (simp add: le_floor_iff)
  then have e: "?e = \<lfloor>log 2 \<bar>x\<bar>\<rfloor> - 52" unfolding f64_exp_def by (intro max_absorb1) linarith
  have lower: "2 powr of_int (?e + 52) \<le> \<bar>x\<bar>"
    using floor_log_eq_powr_iff [of "\<bar>x\<bar>" 2 "?e + 52"] x e by simp
  have "f64 x - x = (of_int (round_half_even (x / 2 powr ?e)) - x / 2 powr ?e) * 2 powr ?e"
    using x by (simp add: f64_def left_diff_distrib)
  then have "\<bar>f64 x - x\<bar> = \<bar>of_int (round_half_even (x / 2 powr ?e)) - x / 2 powr ?e\<bar> * 2 powr ?e"
    by (simp add: abs_mult)
  also have "\<dots> \<le> 1 / 2 * 2 powr ?e"
    by (intro mult_right_mono round_half_even_error) simp
  also have "\<dots> = 2 powr - 53 * 2 powr of_int (?e + 52)"
    by (simp add: powr_add powr_minus)
  also have "\<dots> \<le> 2 powr - 53 * \<bar>x\<bar>" using lower by (intro mult_left_mono) simp_all
  finally show ?thesis .
qed

lemma f64_fixpoint:
  assumes "0 < x"
  shows "\<exists>m k. f64 x = of_int m * 2 powr of_int k \<and> \<bar>m\<bar> \<le> 2 ^ 53 \<and> - 1074 \<le> k"
proof (intro exI conjI)
  let ?m = "round_half_even (x / 2 powr f64_exp x)"
  show "f64 x = of_int ?m * 2 powr of_int (f64_exp x)" using assms by (simp add: f64_def)
  have "0 \<le> ?m"
    using round_half_even_mono [of 0 "x / 2 powr f64_exp x"] round_half_even_of_int [of 0] assms by simp
  moreover have "x / 2 powr f64_exp x \<le> of_int (2 ^ 53)"
    using f64_exp_upper [OF assms] by (simp add: powr_add field_simps powr_realpow [symmetric])
  then have "?m \<le> 2 ^ 53" by (metis round_half_even_mono round_half_even_of_int)
  ultimately show "\<bar>?m\<bar> \<le> 2 ^ 53" by simp
  show "- 1074 \<le> f64_exp x" by (simp add: f64_exp_def)
qed

lemma f64_idem [simp]: "f64 (f64 x) = f64 x"
proof -
  consider "x = 0" | "0 < x" | "0 < - x" by linarith
  then show ?thesis
  proof cases
    case 2
    then obtain m k where "f64 x = of_int m * 2 powr of_int k" "\<bar>m\<bar> \<le> 2 ^ 53" "- 1074 \<le> k"
      using f64_fixpoint by blast
    then show ?thesis using f64_exact by simp
  next
    case 3
    then obtain m k where "f64 (- x) = of_int m * 2 powr of_int k" "\<bar>m\<bar> \<le> 2 ^ 53" "- 1074 \<le> k"
      using f64_fixpoint by blast
    then show ?thesis using f64_exact [of m k] f64_minus [of "f64 x"] by simp
  qed simp
qed

section \<open>What the components rely on\<close>

locale float_format =
  fixes fl :: "real \<Rightarrow> real"
  assumes fl_mono: "x \<le> y \<Longrightarrow> fl x \<le> fl y"
    and fl_int: "\<bar>m\<bar> \<le> 2 ^ 53 \<Longrightarrow> fl (of_int m) = of_int m"
    and fl_error: "2 powr - 1022 \<le> \<bar>x\<bar> \<Longrightarrow> \<bar>fl x - x\<bar> \<le> 2 powr - 53 * \<bar>x\<bar>"
begin

lemma fl_nat: "n \<le> 2 ^ 53 \<Longrightarrow> fl (of_nat n) = of_nat n"
  using fl_int [of "int n"] by simp

lemma fl_0 [simp]: "fl 0 = 0"
  using fl_nat [of 0] by simp

lemma fl_1 [simp]: "fl 1 = 1"
  using fl_nat [of 1] by simp

lemma fl_nonneg: "0 \<le> x \<Longrightarrow> 0 \<le> fl x"
  using fl_mono [of 0 x] by simp

lemma fl_le_int: "x \<le> of_int m \<Longrightarrow> \<bar>m\<bar> \<le> 2 ^ 53 \<Longrightarrow> fl x \<le> of_int m"
  using fl_mono [of x "of_int m"] by (simp add: fl_int)

lemma fl_ge_int: "of_int m \<le> x \<Longrightarrow> \<bar>m\<bar> \<le> 2 ^ 53 \<Longrightarrow> of_int m \<le> fl x"
  using fl_mono [of "of_int m" x] by (simp add: fl_int)

text \<open>For positive normal numbers the error bound as a factor on each side.\<close>

lemma fl_lower: "2 powr - 1022 \<le> x \<Longrightarrow> (1 - 2 powr - 53) * x \<le> fl x"
proof -
  assume x: "2 powr - 1022 \<le> x"
  moreover have "0 < (2 powr - 1022 :: real)" by simp
  ultimately have "\<bar>fl x - x\<bar> \<le> 2 powr - 53 * x" using fl_error [of x] by linarith
  then show ?thesis unfolding left_diff_distrib by linarith
qed

lemma fl_upper: "2 powr - 1022 \<le> x \<Longrightarrow> fl x \<le> (1 + 2 powr - 53) * x"
proof -
  assume x: "2 powr - 1022 \<le> x"
  moreover have "0 < (2 powr - 1022 :: real)" by simp
  ultimately have "\<bar>fl x - x\<bar> \<le> 2 powr - 53 * x" using fl_error [of x] by linarith
  then show ?thesis unfolding distrib_right by linarith
qed

end

interpretation f64: float_format f64
  by unfold_locales (fact f64_mono f64_of_int f64_relative_error)+

section \<open>Conversions and the functions of package math\<close>

text \<open>A conversion to an integer type drops the fraction. The sources convert values in the range
  of the target type; the conversion to \<open>int64\<close> outside it is the implementation's choice.\<close>

definition trunc_float :: "real \<Rightarrow> int" where
  "trunc_float x = (if 0 \<le> x then \<lfloor>x\<rfloor> else \<lceil>x\<rceil>)"

definition u64_of_float :: "real \<Rightarrow> u64" where
  "u64_of_float x = of_int (trunc_float x)"

definition float_of_u64 :: "u64 \<Rightarrow> real" where
  "float_of_u64 w = f64 (of_nat (unat w))"

definition float_of_int :: "int \<Rightarrow> real" where
  "float_of_int n = f64 (of_int n)"

definition math_Log :: "real \<Rightarrow> real" where
  "math_Log x = f64 (ln x)"

definition math_Pow :: "real \<Rightarrow> real \<Rightarrow> real" where
  "math_Pow x y = f64 (x powr y)"

definition math_Sqrt :: "real \<Rightarrow> real" where
  "math_Sqrt x = f64 (sqrt x)"

definition math_Ceil :: "real \<Rightarrow> real" where
  "math_Ceil x = of_int \<lceil>x\<rceil>"

text \<open>\<open>time.Duration.Seconds\<close> and \<open>Microseconds\<close>: the whole seconds and the remaining
  nanoseconds are converted apart and added.\<close>

definition Seconds :: "duration \<Rightarrow> real" where
  "Seconds d = f64 (float_of_int (go_div d Second) + f64 (float_of_int (go_mod d Second) / 1000000000))"

definition Microseconds :: "duration \<Rightarrow> int" where
  "Microseconds d = go_div d Microsecond"

lemma float_of_u64_mono: "x \<le> y \<Longrightarrow> float_of_u64 x \<le> float_of_u64 y"
  by (simp add: float_of_u64_def f64.fl_mono word_le_nat_alt)

lemma float_of_u64_nonneg [simp]: "0 \<le> float_of_u64 x"
  by (simp add: float_of_u64_def f64.fl_nonneg)

lemma float_of_u64_exact: "unat x \<le> 2 ^ 53 \<Longrightarrow> float_of_u64 x = of_nat (unat x)"
  by (simp add: float_of_u64_def f64.fl_nat)

lemma trunc_float_mono: "x \<le> y \<Longrightarrow> trunc_float x \<le> trunc_float y"
proof -
  assume "x \<le> y"
  then consider "0 \<le> x" | "y < 0" | "x < 0" "0 \<le> y" by linarith
  then show ?thesis
  proof cases
    case 3
    then have "\<lceil>x\<rceil> \<le> 0" "0 \<le> \<lfloor>y\<rfloor>" by (simp_all add: ceiling_le_iff)
    then have "\<lceil>x\<rceil> \<le> \<lfloor>y\<rfloor>" by linarith
    with 3 show ?thesis by (simp add: trunc_float_def)
  qed (use \<open>x \<le> y\<close> in \<open>auto simp: trunc_float_def intro: floor_mono ceiling_mono\<close>)
qed

lemma trunc_float_of_int [simp]: "trunc_float (of_int n) = n"
  by (simp add: trunc_float_def)

lemma trunc_float_nonneg: "0 \<le> x \<Longrightarrow> 0 \<le> trunc_float x"
  by (simp add: trunc_float_def)

end
