(* ===== verification/Stats_Exact.thy ===== *)
theory Stats_Exact
  imports Stats
begin

text \<open>
  Exactness of the statistics. \<open>shard_of\<close> and \<open>snapshot_of\<close> are the specification: what a shard
  and a snapshot hold after a list of samples, counted directly. \<open>Record\<close> extends it by one sample,
  \<open>AddShard\<close> and \<open>Merge\<close> join two lists and \<open>Sub\<close> takes a prefix away, so that aggregating over
  goroutines, machines and intervals loses nothing. The locale \<open>bounded_monoid\<close> states the contract
  the coordinator relies on (merging is associative and commutative as long as the request counter
  does not wrap) and derives that the order of the workers does not matter.
\<close>

section \<open>The samples of a run\<close>

record sample =
  smp_latency :: duration
  smp_status :: int
  smp_bytes :: int
  smp_kind :: string

definition sample_us :: "sample \<Rightarrow> u64" where
  "sample_us x = of_int (go_div (smp_latency x) Microsecond)"

definition sample_bucket :: "sample \<Rightarrow> nat" where
  "sample_bucket x = nat (bucketFor (float_of_u64 (sample_us x)))"

definition sample_class :: "sample \<Rightarrow> nat" where
  "sample_class x =
     (if smp_kind x = [] \<and> 100 \<le> smp_status x \<and> smp_status x < 600
      then nat (smp_status x div 100) - 1 else ClassOther)"

definition sample_failed :: "sample \<Rightarrow> bool" where
  "sample_failed x \<longleftrightarrow> smp_kind x \<noteq> [] \<or> 400 \<le> smp_status x"

definition sample_size :: "sample \<Rightarrow> u64" where
  "sample_size x = (if 0 < smp_bytes x then of_int (smp_bytes x) else 0)"

definition count_u64 :: "('a \<Rightarrow> bool) \<Rightarrow> 'a list \<Rightarrow> u64" where
  "count_u64 P xs = of_nat (length (filter P xs))"

definition count_kinds :: "sample list \<Rightarrow> kinds" where
  "count_kinds xs = fold incr_key (filter (\<lambda>k. k \<noteq> []) (map smp_kind xs)) Mapping.empty"

definition shard_of :: "sample list \<Rightarrow> shard" where
  "shard_of xs = \<lparr>hist = map (\<lambda>i. count_u64 (\<lambda>x. sample_bucket x = i) xs) [0..<NumBuckets],
     requests = of_nat (length xs),
     failures = count_u64 sample_failed xs,
     bytes = sum_list (map sample_size xs),
     sumUs = sum_list (map sample_us xs),
     maxUs = fold max (map sample_us xs) 0,
     minUs = fold min (map sample_us xs) MaxUint64,
     classes = map (\<lambda>c. count_u64 (\<lambda>x. sample_class x = c) xs) [0..<numClasses],
     errKinds = count_kinds xs\<rparr>"

definition snapshot_of :: "duration \<Rightarrow> sample list \<Rightarrow> snapshot" where
  "snapshot_of e xs = \<lparr>Requests = of_nat (length xs),
     Failures = count_u64 sample_failed xs,
     Bytes = sum_list (map sample_size xs),
     SumUs = sum_list (map sample_us xs),
     MaxUs = fold max (map sample_us xs) 0,
     MinUs = fold min (map sample_us xs) MaxUint64,
     Classes = map (\<lambda>c. count_u64 (\<lambda>x. sample_class x = c) xs) [0..<numClasses],
     ErrKinds = Some (count_kinds xs),
     Hist = map (\<lambda>i. count_u64 (\<lambda>x. sample_bucket x = i) xs) [0..<NumBuckets],
     Elapsed = e\<rparr>"

section \<open>Counting lemmas\<close>

lemma count_u64_Nil [simp]: "count_u64 P [] = 0"
  by (simp add: count_u64_def)

lemma count_u64_append [simp]: "count_u64 P (xs @ ys) = count_u64 P xs + count_u64 P ys"
  by (simp add: count_u64_def)

lemma count_u64_single [simp]: "count_u64 P [x] = (if P x then 1 else 0)"
  by (simp add: count_u64_def)

lemma add_into_map [simp]: "add_into (map f ks) (map g ks) = map (\<lambda>k. f k + g k) ks"
  by (induction ks) simp_all

lemma sub_from_map [simp]: "sub_from (map f ks) (map g ks) = map (\<lambda>k. f k - g k) ks"
  by (induction ks) simp_all

lemma length_add_into [simp]: "length (add_into ds ss) = length ds"
  by (induction ds ss rule: add_into.induct) simp_all

lemma replicate_eq_map: "replicate n c = map (\<lambda>i. c) [0..<n]"
  by (simp add: map_replicate_const)

lemma fold_max_start: "fold max (xs :: u64 list) a = max a (fold max xs 0)"
proof (induction xs arbitrary: a)
  case (Cons x xs)
  then have "fold max xs (max x a) = max (max x a) (fold max xs 0)" "fold max xs x = max x (fold max xs 0)"
    by blast+
  then show ?case by (simp add: ac_simps)
qed simp

lemma fold_min_start: "fold min (xs :: u64 list) a = min a (fold min xs MaxUint64)"
proof (induction xs arbitrary: a)
  case (Cons x xs)
  then have "fold min xs (min x a) = min (min x a) (fold min xs MaxUint64)"
    "fold min xs (min x MaxUint64) = min (min x MaxUint64) (fold min xs MaxUint64)"
    by blast+
  then show ?case by (simp add: ac_simps min_absorb1 MaxUint64_def)
qed (simp add: MaxUint64_def min_absorb1)

text \<open>An increment at a position in range adds the indicator of the position.\<close>

lemma incr_at_map:
  assumes "k < n"
  shows "incr_at (int k) (map f [0..<n]) = Inr (map (\<lambda>i. f i + (if k = i then 1 else 0)) [0..<n])"
  using assms by (auto simp: incr_at_def list_eq_iff_nth_eq nth_list_update)

lemma incr_key_combine: "incr_key k (add_kinds m m') = add_kinds m (incr_key k m')"
  by (rule mapping_eqI) (auto simp: incr_key_def add_kinds_def lookup_combine lookup_map_default' lookup_default_def combine_options_def add.assoc split: option.splits)

lemma count_kinds_append: "count_kinds (xs @ ys) = add_kinds (count_kinds xs) (count_kinds ys)"
proof (induction ys rule: rev_induct)
  case (snoc y ys)
  then show ?case by (simp add: count_kinds_def incr_key_combine)
qed (simp add: count_kinds_def add_kinds_def combine_empty)

text \<open>Every latency falls into one of the \<open>NumBuckets\<close> buckets.\<close>

lemma log_ratio_nonneg: "1 \<le> us \<Longrightarrow> 0 \<le> f64 (math_Log us / logGrowth)"
proof -
  assume us: "1 \<le> us"
  have "1 \<le> growth" unfolding growth_def by (rule f64.fl_ge_int [of 1, simplified]) simp
  then have "0 \<le> logGrowth" by (simp add: logGrowth_def math_Log_def f64.fl_nonneg)
  moreover have "0 \<le> math_Log us" using us by (simp add: math_Log_def f64.fl_nonneg)
  ultimately show ?thesis by (simp add: f64.fl_nonneg)
qed

lemma bucketFor_range: "0 \<le> bucketFor us \<and> bucketFor us < int NumBuckets"
  using log_ratio_nonneg [of us] trunc_float_nonneg [of "f64 (math_Log us / logGrowth)"]
  by (auto simp: bucketFor_def Let_def NumBuckets_def not_less)

lemma sample_bucket_less: "sample_bucket x < NumBuckets"
  using bucketFor_range [of "float_of_u64 (sample_us x)"] by (simp add: sample_bucket_def nat_less_iff)

lemma int_sample_bucket: "int (sample_bucket x) = bucketFor (float_of_u64 (sample_us x))"
  using bucketFor_range [of "float_of_u64 (sample_us x)"] by (simp add: sample_bucket_def)

lemma sample_class_less: "sample_class x < numClasses"
  by (auto simp: sample_class_def numClasses_def ClassOther_def)

lemma int_sample_class:
  "smp_kind x = [] \<Longrightarrow> int (sample_class x) =
     (if 100 \<le> smp_status x \<and> smp_status x < 600 then go_div (smp_status x) 100 - 1 else int ClassOther)"
  by (auto simp: sample_class_def)

section \<open>Recording computes the counts\<close>

lemma NewShard_shard_of: "NewShard = shard_of []"
  by (simp add: NewShard_def shard_of_def count_kinds_def map_replicate_const)

lemma incr_hist:
  "incr_at (bucketFor (float_of_u64 (sample_us x))) (hist (shard_of xs)) = Inr (hist (shard_of (xs @ [x])))"
  unfolding int_sample_bucket [symmetric] shard_of_def
  using sample_bucket_less [of x] by (simp only: shard.simps incr_at_map count_u64_append count_u64_single)

lemma incr_classes:
  "incr_at (int (sample_class x)) (classes (shard_of xs)) = Inr (classes (shard_of (xs @ [x])))"
  unfolding shard_of_def
  using sample_class_less [of x] by (simp only: shard.simps incr_at_map count_u64_append count_u64_single)

lemma shard_of_snoc:
  "shard_of (xs @ [x]) = shard_of xs\<lparr>hist := hist (shard_of (xs @ [x])),
     requests := requests (shard_of xs) + 1,
     failures := failures (shard_of xs) + (if sample_failed x then 1 else 0),
     bytes := bytes (shard_of xs) + sample_size x,
     sumUs := sumUs (shard_of xs) + sample_us x,
     maxUs := max (sample_us x) (maxUs (shard_of xs)),
     minUs := min (sample_us x) (minUs (shard_of xs)),
     classes := classes (shard_of (xs @ [x])),
     errKinds := (if smp_kind x = [] then errKinds (shard_of xs)
                  else incr_key (smp_kind x) (errKinds (shard_of xs)))\<rparr>"
  by (simp add: shard_of_def count_kinds_def)

text \<open>The compare-and-swap loops of \<open>Record\<close> store the maximum and the minimum.\<close>

lemma cas_max: "(if us \<le> maxUs s then s else s\<lparr>maxUs := us\<rparr>) = s\<lparr>maxUs := max us (maxUs s)\<rparr>"
  by (auto simp: max_def)

lemma cas_min: "(if minUs s \<le> us then s else s\<lparr>minUs := us\<rparr>) = s\<lparr>minUs := min us (minUs s)\<rparr>"
  by (auto simp: min_def)

lemma Record_shard_of:
  "Record (shard_of xs) (smp_latency x) (smp_status x) (smp_bytes x) (smp_kind x) = Inr (shard_of (xs @ [x]))"
proof (cases "smp_kind x = []")
  case True
  show ?thesis
    by (subst shard_of_snoc)
      (simp add: True Record_def Let_def sample_us_def [symmetric] incr_hist int_sample_class [symmetric]
        incr_classes sample_failed_def sample_size_def cas_max cas_min)
next
  case False
  then have "sample_class x = ClassOther" by (simp add: sample_class_def)
  then have c: "incr_at (int ClassOther) (classes (shard_of xs)) = Inr (classes (shard_of (xs @ [x])))"
    using incr_classes [of x xs] by simp
  show ?thesis
    by (subst shard_of_snoc)
      (simp add: False Record_def Let_def sample_us_def [symmetric] incr_hist
        c sample_failed_def sample_size_def cas_max cas_min)
qed

section \<open>Folding shards and merging snapshots add the counts\<close>

lemma NewSnapshot_snapshot_of: "NewSnapshot = snapshot_of 0 []"
  by (simp add: NewSnapshot_def snapshot_of_def count_kinds_def map_replicate_const numClasses_def)

lemma AddShard_snapshot_of:
  "AddShard (snapshot_of e xs) (shard_of ys) = Inr (snapshot_of e (xs @ ys))"
  by (simp add: AddShard_def snapshot_of_def shard_of_def count_kinds_append
      fold_max_start [of _ "fold max (map sample_us xs) 0"]
      fold_min_start [of _ "fold min (map sample_us xs) MaxUint64"])

lemma Merge_snapshot_of:
  assumes "length ys < 2 ^ 64"
  shows "Merge (snapshot_of e xs) (Some (snapshot_of f ys)) = snapshot_of (max e f) (xs @ ys)"
proof -
  have "(0 :: u64) < of_nat (length ys) \<longleftrightarrow> ys \<noteq> []"
    using assms by (auto simp: word_less_nat_alt unat_of_nat)
  moreover have "fold min (map sample_us (xs @ ys)) MaxUint64 =
      min (fold min (map sample_us xs) MaxUint64) (fold min (map sample_us ys) MaxUint64)"
    by (simp add: fold_min_start [of _ "fold min (map sample_us xs) MaxUint64"])
  moreover have "fold max (map sample_us (xs @ ys)) 0 =
      max (fold max (map sample_us xs) 0) (fold max (map sample_us ys) 0)"
    by (simp add: fold_max_start [of _ "fold max (map sample_us xs) 0"])
  ultimately show ?thesis
    by (auto simp: Merge_def snapshot_of_def count_kinds_append Let_def kinds_of_def)
qed

section \<open>The contract of merging\<close>

text \<open>Merging as the coordinator uses it: commutative and associative on well-formed values, as long
  as the weights (the request counts) do not add up to the bound.\<close>

locale bounded_monoid =
  fixes merge :: "'s \<Rightarrow> 's \<Rightarrow> 's" and unit :: 's
    and wf :: "'s \<Rightarrow> bool" and weight :: "'s \<Rightarrow> nat" and bound :: nat
  assumes wf_unit: "wf unit" and weight_unit: "weight unit = 0"
    and wf_merge: "wf a \<Longrightarrow> wf b \<Longrightarrow> weight a + weight b < bound \<Longrightarrow> wf (merge a b)"
    and weight_merge: "wf a \<Longrightarrow> wf b \<Longrightarrow> weight a + weight b < bound \<Longrightarrow>
      weight (merge a b) = weight a + weight b"
    and merge_commute: "wf a \<Longrightarrow> wf b \<Longrightarrow> weight a + weight b < bound \<Longrightarrow> merge a b = merge b a"
    and merge_left_commute: "wf a \<Longrightarrow> wf b \<Longrightarrow> wf c \<Longrightarrow> weight a + weight b + weight c < bound \<Longrightarrow>
      merge (merge a b) c = merge (merge a c) b"
begin

definition merge_all :: "'s list \<Rightarrow> 's \<Rightarrow> 's" where
  "merge_all xs s = foldl merge s xs"

lemma merge_all_wf:
  assumes "wf s" "\<forall>x\<in>set xs. wf x" "weight s + sum_list (map weight xs) < bound"
  shows "wf (merge_all xs s) \<and> weight (merge_all xs s) = weight s + sum_list (map weight xs)"
  using assms
proof (induction xs arbitrary: s)
  case (Cons x xs)
  then have "wf (merge s x)" "weight (merge s x) = weight s + weight x"
    by (auto intro!: wf_merge weight_merge)
  with Cons show ?case by (simp add: merge_all_def)
qed (simp add: merge_all_def)

lemma merge_all_push:
  assumes "wf s" "wf x" "\<forall>y\<in>set xs. wf y" "weight s + weight x + sum_list (map weight xs) < bound"
  shows "merge_all xs (merge s x) = merge (merge_all xs s) x"
  using assms
proof (induction xs arbitrary: s)
  case (Cons y xs)
  then have "merge (merge s x) y = merge (merge s y) x"
    by (intro merge_left_commute) auto
  moreover have "wf (merge s y)" "weight (merge s y) = weight s + weight y"
    using Cons.prems by (auto intro!: wf_merge weight_merge)
  ultimately show ?case using Cons by (simp add: merge_all_def)
qed (simp add: merge_all_def)

text \<open>The result of merging a list does not depend on its order.\<close>

lemma merge_all_mset:
  assumes "mset xs = mset ys" "wf s" "\<forall>x\<in>set xs. wf x" "weight s + sum_list (map weight xs) < bound"
  shows "merge_all xs s = merge_all ys s"
  using assms
proof (induction xs arbitrary: ys rule: rev_induct)
  case (snoc x xs)
  then obtain as bs where ys: "ys = as @ x # bs"
    by (metis in_set_conv_decomp set_mset_mset mset_append union_single_eq_member mset.simps add_mset_add_single)
  with snoc.prems(1) have m: "mset xs = mset (as @ bs)" by simp
  then have set: "set xs = set as \<union> set bs" and sums: "sum_list (map weight xs) = sum_list (map weight (as @ bs))"
    by (metis set_append set_mset_mset) (metis m mset_map sum_mset_sum_list)
  have "wf (merge_all as s)" "weight (merge_all as s) = weight s + sum_list (map weight as)"
    using merge_all_wf [of s as] snoc.prems set sums by auto
  then have "merge_all bs (merge (merge_all as s) x) = merge (merge_all bs (merge_all as s)) x"
    using snoc.prems set sums by (intro merge_all_push) auto
  moreover have "merge_all xs s = merge_all (as @ bs) s"
    using snoc m by (intro snoc.IH) auto
  ultimately show ?case by (simp add: ys merge_all_def)
qed simp

end

definition wf_snapshot :: "snapshot \<Rightarrow> bool" where
  "wf_snapshot s \<longleftrightarrow> length (Hist s) = NumBuckets \<and> length (Classes s) = numClasses \<and>
     ErrKinds s \<noteq> None \<and> 0 \<le> Elapsed s \<and> (Requests s = 0 \<longrightarrow> MinUs s = MaxUint64)"

lemma add_into_commute: "length as = length bs \<Longrightarrow> add_into as bs = add_into bs as"
  by (induction as bs rule: list_induct2) (simp_all add: add.commute)

lemma add_into_left_commute:
  "length as = length bs \<Longrightarrow> length bs = length cs \<Longrightarrow>
   add_into (add_into as bs) cs = add_into (add_into as cs) bs"
  by (induction as bs cs rule: list_induct3) (simp_all add: ac_simps)

lemma add_kinds_commute: "add_kinds a b = add_kinds b a"
  by (rule mapping_eqI) (simp add: add_kinds_def lookup_combine combine_options_def ac_simps split: option.splits)

lemma add_kinds_left_commute: "add_kinds (add_kinds a b) c = add_kinds (add_kinds a c) b"
  by (rule mapping_eqI) (simp add: add_kinds_def lookup_combine combine_options_def ac_simps split: option.splits)

lemma word_add_eq_0: "unat (a :: u64) + unat b < 2 ^ 64 \<Longrightarrow> a + b = 0 \<longleftrightarrow> a = 0 \<and> b = 0"
proof -
  assume "unat a + unat b < 2 ^ 64"
  then have "unat (a + b) = unat a + unat b" by (simp add: unat_word_ariths)
  then show ?thesis by (metis add_is_0 unat_eq_zero)
qed

lemma Merge_wf:
  "length (Hist a) = NumBuckets \<Longrightarrow> length (Hist b) = NumBuckets \<Longrightarrow> Merge a (Some b) =
     \<lparr>Requests = Requests a + Requests b, Failures = Failures a + Failures b, Bytes = Bytes a + Bytes b,
      SumUs = SumUs a + SumUs b, MaxUs = max (MaxUs a) (MaxUs b),
      MinUs = (if 0 < Requests b then min (MinUs a) (MinUs b) else MinUs a),
      Classes = add_into (Classes a) (Classes b),
      ErrKinds = Some (add_kinds (kinds_of (ErrKinds a)) (kinds_of (ErrKinds b))),
      Hist = add_into (Hist a) (Hist b), Elapsed = max (Elapsed a) (Elapsed b)\<rparr>"
  by (simp add: Merge_def Let_def)

lemma min_MaxUint64 [simp]: "min MaxUint64 x = x" "min x MaxUint64 = x"
  by (simp_all add: MaxUint64_def min_absorb1 min_absorb2)

text \<open>On well-formed snapshots the guard on \<open>MinUs\<close> makes no difference.\<close>

lemma Merge_MinUs:
  "wf_snapshot b \<Longrightarrow> (if 0 < Requests b then min m (MinUs b) else m) = min m (MinUs b)"
  by (auto simp: wf_snapshot_def word_neq_0_conv)

interpretation snapshots: bounded_monoid "\<lambda>a b. Merge a (Some b)" NewSnapshot wf_snapshot
  "\<lambda>s. unat (Requests s)" "2 ^ 64"
proof unfold_locales
  show "wf_snapshot NewSnapshot"
    by (simp add: wf_snapshot_def NewSnapshot_def numClasses_def)
  show "unat (Requests NewSnapshot) = 0"
    by (simp add: NewSnapshot_def)
next
  fix a b :: snapshot
  assume ab: "wf_snapshot a" "wf_snapshot b" and bound: "unat (Requests a) + unat (Requests b) < 2 ^ 64"
  then have len: "length (Hist a) = NumBuckets" "length (Hist b) = NumBuckets"
    and cls: "length (Classes a) = length (Classes b)"
    by (simp_all add: wf_snapshot_def)
  note simps = Merge_wf [OF len] Merge_wf [OF len(2,1)] Merge_MinUs ab
  show "wf_snapshot (Merge a (Some b))"
    using ab word_add_eq_0 [OF bound] by (auto simp: simps wf_snapshot_def)
  show "unat (Requests (Merge a (Some b))) = unat (Requests a) + unat (Requests b)"
    using bound by (simp add: simps unat_word_ariths)
  show "Merge a (Some b) = Merge b (Some a)"
    using len cls by (simp add: simps add_into_commute add_kinds_commute ac_simps)
next
  fix a b c :: snapshot
  assume abc: "wf_snapshot a" "wf_snapshot b" "wf_snapshot c"
  then have len: "length (Hist a) = NumBuckets" "length (Hist b) = NumBuckets" "length (Hist c) = NumBuckets"
    and cls: "length (Classes a) = length (Classes b)" "length (Classes b) = length (Classes c)"
    by (simp_all add: wf_snapshot_def)
  have swap: "add_into (add_into (Classes a) (Classes b)) (Classes c) = add_into (add_into (Classes a) (Classes c)) (Classes b)"
    "add_into (add_into (Hist a) (Hist b)) (Hist c) = add_into (add_into (Hist a) (Hist c)) (Hist b)"
    by (intro add_into_left_commute, simp_all add: len cls)+
  show "Merge (Merge a (Some b)) (Some c) = Merge (Merge a (Some c)) (Some b)"
    by (simp add: Merge_wf len Merge_MinUs abc kinds_of_def swap add_kinds_left_commute ac_simps)
qed


section \<open>Taking an interval away\<close>

lemma sum_count_u64:
  "\<forall>x\<in>set xs. f x < n \<Longrightarrow> sum_list (map (\<lambda>i. count_u64 (\<lambda>x. f x = i) xs) [0..<n]) = of_nat (length xs)"
proof (induction xs)
  case Nil
  then show ?case by (simp add: sum_list_triv)
next
  case (Cons x xs)
  have c: "count_u64 P (x # xs) = (if P x then 1 else 0) + count_u64 P xs" for P
    using count_u64_append [of P "[x]" xs] by simp
  have "sum_list (map (\<lambda>i. if f x = i then 1 else 0 :: u64) [0..<n]) = 1"
    using Cons.prems by (simp add: sum_list_sum_nth sum.delta)
  with Cons show ?case by (simp add: c sum_list_addf)
qed

lemma lookup_incr_key:
  "Mapping.lookup (incr_key k m) j = (if k = j then Some (Mapping.lookup_default 0 m k + 1) else Mapping.lookup m j)"
  by (simp add: incr_key_def lookup_map_default')

lemma count_kind_absent: "k \<notin> smp_kind ` set xs \<Longrightarrow> count_u64 (\<lambda>x. smp_kind x = k) xs = 0"
proof -
  assume "k \<notin> smp_kind ` set xs"
  then have "filter (\<lambda>x. smp_kind x = k) xs = []" by (auto simp: filter_empty_conv)
  then show ?thesis by (simp add: count_u64_def)
qed

lemma lookup_count_kinds:
  "k \<noteq> [] \<Longrightarrow> Mapping.lookup (count_kinds xs) k =
     (if k \<in> smp_kind ` set xs then Some (count_u64 (\<lambda>x. smp_kind x = k) xs) else None)"
proof (induction xs rule: rev_induct)
  case (snoc x xs)
  then show ?case
    by (auto simp: count_kinds_def lookup_incr_key lookup_default_def count_kind_absent)
qed (simp add: count_kinds_def)

lemma lookup_count_kinds_Nil: "Mapping.lookup (count_kinds xs) [] = None"
proof (induction xs rule: rev_induct)
  case (snoc x xs)
  then show ?case
    by (auto simp: count_kinds_def lookup_incr_key)
qed (simp add: count_kinds_def)

lemma count_u64_eq_0: "length xs < 2 ^ 64 \<Longrightarrow> count_u64 P xs = 0 \<longleftrightarrow> (\<forall>x\<in>set xs. \<not> P x)"
proof -
  assume "length xs < 2 ^ 64"
  then have "length (filter P xs) < 2 ^ 64" by (rule le_less_trans [OF length_filter_le])
  then have "count_u64 P xs = 0 \<longleftrightarrow> filter P xs = []"
    by (simp add: count_u64_def unat_eq_zero [symmetric] unat_of_nat)
  then show ?thesis by (simp add: filter_empty_conv)
qed

lemma sub_kinds:
  assumes "length ys < 2 ^ 64"
  shows "Mapping.filter (\<lambda>_ dv. 0 < dv) (Mapping.map_values
      (\<lambda>k v. v - Mapping.lookup_default 0 (count_kinds xs) k) (count_kinds (xs @ ys))) = count_kinds ys"
  (is "?l = _")
proof (rule mapping_eqI)
  fix k
  show "Mapping.lookup ?l k = Mapping.lookup (count_kinds ys) k"
  proof (cases "k = []")
    case False
    have old: "Mapping.lookup_default 0 (count_kinds xs) k = count_u64 (\<lambda>x. smp_kind x = k) xs"
      using False by (simp add: lookup_default_def lookup_count_kinds count_kind_absent)
    have "count_u64 (\<lambda>x. smp_kind x = k) ys = 0 \<longleftrightarrow> k \<notin> smp_kind ` set ys"
      using assms by (auto simp: count_u64_eq_0)
    then show ?thesis
      using False by (simp add: lookup_filter lookup_map_values old lookup_count_kinds word_gt_0)
        (auto simp: image_Un)
  qed (simp add: lookup_filter lookup_map_values lookup_count_kinds_Nil)
qed

lemma Sub_snapshot_of:
  assumes "length ys < 2 ^ 64"
  shows "Sub (snapshot_of e (xs @ ys)) (Some (snapshot_of f xs)) =
    Inr ((snapshot_of (i64 (e - f)) ys)\<lparr>MaxUs := MaxUs (snapshot_of e (xs @ ys)),
      MinUs := MinUs (snapshot_of e (xs @ ys))\<rparr>)"
  using assms by (simp add: Sub_def snapshot_of_def NewSnapshot_def kinds_of_def sub_kinds)

lemma snapshot_of_mset:
  assumes "mset xs = mset ys"
  shows "snapshot_of e xs = snapshot_of e ys"
proof -
  have count: "count_u64 P xs = count_u64 P ys" for P
    by (metis assms count_u64_def mset_filter size_mset)
  have sums: "sum_list (map g xs) = sum_list (map g ys)" for g :: "sample \<Rightarrow> u64"
    by (metis assms mset_map sum_mset_sum_list)
  have kinds: "count_kinds xs = count_kinds ys"
  proof (rule mapping_eqI)
    fix k
    show "Mapping.lookup (count_kinds xs) k = Mapping.lookup (count_kinds ys) k"
      using count mset_eq_setD [OF assms]
      by (cases "k = []") (simp_all add: lookup_count_kinds_Nil lookup_count_kinds)
  qed
  have set: "set (map sample_us xs) = set (map sample_us ys)"
    using mset_eq_setD [OF assms] by simp
  have "fold max (map sample_us xs) 0 = Max (insert 0 (set (map sample_us xs)))"
    "fold max (map sample_us ys) 0 = Max (insert 0 (set (map sample_us ys)))"
    by (metis Max.set_eq_fold list.set(2))+
  then have mx: "fold max (map sample_us xs) 0 = fold max (map sample_us ys) 0"
    by (simp only: set)
  have "fold min (map sample_us xs) MaxUint64 = Min (insert MaxUint64 (set (map sample_us xs)))"
    "fold min (map sample_us ys) MaxUint64 = Min (insert MaxUint64 (set (map sample_us ys)))"
    by (metis Min.set_eq_fold list.set(2))+
  then have mn: "fold min (map sample_us xs) MaxUint64 = fold min (map sample_us ys) MaxUint64"
    by (simp only: set)
  have "length xs = length ys" by (metis assms size_mset)
  then show ?thesis by (simp add: snapshot_of_def count sums kinds mx mn)
qed

section \<open>Properties\<close>

lemma ErrorRate_unit:
  assumes "Failures sn \<le> Requests sn"
  shows "0 \<le> ErrorRate sn \<and> ErrorRate sn \<le> 1"
proof (cases "Requests sn = 0")
  case False
  have "float_of_u64 (Failures sn) / float_of_u64 (Requests sn) \<le> of_int 1"
    using float_of_u64_mono [OF assms] float_of_u64_nonneg [of "Requests sn"]
    by (cases "float_of_u64 (Requests sn) = 0") (simp_all add: divide_le_eq order_less_le)
  then have "f64 (float_of_u64 (Failures sn) / float_of_u64 (Requests sn)) \<le> of_int 1"
    by (rule f64.fl_le_int) simp
  with False show ?thesis by (simp add: ErrorRate_def f64.fl_nonneg)
qed (simp add: ErrorRate_def)

lemma Record_list:
  "fold_ok (\<lambda>x s. Record s (smp_latency x) (smp_status x) (smp_bytes x) (smp_kind x)) ys (shard_of xs)
     = Inr (shard_of (xs @ ys))"
  by (induction ys arbitrary: xs) (simp_all add: Record_shard_of)

text \<open>C1: Recording is total and exact: whatever latencies, status codes, sizes and error kinds a
  goroutine records, no call panics and the shard holds exactly the counts of the samples (per
  bucket, per status class, per error kind), their sums and their extremes.\<close>

theorem record_exact:
  "fold_ok (\<lambda>x s. Record s (smp_latency x) (smp_status x) (smp_bytes x) (smp_kind x)) xs NewShard
     = Inr (shard_of xs)"
  using Record_list [of xs "[]"] by (simp add: NewShard_shard_of)

lemma AddShard_list:
  "fold_ok (\<lambda>s sn. AddShard sn s) (map shard_of xss) (snapshot_of e xs) = Inr (snapshot_of e (xs @ concat xss))"
  by (induction xss arbitrary: xs) (simp_all add: AddShard_snapshot_of)

text \<open>C25: Merging the snapshots of two machines gives the snapshot one machine would have recorded
  for both their sample lists, with the longer of the two elapsed times.\<close>

theorem merge_exact:
  assumes "length ys < 2 ^ 64"
  shows "Merge (snapshot_of e xs) (Some (snapshot_of f ys)) = snapshot_of (max e f) (xs @ ys)"
  using assms by (rule Merge_snapshot_of)

theorem merge_exact_witness:
  "Merge (snapshot_of 5 [\<lparr>smp_latency = 1000000, smp_status = 200, smp_bytes = 1, smp_kind = []\<rparr>])
     (Some (snapshot_of 7 [\<lparr>smp_latency = 3000000, smp_status = 0, smp_bytes = 0, smp_kind = ''timeout''\<rparr>]))
   = snapshot_of 7 [\<lparr>smp_latency = 1000000, smp_status = 200, smp_bytes = 1, smp_kind = []\<rparr>,
       \<lparr>smp_latency = 3000000, smp_status = 0, smp_bytes = 0, smp_kind = ''timeout''\<rparr>]"
  using merge_exact [of "[\<lparr>smp_latency = 3000000, smp_status = 0, smp_bytes = 0, smp_kind = ''timeout''\<rparr>]" 5
    "[\<lparr>smp_latency = 1000000, smp_status = 200, smp_bytes = 1, smp_kind = []\<rparr>]" 7]
  by simp

text \<open>C26: The interval between two cumulative snapshots is the snapshot of the samples recorded in
  between: subtracting undoes the counting exactly, wrapped counters included, and only the
  extremes are those of the whole run.\<close>

theorem sub_exact:
  assumes "length ys < 2 ^ 64"
  shows "Sub (snapshot_of e (xs @ ys)) (Some (snapshot_of f xs)) =
    Inr ((snapshot_of (i64 (e - f)) ys)\<lparr>MaxUs := MaxUs (snapshot_of e (xs @ ys)),
      MinUs := MinUs (snapshot_of e (xs @ ys))\<rparr>)"
  using assms by (rule Sub_snapshot_of)

theorem sub_exact_witness:
  "Sub (snapshot_of 9 [\<lparr>smp_latency = 1000000, smp_status = 200, smp_bytes = 1, smp_kind = []\<rparr>,
       \<lparr>smp_latency = 3000000, smp_status = 0, smp_bytes = 0, smp_kind = ''timeout''\<rparr>])
     (Some (snapshot_of 4 [\<lparr>smp_latency = 1000000, smp_status = 200, smp_bytes = 1, smp_kind = []\<rparr>])) =
   Inr ((snapshot_of 5 [\<lparr>smp_latency = 3000000, smp_status = 0, smp_bytes = 0, smp_kind = ''timeout''\<rparr>])
     \<lparr>MaxUs := 3000, MinUs := 1000\<rparr>)"
proof -
  let ?a = "\<lparr>smp_latency = 1000000, smp_status = 200, smp_bytes = 1, smp_kind = []\<rparr>"
    and ?b = "\<lparr>smp_latency = 3000000, smp_status = 0, smp_bytes = 0, smp_kind = ''timeout''\<rparr>"
  have "MaxUs (snapshot_of 9 [?a, ?b]) = 3000" "MinUs (snapshot_of 9 [?a, ?b]) = 1000"
    by (simp_all add: snapshot_of_def sample_us_def MaxUint64_def max_def min_def)
  moreover have "i64 5 = 5" by (simp add: i64_def)
  ultimately show ?thesis using sub_exact [of "[?b]" 9 "[?a]" 4] by simp
qed

text \<open>A histogram longer than \<open>NumBuckets\<close> (as a report from another version of the program
  may carry) makes \<open>Sub\<close> index past its own slice and panic, although \<open>Merge\<close> accepts it.\<close>

lemma sub_panics_on_long_histogram:
  assumes "NumBuckets < length (Hist sn)"
  shows "Sub sn (Some pr) = Inl IndexOutOfRange"
  using assms by (simp add: Sub_def)

text \<open>In every snapshot of a run the histogram, the status classes and the request counter
  agree, no more failures than requests are counted, and the error rate is a fraction between 0
  and 1.\<close>

theorem snapshot_consistent:
  assumes "length xs < 2 ^ 64"
  shows "sum_list (Hist (snapshot_of e xs)) = Requests (snapshot_of e xs) \<and>
    sum_list (Classes (snapshot_of e xs)) = Requests (snapshot_of e xs) \<and>
    Failures (snapshot_of e xs) \<le> Requests (snapshot_of e xs) \<and>
    wf_snapshot ((snapshot_of e xs)\<lparr>Elapsed := 0\<rparr>) \<and>
    0 \<le> ErrorRate (snapshot_of e xs) \<and> ErrorRate (snapshot_of e xs) \<le> 1"
proof -
  have "length (filter sample_failed xs) < 2 ^ 64"
    using assms by (rule le_less_trans [OF length_filter_le])
  then have "Failures (snapshot_of e xs) \<le> Requests (snapshot_of e xs)"
    using assms by (simp add: snapshot_of_def count_u64_def word_le_nat_alt unat_of_nat)
  moreover have "sum_list (Hist (snapshot_of e xs)) = of_nat (length xs)"
    unfolding snapshot_of_def using sum_count_u64 [of xs sample_bucket] sample_bucket_less by simp
  moreover have "sum_list (Classes (snapshot_of e xs)) = of_nat (length xs)"
    unfolding snapshot_of_def using sum_count_u64 [of xs sample_class] sample_class_less by simp
  moreover have "(of_nat (length xs) :: u64) = 0 \<longleftrightarrow> xs = []"
    using assms by (simp add: unat_eq_zero [symmetric] unat_of_nat)
  ultimately show ?thesis using ErrorRate_unit [of "snapshot_of e xs"]
    by (auto simp: snapshot_of_def wf_snapshot_def)
qed

theorem snapshot_consistent_witness:
  "sum_list (Hist (snapshot_of 0 [\<lparr>smp_latency = 500, smp_status = 503, smp_bytes = 0, smp_kind = []\<rparr>])) = 1 \<and>
   Failures (snapshot_of 0 [\<lparr>smp_latency = 500, smp_status = 503, smp_bytes = 0, smp_kind = []\<rparr>]) \<le> 1"
  using snapshot_consistent [of "[\<lparr>smp_latency = 500, smp_status = 503, smp_bytes = 0, smp_kind = []\<rparr>]" 0]
  by (simp add: snapshot_of_def)

lemma fold_max_mem_bounds:
  fixes us :: "u64 list"
  assumes "us \<noteq> []"
  shows "u \<in> set us \<Longrightarrow> u \<le> fold max us 0" "u \<in> set us \<Longrightarrow> fold min us MaxUint64 \<le> u"
proof -
  have "fold max us 0 = Max (insert 0 (set us))" "fold min us MaxUint64 = Min (insert MaxUint64 (set us))"
    by (metis Max.set_eq_fold list.set(2), metis Min.set_eq_fold list.set(2))
  then show "u \<in> set us \<Longrightarrow> u \<le> fold max us 0" "u \<in> set us \<Longrightarrow> fold min us MaxUint64 \<le> u"
    by simp_all
qed

lemma unat_sum_list: "sum_list (map unat us) < 2 ^ 64 \<Longrightarrow> unat (sum_list (us :: u64 list)) = sum_list (map unat us)"
proof (induction us)
  case (Cons u us)
  then show ?case by (simp add: unat_word_ariths)
qed simp

lemma micros_small: "unat u < 2 ^ 53 \<Longrightarrow> micros u = int (unat u) * 1000"
  unfolding micros_def by (subst sint_small, simp) (rule i64_small, simp)

lemma mean_between_list:
  fixes us :: "nat list"
  assumes "us \<noteq> []" "\<forall>u\<in>set us. lo \<le> u \<and> u \<le> hi"
  shows "lo \<le> sum_list us div length us" "sum_list us div length us \<le> hi"
proof -
  have "lo * length us \<le> sum_list us \<and> sum_list us \<le> hi * length us"
    using assms(2) by (induction us) auto
  then show "lo \<le> sum_list us div length us" "sum_list us div length us \<le> hi"
    using assms(1) by (simp_all add: less_eq_div_iff_mult_less_eq div_le_mono2 div_less_iff_less_mult mult.commute)
      (metis div_le_mono length_greater_0_conv nonzero_mult_div_cancel_right not_less0)
qed

text \<open>C29: The reported mean lies between the reported minimum and maximum, for every run whose
  latencies sum to less than \<open>2 ^ 53\<close> microseconds (285 years).\<close>

theorem mean_between_min_and_max:
  assumes "xs \<noteq> []" "length xs < 2 ^ 64" "sum_list (map (\<lambda>x. unat (sample_us x)) xs) < 2 ^ 53"
  shows "MinLatency (snapshot_of e xs) \<le> Mean (snapshot_of e xs) \<and>
    Mean (snapshot_of e xs) \<le> MaxLatency (snapshot_of e xs)"
proof -
  let ?us = "map sample_us xs"
  let ?lo = "fold min ?us MaxUint64" and ?hi = "fold max ?us 0"
  have sum: "unat (sum_list ?us) = sum_list (map unat ?us)" using assms(3) by (intro unat_sum_list) (simp add: o_def)
  have "\<forall>u\<in>set (map unat ?us). unat ?lo \<le> u \<and> u \<le> unat ?hi"
    using fold_max_mem_bounds [of ?us] assms(1) by (auto simp: word_le_nat_alt)
  then have m: "unat ?lo \<le> sum_list (map unat ?us) div length xs" "sum_list (map unat ?us) div length xs \<le> unat ?hi"
    using mean_between_list [of "map unat ?us"] assms(1) by simp_all
  have d: "unat (sum_list ?us div of_nat (length xs)) = sum_list (map unat ?us) div length xs"
    using assms(2) by (simp add: unat_div sum unat_of_nat)
  have "?hi \<in> set (0 # ?us)" by (metis List.finite_set Max.set_eq_fold Max_in list.distinct(1) set_empty)
  then have hi: "unat ?hi < 2 ^ 53"
    using assms(3) member_le_sum_list [of _ "map unat ?us"] by (fastforce simp: o_def)
  have r: "(of_nat (length xs) :: u64) \<noteq> 0" using assms(1,2) by (simp add: unat_eq_zero [symmetric] unat_of_nat)
  have "Mean (snapshot_of e xs) = int (sum_list (map unat ?us) div length xs) * 1000"
    using r m hi by (simp add: Mean_def snapshot_of_def micros_small d)
  moreover have "MinLatency (snapshot_of e xs) \<le> int (unat ?lo) * 1000"
    using m hi r by (simp add: MinLatency_def snapshot_of_def micros_small)
  moreover have "MaxLatency (snapshot_of e xs) = int (unat ?hi) * 1000"
    using hi by (simp add: MaxLatency_def snapshot_of_def micros_small)
  ultimately show ?thesis using m by simp
qed

theorem mean_between_min_and_max_witness:
  "MinLatency (snapshot_of 0 [\<lparr>smp_latency = 1000000, smp_status = 200, smp_bytes = 1, smp_kind = []\<rparr>,
       \<lparr>smp_latency = 3000000, smp_status = 0, smp_bytes = 0, smp_kind = ''timeout''\<rparr>])
   \<le> Mean (snapshot_of 0 [\<lparr>smp_latency = 1000000, smp_status = 200, smp_bytes = 1, smp_kind = []\<rparr>,
       \<lparr>smp_latency = 3000000, smp_status = 0, smp_bytes = 0, smp_kind = ''timeout''\<rparr>])"
  using mean_between_min_and_max [of "[\<lparr>smp_latency = 1000000, smp_status = 200, smp_bytes = 1, smp_kind = []\<rparr>,
       \<lparr>smp_latency = 3000000, smp_status = 0, smp_bytes = 0, smp_kind = ''timeout''\<rparr>]" 0]
  by (simp add: sample_us_def)

interpretation kv: less_order kv_before
  by unfold_locales (auto simp: kv_before_def split: if_splits)

lemma ErrKindsSorted_set:
  assumes "finite (Mapping.keys (kinds_of (ErrKinds sn)))"
  shows "set (ErrKindsSorted sn) =
    {\<lparr>KV_K = k, KV_V = v\<rparr> | k v. Mapping.lookup (kinds_of (ErrKinds sn)) k = Some v}"
  using assms by (auto simp: ErrKindsSorted_def Mapping.set_ordered_entries Mapping.entries_lookup Map.graph_def)

text \<open>The error kinds are listed by count, the most frequent first and ties in lexical order, and
  the list holds every kind that occurred in the run with its count and nothing else.\<close>

theorem err_kinds_sorted:
  "sorted_wrt (\<lambda>a b. \<not> kv_before b a) (ErrKindsSorted (snapshot_of e xs)) \<and>
   set (ErrKindsSorted (snapshot_of e xs)) =
     {\<lparr>KV_K = k, KV_V = count_u64 (\<lambda>x. smp_kind x = k) xs\<rparr> | k. k \<in> smp_kind ` set xs \<and> k \<noteq> []}"
proof -
  have "finite (Mapping.keys (count_kinds xs))"
    by (induction xs rule: rev_induct) (auto simp: count_kinds_def incr_key_def)
  then have "set (ErrKindsSorted (snapshot_of e xs)) =
      {\<lparr>KV_K = k, KV_V = v\<rparr> | k v. Mapping.lookup (count_kinds xs) k = Some v}"
    by (simp add: ErrKindsSorted_set snapshot_of_def kinds_of_def)
  moreover have "Mapping.lookup (count_kinds xs) k = Some v \<longleftrightarrow>
      k \<noteq> [] \<and> k \<in> smp_kind ` set xs \<and> v = count_u64 (\<lambda>x. smp_kind x = k) xs" for k v
    by (cases "k = []") (auto simp: lookup_count_kinds_Nil lookup_count_kinds)
  ultimately have "set (ErrKindsSorted (snapshot_of e xs)) =
      {\<lparr>KV_K = k, KV_V = count_u64 (\<lambda>x. smp_kind x = k) xs\<rparr> | k. k \<in> smp_kind ` set xs \<and> k \<noteq> []}"
    by auto
  then show ?thesis using kv.sort_by_sorted by (simp add: ErrKindsSorted_def)
qed

end
