(* ===== verification/Stats_Quantile.thy ===== *)
theory Stats_Quantile
  imports Stats_Exact
begin

text \<open>
  What \<open>Percentile\<close> reports. The scan over the histogram stops in the bucket of the sample with
  the requested rank, whatever the samples were; the bucket's upper bound is within two per cent
  of every latency that falls into it, with the rounding of \<open>math.Log\<close>, of the divisions and of
  \<open>math.Pow\<close> accounted for (\<open>ulp\<close> is the unit roundoff, and a factor of \<open>1 \<plusminus> 10 ^ -12\<close> covers
  all of it). The figures are monotone in the quantile and never above the recorded maximum.
\<close>

section \<open>Monotonicity of the buckets\<close>

lemma growth_ge_1: "1 \<le> growth"
  unfolding growth_def by (rule f64.fl_ge_int [of 1, simplified]) simp

lemma logGrowth_nonneg: "0 \<le> logGrowth"
  using growth_ge_1 by (simp add: logGrowth_def math_Log_def f64.fl_nonneg)

lemma bucketFor_mono:
  assumes "x \<le> y"
  shows "bucketFor x \<le> bucketFor y"
proof (cases "x < 1")
  case True
  then show ?thesis using bucketFor_range [of y] by (simp add: bucketFor_def)
next
  case False
  with assms have "math_Log x \<le> math_Log y" by (simp add: math_Log_def f64.fl_mono)
  then have "trunc_float (f64 (math_Log x / logGrowth)) \<le> trunc_float (f64 (math_Log y / logGrowth))"
    using logGrowth_nonneg by (intro trunc_float_mono f64.fl_mono divide_right_mono)
  with False assms show ?thesis by (simp add: bucketFor_def Let_def)
qed

lemma BucketUpper_mono: "i \<le> j \<Longrightarrow> BucketUpper i \<le> BucketUpper j"
proof -
  assume ij: "i \<le> j"
  have lower: "1 \<le> BucketUpper k" for k
  proof (cases "k \<le> 0")
    case False
    then have "0 \<le> float_of_int k" by (simp add: float_of_int_def f64.fl_nonneg)
    then have "1 \<le> growth powr float_of_int k" using growth_ge_1 by (simp add: ge_one_powr_ge_zero)
    then have "1 \<le> f64 (growth powr float_of_int k)" by (rule f64.fl_ge_int [of 1, simplified])
    with False show ?thesis by (simp add: BucketUpper_def math_Pow_def)
  qed (simp add: BucketUpper_def)
  have "math_Pow growth (float_of_int i) \<le> math_Pow growth (float_of_int j)"
    using ij growth_ge_1 unfolding math_Pow_def float_of_int_def
    by (intro f64.fl_mono powr_mono) simp_all
  then show ?thesis using ij lower [of j] by (auto simp: BucketUpper_def split: if_splits)
qed

section \<open>The scan finds the bucket of the rank-th sample\<close>

definition before :: "u64 list \<Rightarrow> nat \<Rightarrow> nat" where
  "before h i = sum_list (map unat (take i h))"

lemma scan_rank_Some:
  assumes "unat seen + sum_list (map unat h) < 2 ^ 64" "unat seen < unat rank"
    and "unat rank \<le> unat seen + sum_list (map unat h)"
  shows "\<exists>k < length h. scan_rank i seen rank h = Some (i + k) \<and>
     unat seen + before h k < unat rank \<and> unat rank \<le> unat seen + before h (Suc k)"
  using assms
proof (induction h arbitrary: i seen)
  case (Cons c cs)
  have add: "unat (seen + c) = unat seen + unat c"
    using Cons.prems(1) by (simp add: unat_word_ariths)
  show ?case
  proof (cases "rank \<le> seen + c")
    case True
    then have "unat rank \<le> unat seen + unat c" using add by (simp add: word_le_nat_alt)
    with True Cons.prems(2) show ?thesis by (intro exI [of _ 0]) (simp add: before_def)
  next
    case False
    then have "unat (seen + c) < unat rank" by (simp add: word_le_nat_alt)
    with Cons add obtain k where "k < length cs" "scan_rank (Suc i) (seen + c) rank cs = Some (Suc i + k)"
      "unat (seen + c) + before cs k < unat rank" "unat rank \<le> unat (seen + c) + before cs (Suc k)"
      by (metis (no_types, lifting) add.assoc list.simps(9) sum_list.Cons)
    with False add show ?thesis
      by (intro exI [of _ "Suc k"]) (simp add: before_def)
  qed
qed simp

lemma before_mono: "i \<le> j \<Longrightarrow> before h i \<le> before h j"
proof -
  assume "i \<le> j"
  then have "take j h = take i h @ take (j - i) (drop i h)"
    by (metis le_add_diff_inverse take_add)
  then show ?thesis by (simp add: before_def)
qed

text \<open>The bucket is determined by the two bounds.\<close>

lemma scan_rank_eq:
  assumes "sum_list (map unat h) < 2 ^ 64" "before h k < unat rank" "unat rank \<le> before h (Suc k)"
  shows "scan_rank 0 0 rank h = Some k"
proof -
  have "before h (Suc k) \<le> sum_list (map unat h)"
    using before_mono [of "Suc k" "max (Suc k) (length h)" h] by (simp add: before_def)
  then obtain j where j: "scan_rank 0 0 rank h = Some j" "before h j < unat rank" "unat rank \<le> before h (Suc j)"
    using scan_rank_Some [of 0 h rank 0] assms by auto
  have "j = k"
  proof (rule ccontr)
    assume "j \<noteq> k"
    then consider "Suc j \<le> k" | "Suc k \<le> j" by linarith
    then show False using before_mono [of "Suc j" k h] before_mono [of "Suc k" j h] j assms by cases auto
  qed
  with j show ?thesis by simp
qed

text \<open>The counts below a bucket are the samples of smaller buckets.\<close>

lemma unat_count_u64: "length xs < 2 ^ 64 \<Longrightarrow> unat (count_u64 P xs) = length (filter P xs)"
proof -
  assume "length xs < 2 ^ 64"
  then have "length (filter P xs) < 2 ^ 64" by (rule le_less_trans [OF length_filter_le])
  then show ?thesis by (simp add: count_u64_def unat_of_nat)
qed

lemma before_snapshot_of:
  assumes "length xs < 2 ^ 64" "k \<le> NumBuckets"
  shows "before (Hist (snapshot_of e xs)) k = length (filter (\<lambda>x. sample_bucket x < k) xs)"
  using assms(2)
proof (induction k)
  case (Suc k)
  have "length (filter (\<lambda>x. sample_bucket x < Suc k) xs) =
      length (filter (\<lambda>x. sample_bucket x < k) xs) + length (filter (\<lambda>x. sample_bucket x = k) xs)"
    by (induction xs) auto
  with Suc show ?case
    by (simp add: before_def snapshot_of_def take_map unat_count_u64 [OF assms(1)])
qed (simp add: before_def)

lemma hist_sum_snapshot_of:
  "length xs < 2 ^ 64 \<Longrightarrow> sum_list (map unat (Hist (snapshot_of e xs))) = length xs"
  using before_snapshot_of [of xs NumBuckets e] sample_bucket_less by (simp add: before_def snapshot_of_def)

lemma hist_total_eq: "hist_total h = sum_list h"
  unfolding hist_total_def by (induction h rule: rev_induct) simp_all

lemma hist_total_snapshot_of: "hist_total (Hist (snapshot_of e xs)) = of_nat (length xs)"
  using sum_count_u64 [of xs sample_bucket NumBuckets] sample_bucket_less
  by (simp add: hist_total_eq snapshot_of_def)

text \<open>The latencies of a run in microseconds, in increasing order.\<close>

definition sorted_us :: "sample list \<Rightarrow> nat list" where
  "sorted_us xs = sort (map (\<lambda>x. unat (sample_us x)) xs)"

definition bucket_us :: "nat \<Rightarrow> nat" where
  "bucket_us v = nat (bucketFor (f64 (of_nat v)))"

lemma sample_bucket_us: "sample_bucket x = bucket_us (unat (sample_us x))"
  by (simp add: sample_bucket_def bucket_us_def float_of_u64_def)

lemma bucket_us_mono: "v \<le> w \<Longrightarrow> bucket_us v \<le> bucket_us w"
  by (simp add: bucket_us_def nat_mono bucketFor_mono f64.fl_mono)

lemma bucket_us_less: "bucket_us v < NumBuckets"
  using bucketFor_range [of "f64 (of_nat v)"] by (simp add: bucket_us_def nat_less_iff)

lemma filter_sorted_us:
  "length (filter (\<lambda>x. sample_bucket x < k) xs) = length (filter (\<lambda>v. bucket_us v < k) (sorted_us xs))"
proof -
  have "mset (sorted_us xs) = mset (map (\<lambda>x. unat (sample_us x)) xs)" by (simp add: sorted_us_def)
  then have "length (filter (\<lambda>v. bucket_us v < k) (sorted_us xs)) =
      length (filter (\<lambda>v. bucket_us v < k) (map (\<lambda>x. unat (sample_us x)) xs))"
    by (metis mset_filter size_mset)
  then show ?thesis by (simp add: filter_map o_def sample_bucket_us)
qed

lemma sorted_filter_prefix:
  fixes vs :: "nat list"
  assumes "sorted vs" "r < length vs" "\<And>v w. v \<le> w \<Longrightarrow> f v \<le> (f w :: nat)"
  shows "length (filter (\<lambda>v. f v < f (vs ! r)) vs) \<le> r"
    and "Suc r \<le> length (filter (\<lambda>v. f v < Suc (f (vs ! r))) vs)"
proof -
  have split: "vs = take r vs @ drop r vs" by simp
  have "\<forall>v\<in>set (drop r vs). \<not> f v < f (vs ! r)"
  proof
    fix v assume "v \<in> set (drop r vs)"
    then obtain i where "i < length vs - r" "v = vs ! (r + i)" by (auto simp: in_set_conv_nth)
    then have "vs ! r \<le> v" using assms(1,2) by (auto intro: sorted_nth_mono)
    then show "\<not> f v < f (vs ! r)" using assms(3) by (simp add: not_less)
  qed
  then have "filter (\<lambda>v. f v < f (vs ! r)) (drop r vs) = []" by (simp add: filter_empty_conv)
  then have "filter (\<lambda>v. f v < f (vs ! r)) vs = filter (\<lambda>v. f v < f (vs ! r)) (take r vs)"
    by (metis append_Nil2 filter_append split)
  then show "length (filter (\<lambda>v. f v < f (vs ! r)) vs) \<le> r"
    using length_filter_le [of "\<lambda>v. f v < f (vs ! r)" "take r vs"] by simp
  have "\<forall>v\<in>set (take (Suc r) vs). f v < Suc (f (vs ! r))"
  proof
    fix v assume "v \<in> set (take (Suc r) vs)"
    then obtain i where "i < Suc r" "v = vs ! i" by (auto simp: in_set_conv_nth)
    then have "v \<le> vs ! r" using assms(1,2) by (auto intro: sorted_nth_mono)
    then show "f v < Suc (f (vs ! r))" using assms(3) by (simp add: less_Suc_eq_le)
  qed
  then have "filter (\<lambda>v. f v < Suc (f (vs ! r))) (take (Suc r) vs) = take (Suc r) vs" by (simp add: filter_id_conv)
  moreover have "length (filter (\<lambda>v. f v < Suc (f (vs ! r))) vs) =
      length (filter (\<lambda>v. f v < Suc (f (vs ! r))) (take (Suc r) vs)) +
      length (filter (\<lambda>v. f v < Suc (f (vs ! r))) (drop (Suc r) vs))"
    by (metis append_take_drop_id filter_append length_append)
  ultimately show "Suc r \<le> length (filter (\<lambda>v. f v < Suc (f (vs ! r))) vs)"
    using assms(2) by simp
qed

lemma scan_finds_order_statistic:
  assumes "length xs < 2 ^ 64" "1 \<le> unat rank" "unat rank \<le> length xs"
  shows "scan_rank 0 0 rank (Hist (snapshot_of e xs)) = Some (bucket_us (sorted_us xs ! (unat rank - 1)))"
proof (rule scan_rank_eq)
  let ?v = "sorted_us xs ! (unat rank - 1)"
  have len: "length (sorted_us xs) = length xs" by (simp add: sorted_us_def)
  have r: "unat rank - 1 < length (sorted_us xs)" using assms len by simp
  have k: "bucket_us ?v \<le> NumBuckets" "Suc (bucket_us ?v) \<le> NumBuckets"
    using bucket_us_less [of ?v] by simp_all
  show "sum_list (map unat (Hist (snapshot_of e xs))) < 2 ^ 64"
    using assms(1) by (simp add: hist_sum_snapshot_of)
  show "before (Hist (snapshot_of e xs)) (bucket_us ?v) < unat rank"
    using sorted_filter_prefix(1) [of "sorted_us xs" "unat rank - 1" bucket_us] r k assms bucket_us_mono
    by (simp add: before_snapshot_of filter_sorted_us sorted_us_def)
  show "unat rank \<le> before (Hist (snapshot_of e xs)) (Suc (bucket_us ?v))"
    using sorted_filter_prefix(2) [of "sorted_us xs" "unat rank - 1" bucket_us] r k assms bucket_us_mono
    by (simp add: before_snapshot_of filter_sorted_us sorted_us_def)
qed


section \<open>Quantiles\<close>

definition quantile_rank :: "real \<Rightarrow> nat \<Rightarrow> nat" where
  "quantile_rank q n = max 1 (nat \<lceil>f64 (q * of_nat n)\<rceil>)"

lemma quantile_rank_bounds:
  assumes "q \<le> 1" "1 \<le> n" "n \<le> 2 ^ 53"
  shows "1 \<le> quantile_rank q n" "quantile_rank q n \<le> n"
proof -
  have "q * of_nat n \<le> of_int (int n)" using assms(1) by (simp add: mult_left_le_one_le mult_right_mono [of q 1, simplified])
  then have "f64 (q * of_nat n) \<le> of_int (int n)" using assms(3) by (intro f64.fl_le_int) simp_all
  then have "\<lceil>f64 (q * of_nat n)\<rceil> \<le> int n" by (simp add: ceiling_le_iff)
  then show "quantile_rank q n \<le> n" using assms(2) by (simp add: quantile_rank_def nat_le_iff)
qed (simp add: quantile_rank_def)

lemma rank_of_eq:
  assumes "0 \<le> q" "q \<le> 1" "1 \<le> n" "n \<le> 2 ^ 53"
  shows "unat (rank_of q (of_nat n)) = quantile_rank q n"
proof -
  let ?c = "\<lceil>f64 (q * of_nat n)\<rceil>"
  have n: "unat (of_nat n :: u64) = n" using assms(4) by (simp add: unat_of_nat)
  then have f: "float_of_u64 (of_nat n) = of_nat n" using assms(4) by (simp add: float_of_u64_exact)
  have c0: "0 \<le> ?c" using assms(1) f64.fl_nonneg [of "q * of_nat n"] by (simp add: le_ceiling_iff) 
  have "nat ?c \<le> n" using quantile_rank_bounds [OF assms(2,3,4)] by (simp add: quantile_rank_def)
  then have "nat ?c < 2 ^ 64" using assms(4) by (rule le_less_trans [OF order_trans]) simp
  moreover have "u64_of_float (of_int ?c) = of_nat (nat ?c)"
    using c0 by (simp add: u64_of_float_def)
  ultimately have u: "unat (u64_of_float (math_Ceil (f64 (q * of_nat n)))) = nat ?c"
    by (simp add: math_Ceil_def unat_of_nat)
  show ?thesis
    unfolding rank_of_def f Let_def unat_at_least_1 u quantile_rank_def ..
qed

lemma Percentile_snapshot_of:
  assumes "0 \<le> q" "q \<le> 1" "xs \<noteq> []" "length xs \<le> 2 ^ 53"
  shows "Percentile (snapshot_of e xs) q =
    trunc_float (f64 (clamp_us (MaxUs (snapshot_of e xs))
      (BucketUpper (int (bucket_us (sorted_us xs ! (quantile_rank q (length xs) - 1))))) * 1000))"
proof -
  have n: "1 \<le> length xs" using assms(3) by (simp add: Suc_le_eq)
  have "(of_nat (length xs) :: u64) \<noteq> 0"
    using assms(3,4) by (simp add: unat_eq_zero [symmetric] unat_of_nat)
  moreover have "scan_rank 0 0 (rank_of q (of_nat (length xs))) (Hist (snapshot_of e xs)) =
      Some (bucket_us (sorted_us xs ! (quantile_rank q (length xs) - 1)))"
    using scan_finds_order_statistic [of xs "rank_of q (of_nat (length xs))" e]
      rank_of_eq [OF assms(1,2) n assms(4)] quantile_rank_bounds [OF assms(2) n assms(4)] assms(4)
    by simp
  ultimately show ?thesis by (simp add: Percentile_def hist_total_snapshot_of)
qed

lemma quantile_rank_mono: "q \<le> p \<Longrightarrow> quantile_rank q n \<le> quantile_rank p n"
  unfolding quantile_rank_def
  by (intro max.mono nat_mono ceiling_mono f64.fl_mono mult_right_mono) simp_all

lemma clamp_us_mono: "x \<le> y \<Longrightarrow> clamp_us m x \<le> clamp_us m y"
  by (auto simp: clamp_us_def)

lemma Percentile_mono_snapshot_of:
  assumes "0 \<le> q" "q \<le> p" "p \<le> 1" "xs \<noteq> []" "length xs \<le> 2 ^ 53"
  shows "Percentile (snapshot_of e xs) q \<le> Percentile (snapshot_of e xs) p"
proof -
  have n: "1 \<le> length xs" using assms(4) by (simp add: Suc_le_eq)
  have "sorted_us xs ! (quantile_rank q (length xs) - 1) \<le> sorted_us xs ! (quantile_rank p (length xs) - 1)"
    using quantile_rank_mono [OF assms(2), of "length xs"] quantile_rank_bounds [OF assms(3) n assms(5)]
    by (intro sorted_nth_mono diff_le_mono) (simp_all add: sorted_us_def)
  then show ?thesis
    using assms by (simp add: Percentile_snapshot_of)
      (intro trunc_float_mono f64.fl_mono mult_right_mono clamp_us_mono BucketUpper_mono, simp_all add: bucket_us_mono)
qed

lemma Percentile_le_max:
  assumes "0 < MaxUs sn" "unat (MaxUs sn) \<le> 2 ^ 43"
  shows "Percentile sn q \<le> MaxLatency sn"
proof -
  let ?m = "unat (MaxUs sn)"
  have sm: "sint (MaxUs sn) = int ?m"
    using assms(2) by (intro sint_small) simp
  have mic: "micros (MaxUs sn) = int ?m * 1000"
    using assms(2) unfolding micros_def sm by (intro i64_small) simp
  have "f64 (of_nat ?m * 1000) = of_int (int ?m * 1000)"
    using f64.fl_int [of "int ?m * 1000"] assms(2) by simp
  moreover have "clamp_us (MaxUs sn) x \<le> of_nat ?m" for x
    using assms float_of_u64_exact [of "MaxUs sn"] by (simp add: clamp_us_def)
  then have "f64 (clamp_us (MaxUs sn) x * 1000) \<le> f64 (of_nat ?m * 1000)" for x
    by (intro f64.fl_mono mult_right_mono) simp_all
  ultimately have "trunc_float (f64 (clamp_us (MaxUs sn) x * 1000)) \<le> int ?m * 1000" for x
    by (metis trunc_float_mono trunc_float_of_int)
  then show ?thesis
    by (auto simp: Percentile_def Let_def MaxLatency_def mic split: option.splits)
qed

section \<open>Accuracy of the buckets\<close>

text \<open>The unit roundoff of the format.\<close>

definition ulp :: real where
  "ulp = 2 powr - 53"

lemma ulp_eq: "ulp = 1 / 9007199254740992"
  by (simp add: ulp_def powr_minus_divide)

lemma normal_from_micro: "1 / 1000 \<le> (x :: real) \<Longrightarrow> 2 powr - 1022 \<le> x"
proof -
  assume "1 / 1000 \<le> x"
  moreover have "(2 :: real) powr - 1022 \<le> 2 powr - 10" by (intro powr_mono) simp_all
  moreover have "(2 :: real) powr - 10 = 1 / 1024" by (simp add: powr_minus_divide)
  ultimately show ?thesis by simp
qed

lemma f64_between:
  "1 / 1000 \<le> x \<Longrightarrow> (1 - ulp) * x \<le> f64 x \<and> f64 x \<le> (1 + ulp) * x"
  using f64.fl_lower f64.fl_upper normal_from_micro by (auto simp: ulp_def)

lemma growth_bounds: "(1 - ulp) * (102 / 100) \<le> growth" "growth \<le> (1 + ulp) * (102 / 100)"
  using f64_between [of "102 / 100"] by (simp_all add: growth_def)

lemma ln_growth_bounds: "1 / 100 \<le> ln growth" "ln growth \<le> 3 / 100"
proof -
  have g: "101 / 100 + 9 / 1000 \<le> growth" "growth \<le> 103 / 100"
    using growth_bounds by (simp_all add: ulp_eq)
  have "(19 / 1000 :: real) - (19 / 1000)\<^sup>2 \<le> ln (1 + 19 / 1000)"
    by (rule ln_one_plus_pos_lower_bound) simp_all
  also have "\<dots> \<le> ln growth" using g by simp
  finally show "1 / 100 \<le> ln growth" by (simp add: power2_eq_square)
  have "ln growth \<le> ln (1 + 3 / 100)" using g by simp
  also have "\<dots> \<le> 3 / 100" by (rule ln_add_one_self_le_self) simp
  finally show "ln growth \<le> 3 / 100" .
qed

lemma logGrowth_bounds: "(1 - ulp) * ln growth \<le> logGrowth" "logGrowth \<le> (1 + ulp) * ln growth"
  using f64_between [of "ln growth"] ln_growth_bounds by (simp_all add: logGrowth_def math_Log_def)

definition log_ratio :: "real \<Rightarrow> real" where
  "log_ratio v = f64 (math_Log v / logGrowth)"

lemma ln_2_ge: "2 / 5 \<le> ln (2 :: real)"
proof -
  have "(1 / 2 :: real) - (1 / 2)\<^sup>2 \<le> ln (1 + 1 / 2)" by (rule ln_one_plus_pos_lower_bound) simp_all
  moreover have "ln (1 + 1 / 2 :: real) + ln (1 + 1 / 3) = ln 2"
    by (simp add: ln_mult_pos [symmetric])
  moreover have "(1 / 3 :: real) - (1 / 3)\<^sup>2 \<le> ln (1 + 1 / 3)" by (rule ln_one_plus_pos_lower_bound) simp_all
  ultimately show ?thesis by (simp add: power2_eq_square)
qed

lemma log_ratio_bounds:
  assumes "v = 1 \<or> 2 \<le> v"
  shows "(1 - 4 * ulp) * (ln v / ln growth) \<le> log_ratio v" "log_ratio v \<le> (1 + 4 * ulp) * (ln v / ln growth)"
proof -
  define V G l where "V = ln v" and "G = ln growth" and "l = logGrowth"
  have G: "1 / 100 \<le> G" "G \<le> 3 / 100" and l: "(1 - ulp) * G \<le> l" "l \<le> (1 + ulp) * G"
    using ln_growth_bounds logGrowth_bounds by (simp_all add: G_def l_def)
  have u: "0 < ulp" "ulp < 1 / 1000" by (simp_all add: ulp_eq)
  have "0 < (1 - ulp) * G" using u G by simp
  with l have l_pos: "0 < l" by linarith
  have "(1 - 4 * ulp) * (V / G) \<le> f64 (f64 V / l) \<and> f64 (f64 V / l) \<le> (1 + 4 * ulp) * (V / G)"
  proof (cases "v = 1")
    case False
    with assms have "ln 2 \<le> V" by (simp add: V_def)
    with ln_2_ge have V: "2 / 5 \<le> V" by simp
    have L: "(1 - ulp) * V \<le> f64 V" "f64 V \<le> (1 + ulp) * V" using f64_between [of V] V by auto
    have lo: "(1 - ulp) * V / ((1 + ulp) * G) \<le> f64 V / l"
      using L l l_pos V u f64.fl_nonneg [of V] by (intro frac_le) auto
    have hi: "f64 V / l \<le> (1 + ulp) * V / ((1 - ulp) * G)"
      using L l l_pos V u G by (intro frac_le) auto
    have "(1 + ulp) * G \<le> 2 * (3 / 100)" "1 / 2 * (2 / 5) \<le> (1 - ulp) * V"
      using V G u by (intro mult_mono; simp)+
    moreover have "0 < (1 + ulp) * G" using u G by simp
    ultimately have "1 / 1000 \<le> (1 - ulp) * V / ((1 + ulp) * G)" by (simp add: le_divide_eq)
    then have "1 / 1000 \<le> f64 V / l" using lo by (rule order_trans)
    then have R: "(1 - ulp) * (f64 V / l) \<le> f64 (f64 V / l)" "f64 (f64 V / l) \<le> (1 + ulp) * (f64 V / l)"
      using f64_between by blast+
    have VG: "0 \<le> V / G" using V G by simp
    have "(1 - 4 * ulp) \<le> (1 - ulp) * ((1 - ulp) / (1 + ulp))"
      by (simp add: ulp_eq)
    then have "(1 - 4 * ulp) * (V / G) \<le> (1 - ulp) * ((1 - ulp) / (1 + ulp)) * (V / G)"
      using VG by (rule mult_right_mono)
    also have "\<dots> = (1 - ulp) * ((1 - ulp) * V / ((1 + ulp) * G))" by simp
    also have "\<dots> \<le> (1 - ulp) * (f64 V / l)" using lo u by (intro mult_left_mono) simp_all
    finally have a: "(1 - 4 * ulp) * (V / G) \<le> (1 - ulp) * (f64 V / l)" .
    have "(1 + ulp) * (f64 V / l) \<le> (1 + ulp) * ((1 + ulp) * V / ((1 - ulp) * G))"
      using hi u by (intro mult_left_mono) simp_all
    also have "\<dots> = (1 + ulp) * ((1 + ulp) / (1 - ulp)) * (V / G)" by simp
    also have "\<dots> \<le> (1 + 4 * ulp) * (V / G)"
      using VG by (intro mult_right_mono) (simp_all add: ulp_eq)
    finally show ?thesis using a R by linarith
  qed (simp add: V_def)
  then show "(1 - 4 * ulp) * (ln v / ln growth) \<le> log_ratio v" "log_ratio v \<le> (1 + 4 * ulp) * (ln v / ln growth)"
    by (simp_all add: log_ratio_def math_Log_def V_def G_def l_def)
qed

lemma ln_le_20: "1 \<le> (v :: real) \<Longrightarrow> v \<le> 60000000 \<Longrightarrow> ln v \<le> 20"
proof -
  assume v: "1 \<le> v" "v \<le> 60000000"
  have "(5 / 2 :: real) \<le> exp 1" using exp_lower_Taylor_quadratic [of 1] by simp
  then have "(5 / 2 :: real) ^ 20 \<le> exp 1 ^ (20 :: nat)" by (rule power_mono) simp
  also have "\<dots> = exp (20 :: real)" by (simp add: exp_of_nat_mult [symmetric])
  finally have "(5 / 2 :: real) ^ 20 \<le> exp 20" .
  moreover have "60000000 \<le> (5 / 2 :: real) ^ 20" by (simp add: power_divide)
  ultimately have "v \<le> exp 20" using v by linarith
  then show ?thesis using v by (simp add: ln_le_cancel_iff [symmetric] del: ln_le_cancel_iff)
qed

lemma growth_905: "60100000 \<le> growth powr 905"
proof -
  have "(3602 / 100 :: real) \<le> (102 / 100) ^ 181" by (simp add: power_divide)
  then have "(3602 / 100 :: real) ^ 5 \<le> ((102 / 100) ^ 181) ^ 5" by (rule power_mono) simp
  moreover have "(60600000 :: real) \<le> (3602 / 100) ^ 5" by (simp add: power_divide)
  ultimately have a: "(60600000 :: real) \<le> (102 / 100) ^ 905" unfolding power_mult [symmetric] by simp
  have b: "1 - 905 * ulp \<le> (1 - ulp) ^ 905"
    using Bernoulli_inequality [of "- ulp" 905] by (simp add: ulp_eq)
  have "60100000 \<le> (1 - 905 * ulp) * 60600000" by (simp add: ulp_eq)
  also have "\<dots> \<le> (1 - ulp) ^ 905 * (102 / 100) ^ 905" using a b by (intro mult_mono) (simp_all add: ulp_eq)
  also have "\<dots> = ((1 - ulp) * (102 / 100)) ^ 905" by (rule power_mult_distrib [symmetric])
  also have "\<dots> \<le> growth ^ 905" using growth_bounds by (intro power_mono) (simp_all add: ulp_eq)
  also have "\<dots> = growth powr 905" using growth_ge_1 by (simp add: powr_numeral)
  finally show ?thesis .
qed


lemma growth_904: "growth powr 904 \<le> 59900000"
proof -
  have "(102 / 100) ^ 113 \<le> (9372 / 1000 :: real)" by (simp add: power_divide)
  then have "((102 / 100) ^ 113) ^ 8 \<le> (9372 / 1000 :: real) ^ (8 :: nat)" by (rule power_mono) simp
  moreover have "(9372 / 1000 :: real) ^ 8 \<le> 59600000" by (simp add: power_divide)
  ultimately have a: "(102 / 100) ^ 904 \<le> (59600000 :: real)" unfolding power_mult [symmetric] by simp
  have "(1 + ulp) ^ 904 \<le> exp ulp ^ 904"
    by (intro power_mono) (use exp_ge_add_one_self [of ulp] in \<open>simp_all add: ulp_eq\<close>)
  also have "\<dots> = exp (904 * ulp)" by (simp add: exp_of_nat_mult [symmetric])
  also have "\<dots> \<le> 1 + 904 * ulp + (904 * ulp)\<^sup>2" by (rule exp_bound) (simp_all add: ulp_eq)
  also have "\<dots> \<le> 1001 / 1000" by (simp add: ulp_eq power2_eq_square)
  finally have b: "(1 + ulp) ^ 904 \<le> 1001 / 1000" .
  have "growth powr 904 = growth ^ 904" using growth_ge_1 by (simp add: powr_numeral)
  also have "\<dots> \<le> ((1 + ulp) * (102 / 100)) ^ 904" using growth_bounds growth_ge_1 by (intro power_mono) simp_all
  also have "\<dots> = (1 + ulp) ^ 904 * (102 / 100) ^ 904" by (rule power_mult_distrib)
  also have "\<dots> \<le> 1001 / 1000 * 59600000" using a b by (intro mult_mono) (simp_all add: ulp_eq)
  also have "\<dots> \<le> 59900000" by simp
  finally show ?thesis .
qed

text \<open>What the rounding of the logarithms can do to a latency of at most a minute: a factor of
  \<open>1 \<plusminus> 200 ulp\<close>.\<close>

lemma exp_log_error:
  assumes "1 \<le> v" "v \<le> 60000000"
  shows "(1 - 80 * ulp) * v \<le> exp ((1 - 4 * ulp) * ln v)" "exp ((1 + 4 * ulp) * ln v) \<le> (1 + 160 * ulp) * v"
proof -
  have V: "0 \<le> ln v" "ln v \<le> 20" using assms ln_le_20 by simp_all
  have split: "exp ((1 + c) * ln v) = v * exp (c * ln v)" for c
    using assms by (simp add: distrib_right exp_add)
  have "4 * ulp * ln v \<le> 4 * ulp * 20" using V by (intro mult_left_mono) (simp_all add: ulp_eq)
  then have "1 - 80 * ulp \<le> 1 + - (4 * ulp) * ln v" by simp
  also have "\<dots> \<le> exp (- (4 * ulp) * ln v)" by (rule exp_ge_add_one_self)
  finally show "(1 - 80 * ulp) * v \<le> exp ((1 - 4 * ulp) * ln v)"
    using split [of "- (4 * ulp)"] assms by (simp add: mult.commute)
  let ?x = "4 * ulp * ln v"
  have x: "0 \<le> ?x" "?x \<le> 80 * ulp" using V by (simp_all add: ulp_eq)
  then have x1: "?x \<le> 1" by (simp add: ulp_eq)
  have "?x\<^sup>2 \<le> ?x * 1" unfolding power2_eq_square using x x1 by (intro mult_left_mono)
  moreover have "exp ?x \<le> 1 + ?x + ?x\<^sup>2" using x x1 by (intro exp_bound)
  ultimately have "exp ?x \<le> 1 + 160 * ulp" using x by linarith
  then show "exp ((1 + 4 * ulp) * ln v) \<le> (1 + 160 * ulp) * v"
    using split [of "4 * ulp"] assms by (simp add: mult.commute)
qed

lemma log_ratio_less_905:
  assumes "v = 1 \<or> 2 \<le> v" "v \<le> 60000000"
  shows "log_ratio v < 905"
proof -
  have v: "1 \<le> v" using assms by auto
  have "exp ((1 + 4 * ulp) * ln v) \<le> (1 + 160 * ulp) * v" using v assms by (intro exp_log_error)
  also have "\<dots> \<le> (1 + 160 * ulp) * 60000000" using assms by (intro mult_left_mono) (simp_all add: ulp_eq)
  also have "\<dots> < growth powr 905" using growth_905 by (simp add: ulp_eq)
  also have "\<dots> = exp (905 * ln growth)" using growth_ge_1 by (simp add: powr_def)
  finally have "(1 + 4 * ulp) * ln v < 905 * ln growth" by simp
  then have "(1 + 4 * ulp) * (ln v / ln growth) < 905"
    using ln_growth_bounds by (simp add: divide_less_eq)
  then show ?thesis using log_ratio_bounds(2) [OF assms(1)] by linarith
qed

lemma bucketFor_log_ratio:
  assumes "v = 1 \<or> 2 \<le> v" "v \<le> 60000000"
  shows "bucketFor v = \<lfloor>log_ratio v\<rfloor> + 1" "0 \<le> log_ratio v"
proof -
  have v: "1 \<le> v" using assms by auto
  show n: "0 \<le> log_ratio v" using log_ratio_nonneg [OF v] by (simp add: log_ratio_def)
  have "\<lfloor>log_ratio v\<rfloor> < 905" using log_ratio_less_905 [OF assms] by linarith
  then show "bucketFor v = \<lfloor>log_ratio v\<rfloor> + 1"
    using v n by (simp add: bucketFor_def trunc_float_def log_ratio_def NumBuckets_def)
qed

lemma growth_powr_bucket:
  assumes "v = 1 \<or> 2 \<le> v" "v \<le> 60000000"
  shows "(1 - 80 * ulp) * v \<le> growth powr of_int (bucketFor v)"
    "growth powr of_int (bucketFor v) \<le> (1 + 160 * ulp) * v * growth"
proof -
  have v: "1 \<le> v" using assms by auto
  let ?i = "of_int (bucketFor v) :: real" and ?r = "log_ratio v" and ?G = "ln growth"
  have i: "?r \<le> ?i" "?i \<le> ?r + 1" unfolding bucketFor_log_ratio(1) [OF assms] by linarith+
  have G: "0 < ?G" using ln_growth_bounds by simp
  have r: "(1 - 4 * ulp) * ln v \<le> ?r * ?G" "?r * ?G \<le> (1 + 4 * ulp) * ln v"
    using log_ratio_bounds [OF assms(1)] G by (simp_all add: pos_divide_le_eq [symmetric] pos_le_divide_eq [symmetric])
  have pow: "growth powr ?i = exp (?i * ?G)" using growth_ge_1 by (simp add: powr_def)
  have "(1 - 4 * ulp) * ln v \<le> ?i * ?G" using r i G by (meson less_imp_le mult_right_mono order_trans)
  then have "exp ((1 - 4 * ulp) * ln v) \<le> growth powr ?i" by (simp add: pow)
  then show "(1 - 80 * ulp) * v \<le> growth powr of_int (bucketFor v)"
    using exp_log_error(1) [OF v assms(2)] by linarith
  have "?i * ?G \<le> (?r + 1) * ?G" using i G by (intro mult_right_mono) simp_all
  also have "\<dots> \<le> (1 + 4 * ulp) * ln v + ?G" using r by (simp add: distrib_right)
  finally have "growth powr ?i \<le> exp ((1 + 4 * ulp) * ln v + ?G)" by (simp add: pow)
  also have "\<dots> = exp ((1 + 4 * ulp) * ln v) * growth" using growth_ge_1 by (simp add: exp_add)
  also have "\<dots> \<le> (1 + 160 * ulp) * v * growth"
    using exp_log_error(2) [OF v assms(2)] growth_ge_1 by (intro mult_right_mono) simp_all
  finally show "growth powr of_int (bucketFor v) \<le> (1 + 160 * ulp) * v * growth" .
qed

lemma BucketUpper_accuracy:
  assumes "v = 1 \<or> 2 \<le> v" "v \<le> 60000000"
  shows "(1 - 1 / 10 ^ 12) * v \<le> BucketUpper (bucketFor v)"
    "BucketUpper (bucketFor v) \<le> 102 / 100 * (1 + 1 / 10 ^ 12) * v"
proof -
  have v: "1 \<le> v" using assms by auto
  let ?i = "bucketFor v" and ?p = "growth powr of_int (bucketFor v)"
  have i: "0 < ?i" using bucketFor_log_ratio [OF assms] by (simp add: add_pos_nonneg)
  have "\<bar>?i\<bar> \<le> 2 ^ 53" using bucketFor_range [of v] by (simp add: NumBuckets_def)
  then have up: "BucketUpper ?i = f64 ?p"
    using i by (simp add: BucketUpper_def math_Pow_def float_of_int_def f64.fl_int)
  have "1 \<le> ?p" using growth_ge_1 i by (intro ge_one_powr_ge_zero) simp_all
  then have f: "(1 - ulp) * ?p \<le> f64 ?p" "f64 ?p \<le> (1 + ulp) * ?p" using f64_between [of ?p] by simp_all
  have "(1 - 1 / 10 ^ 12) * v \<le> ((1 - ulp) * (1 - 80 * ulp)) * v"
    using v by (intro mult_right_mono) (simp_all add: ulp_eq)
  also have "\<dots> = (1 - ulp) * ((1 - 80 * ulp) * v)" by simp
  also have "\<dots> \<le> (1 - ulp) * ?p"
    using growth_powr_bucket(1) [OF assms] by (intro mult_left_mono) (simp_all add: ulp_eq)
  finally show "(1 - 1 / 10 ^ 12) * v \<le> BucketUpper ?i" using f up by linarith
  have "(1 + ulp) * ?p \<le> (1 + ulp) * ((1 + 160 * ulp) * v * growth)"
    using growth_powr_bucket(2) [OF assms] by (intro mult_left_mono) (simp_all add: ulp_eq)
  also have "\<dots> \<le> (1 + ulp) * ((1 + 160 * ulp) * v * ((1 + ulp) * (102 / 100)))"
    using growth_bounds v by (intro mult_left_mono) (simp_all add: ulp_eq)
  also have "\<dots> = ((1 + ulp) * (1 + 160 * ulp) * (1 + ulp) * (102 / 100)) * v" by simp
  also have "\<dots> \<le> 102 / 100 * (1 + 1 / 10 ^ 12) * v"
    using v by (intro mult_right_mono) (simp_all add: ulp_eq)
  finally show "BucketUpper ?i \<le> 102 / 100 * (1 + 1 / 10 ^ 12) * v" using f up by linarith
qed

lemma bucketFor_maxMicros_eq: "bucketFor maxMicros = 905"
proof -
  let ?v = "60000000 :: real"
  have "growth powr 904 \<le> 59900000" by (rule growth_904)
  also have "\<dots> \<le> (1 - 80 * ulp) * ?v" by (simp add: ulp_eq)
  also have "\<dots> \<le> exp ((1 - 4 * ulp) * ln ?v)" by (rule exp_log_error) simp_all
  finally have "exp (904 * ln growth) \<le> exp ((1 - 4 * ulp) * ln ?v)"
    using growth_ge_1 by (simp add: powr_def)
  then have "904 * ln growth \<le> (1 - 4 * ulp) * ln ?v" by (simp only: exp_le_cancel_iff)
  then have "904 \<le> (1 - 4 * ulp) * (ln ?v / ln growth)"
    using ln_growth_bounds by (simp add: pos_le_divide_eq)
  then have "904 \<le> log_ratio ?v" using log_ratio_bounds(1) [of ?v] by simp
  moreover have "log_ratio ?v < 905" by (rule log_ratio_less_905) simp_all
  ultimately have "\<lfloor>log_ratio ?v\<rfloor> = 904" by (simp add: floor_eq_iff)
  then show ?thesis using bucketFor_log_ratio(1) [of ?v] by (simp add: maxMicros_def)
qed


section \<open>Properties\<close>

lemma sorted_us_le_max:
  assumes "k < length xs"
  shows "sorted_us xs ! k \<le> unat (MaxUs (snapshot_of e xs))"
proof -
  have "sorted_us xs ! k \<in> set (sorted_us xs)" using assms by (intro nth_mem) (simp add: sorted_us_def)
  then obtain x where x: "x \<in> set xs" "sorted_us xs ! k = unat (sample_us x)" by (auto simp: sorted_us_def)
  have "fold max (map sample_us xs) 0 = Max (insert 0 (set (map sample_us xs)))"
    by (metis Max.set_eq_fold list.set(2))
  then have "sample_us x \<le> fold max (map sample_us xs) 0" using x by simp
  then show ?thesis by (simp add: x snapshot_of_def word_le_nat_alt)
qed

text \<open>C9: The quantile a snapshot reports is the upper bound of the bucket that holds the sample of
  that rank in the sorted latencies (clamped to the maximum): the histogram scan finds the exact
  order statistic's bucket for every list of recorded samples.\<close>

theorem percentile_order_statistic:
  assumes "0 \<le> q" "q \<le> 1" "xs \<noteq> []" "length xs \<le> 2 ^ 53"
  shows "Percentile (snapshot_of e xs) q =
    trunc_float (f64 (clamp_us (MaxUs (snapshot_of e xs))
      (BucketUpper (bucketFor (f64 (of_nat (sorted_us xs ! (max 1 (nat \<lceil>f64 (q * of_nat (length xs))\<rceil>) - 1)))))) * 1000))"
  using Percentile_snapshot_of [OF assms, of e]
    bucketFor_range [of "f64 (of_nat (sorted_us xs ! (quantile_rank q (length xs) - 1)))"]
  by (simp add: bucket_us_def quantile_rank_def)

lemma eval_sub_micro:
  "sorted_us [\<lparr>smp_latency = 500, smp_status = 200, smp_bytes = 2, smp_kind = []\<rparr>] = [0]"
  "MaxUs (snapshot_of e [\<lparr>smp_latency = 500, smp_status = 200, smp_bytes = 2, smp_kind = []\<rparr>]) = 0"
  by (simp_all add: sorted_us_def sample_us_def snapshot_of_def)

theorem percentile_order_statistic_witness:
  "Percentile (snapshot_of 0 [\<lparr>smp_latency = 500, smp_status = 200, smp_bytes = 2, smp_kind = []\<rparr>]) 1 = 1000"
proof -
  have "f64 1000 = 1000" using f64.fl_int [of 1000] by simp
  then show ?thesis
    using percentile_order_statistic [of 1 "[\<lparr>smp_latency = 500, smp_status = 200, smp_bytes = 2, smp_kind = []\<rparr>]" 0]
    by (simp add: eval_sub_micro clamp_us_def BucketUpper_def bucketFor_def trunc_float_def)
qed

text \<open>A figure within a relative error of the latency keeps it through the conversion to a duration.\<close>

lemma duration_accuracy:
  assumes "(1 - 1 / 10 ^ 12) * v \<le> c" "c \<le> 102 / 100 * (1 + 1 / 10 ^ 12) * v" "1 \<le> v"
  shows "(1 - 2 / 10 ^ 12) * (1000 * v) - 1 \<le> of_int (trunc_float (f64 (c * 1000)))"
    "of_int (trunc_float (f64 (c * 1000))) \<le> 102 / 100 * (1 + 2 / 10 ^ 12) * (1000 * v)"
proof -
  have "(1 - 1 / 10 ^ 12) * 1 \<le> (1 - 1 / 10 ^ 12) * v" using assms(3) by (intro mult_left_mono) simp_all
  with assms(1) have "1 / 1000 \<le> c * 1000" by simp
  then have fc: "(1 - ulp) * (c * 1000) \<le> f64 (c * 1000)" "f64 (c * 1000) \<le> (1 + ulp) * (c * 1000)" "0 \<le> f64 (c * 1000)"
    using f64_between f64.fl_nonneg by force+
  have t: "f64 (c * 1000) - 1 \<le> of_int (trunc_float (f64 (c * 1000)))"
    "of_int (trunc_float (f64 (c * 1000))) \<le> f64 (c * 1000)"
    using fc(3) unfolding trunc_float_def by simp_all
  have "(1 - 2 / 10 ^ 12) * (1000 * v) \<le> ((1 - ulp) * (1 - 1 / 10 ^ 12)) * (1000 * v)"
    using assms(3) by (intro mult_right_mono) (simp_all add: ulp_eq)
  also have "\<dots> = (1 - ulp) * ((1 - 1 / 10 ^ 12) * v * 1000)" by simp
  also have "\<dots> \<le> (1 - ulp) * (c * 1000)" using assms(1) by (intro mult_left_mono) (simp_all add: ulp_eq)
  finally show "(1 - 2 / 10 ^ 12) * (1000 * v) - 1 \<le> of_int (trunc_float (f64 (c * 1000)))"
    using fc t by linarith
  have "(1 + ulp) * (c * 1000) \<le> (1 + ulp) * (102 / 100 * (1 + 1 / 10 ^ 12) * v * 1000)"
    using assms(2) by (intro mult_left_mono) (simp_all add: ulp_eq)
  also have "\<dots> = ((1 + ulp) * (1 + 1 / 10 ^ 12)) * (102 / 100 * (1000 * v))" by simp
  also have "\<dots> \<le> (1 + 2 / 10 ^ 12) * (102 / 100 * (1000 * v))"
    using assms(3) by (intro mult_right_mono) (simp_all add: ulp_eq)
  also have "\<dots> = 102 / 100 * (1 + 2 / 10 ^ 12) * (1000 * v)" by simp
  finally show "of_int (trunc_float (f64 (c * 1000))) \<le> 102 / 100 * (1 + 2 / 10 ^ 12) * (1000 * v)"
    using fc t by linarith
qed

lemma percentile_accuracy:
  assumes "0 \<le> q" "q \<le> 1" "xs \<noteq> []" "length xs \<le> 2 ^ 53"
    and v: "v = sorted_us xs ! (quantile_rank q (length xs) - 1)" "1 \<le> v" "v \<le> 60000000"
  shows "(1 - 2 / 10 ^ 12) * (1000 * of_nat v :: real) - 1 \<le> of_int (Percentile (snapshot_of e xs) q) \<and>
    of_int (Percentile (snapshot_of e xs) q) \<le> 102 / 100 * (1 + 2 / 10 ^ 12) * (1000 * of_nat v :: real)"
proof -
  let ?m = "MaxUs (snapshot_of e xs)" and ?b = "BucketUpper (bucketFor (of_nat v))"
  have n: "1 \<le> length xs" using assms(3) by (simp add: Suc_le_eq)
  have f: "f64 (of_nat v) = of_nat v" using v(3) by (intro f64.fl_nat) simp
  have p: "Percentile (snapshot_of e xs) q = trunc_float (f64 (clamp_us ?m ?b * 1000))"
    using Percentile_snapshot_of [OF assms(1-4), of e, folded v(1)] bucketFor_range [of "of_nat v"] f
    by (simp add: bucket_us_def)
  have v12: "(of_nat v :: real) = 1 \<or> 2 \<le> (of_nat v :: real)" using v(2) by (cases "v = 1") simp_all
  have b: "(1 - 1 / 10 ^ 12) * of_nat v \<le> ?b" "?b \<le> 102 / 100 * (1 + 1 / 10 ^ 12) * of_nat v"
    using BucketUpper_accuracy [of "of_nat v", OF v12] v(3) by simp_all
  have "quantile_rank q (length xs) - 1 < length xs"
    using quantile_rank_bounds [OF assms(2) n assms(4)] by simp
  then have "v \<le> unat ?m" unfolding v(1) by (rule sorted_us_le_max)
  then have "of_nat v \<le> float_of_u64 ?m"
    using f64.fl_mono [of "of_nat v" "of_nat (unat ?m)"] f by (simp add: float_of_u64_def)
  moreover have "(1 - 1 / 10 ^ 12) * of_nat v \<le> (of_nat v :: real)" by simp
  ultimately have "(1 - 1 / 10 ^ 12) * of_nat v \<le> clamp_us ?m ?b"
    "clamp_us ?m ?b \<le> 102 / 100 * (1 + 1 / 10 ^ 12) * of_nat v"
    using b by (auto simp: clamp_us_def)
  then show ?thesis unfolding p using duration_accuracy [of "of_nat v"] v(2) by simp
qed



text \<open>A higher quantile is never reported below a lower one.\<close>

theorem percentile_monotone:
  assumes "0 \<le> q" "q \<le> p" "p \<le> 1" "xs \<noteq> []" "length xs \<le> 2 ^ 53"
  shows "Percentile (snapshot_of e xs) q \<le> Percentile (snapshot_of e xs) p"
  using assms by (rule Percentile_mono_snapshot_of)

theorem percentile_monotone_witness:
  "Percentile (snapshot_of 0 [\<lparr>smp_latency = 1500, smp_status = 200, smp_bytes = 2, smp_kind = []\<rparr>,
      \<lparr>smp_latency = 9000000, smp_status = 503, smp_bytes = 0, smp_kind = []\<rparr>]) (1 / 2)
   \<le> Percentile (snapshot_of 0 [\<lparr>smp_latency = 1500, smp_status = 200, smp_bytes = 2, smp_kind = []\<rparr>,
      \<lparr>smp_latency = 9000000, smp_status = 503, smp_bytes = 0, smp_kind = []\<rparr>]) (99 / 100)"
  by (rule percentile_monotone) simp_all

text \<open>C26: No snapshot, whatever its histogram, reports a percentile above its recorded maximum,
  as long as that maximum is at least a microsecond (and below \<open>2 ^ 43\<close> microseconds, where its
  nanoseconds are still exact in a \<open>float64\<close>).\<close>

theorem percentile_below_max:
  assumes "0 < MaxUs sn" "unat (MaxUs sn) \<le> 2 ^ 43"
  shows "Percentile sn q \<le> MaxLatency sn"
  using assms by (rule Percentile_le_max)

theorem percentile_below_max_witness:
  "Percentile (snapshot_of 0 [\<lparr>smp_latency = 1500, smp_status = 200, smp_bytes = 2, smp_kind = []\<rparr>]) (999 / 1000)
   \<le> MaxLatency (snapshot_of 0 [\<lparr>smp_latency = 1500, smp_status = 200, smp_bytes = 2, smp_kind = []\<rparr>])"
  by (rule percentile_below_max) (simp_all add: snapshot_of_def sample_us_def)

text \<open>Runs whose requests all take less than a microsecond escape the clamp: the recorded maximum
  is 0, and every percentile is reported as one microsecond, above the maximum.\<close>

theorem percentile_above_zero_max:
  assumes "xs \<noteq> []" "length xs \<le> 2 ^ 53" "0 \<le> q" "q \<le> 1"
    and zero: "\<forall>x\<in>set xs. 0 \<le> smp_latency x \<and> smp_latency x < Microsecond"
  shows "MaxLatency (snapshot_of e xs) = 0 \<and> Percentile (snapshot_of e xs) q = Microsecond"
proof -
  have us: "map sample_us xs = replicate (length xs) 0"
    using zero by (simp add: list_eq_iff_nth_eq sample_us_def)
  have "fold max (replicate n 0) (0 :: u64) = 0" for n by (induction n) simp_all
  then have m: "MaxUs (snapshot_of e xs) = 0" by (simp add: snapshot_of_def us)
  have n: "1 \<le> length xs" using assms(1) by (simp add: Suc_le_eq)
  have "quantile_rank q (length xs) - 1 < length xs"
    using quantile_rank_bounds [OF assms(4) n assms(2)] by simp
  then have v: "sorted_us xs ! (quantile_rank q (length xs) - 1) = 0"
    using sorted_us_le_max [of _ xs e] m by simp
  have "f64 1000 = 1000" using f64.fl_int [of 1000] by simp
  then have "Percentile (snapshot_of e xs) q = 1000"
    unfolding Percentile_snapshot_of [OF assms(3,4,1,2)] v m
    by (simp add: bucket_us_def bucketFor_def clamp_us_def BucketUpper_def trunc_float_def)
  then show ?thesis by (simp add: MaxLatency_def m micros_def i64_def)
qed

theorem percentile_above_zero_max_witness:
  "MaxLatency (snapshot_of 0 [\<lparr>smp_latency = 500, smp_status = 200, smp_bytes = 2, smp_kind = []\<rparr>]) = 0 \<and>
   Percentile (snapshot_of 0 [\<lparr>smp_latency = 500, smp_status = 200, smp_bytes = 2, smp_kind = []\<rparr>]) (1 / 2) = 1000"
  by (rule percentile_above_zero_max) simp_all

text \<open>The number of buckets is the one the comment claims: the longest latency the histogram
  covers, a minute, falls into the last bucket.\<close>

theorem bucket_count: "bucketFor maxMicros + 1 = int NumBuckets"
  by (simp add: bucketFor_maxMicros_eq NumBuckets_def)

section \<open>No percentile of any snapshot is negative\<close>

text \<open>Whatever the counters hold, also when their total wrapped around: the scan of the histogram finds the
  rank, so the fallback to the maximum is not reached.\<close>

lemma scan_rank_total: "rank \<le> seen + sum_list h \<Longrightarrow> h \<noteq> [] \<Longrightarrow> scan_rank i seen rank h \<noteq> None"
proof (induction h arbitrary: i seen)
  case (Cons c cs)
  then show ?case using Cons.IH [of "seen + c" "Suc i"] by (cases "cs = []") (auto simp: add.assoc)
qed simp

lemma rank_of_le_total:
  assumes q: "0 \<le> q" "q \<le> 199 / 200" and tot: "0 < tot"
  shows "rank_of q tot \<le> tot"
proof (cases "unat tot \<le> 2 ^ 53")
  case True
  have "1 \<le> unat tot" using tot by (simp add: word_less_nat_alt)
  then have "unat (rank_of q (of_nat (unat tot))) \<le> unat tot"
    using rank_of_eq [of q "unat tot"] quantile_rank_bounds [of q "unat tot"] q True by simp
  then show ?thesis by (simp add: word_le_nat_alt)
next
  case False
  let ?t = "real (unat tot)" and ?e = "1 / 9007199254740992 :: real"
  have e: "(2 :: real) powr - 53 = ?e" using ulp_eq by (simp add: ulp_def)
  have tiny: "(2 :: real) powr - 1022 \<le> 1" using powr_mono [of "-1022" 0 "2 :: real"] by simp
  have big: "9007199254740992 < ?t" using False by simp
  have f1: "f64 ?t \<le> (1 + ?e) * ?t" using f64.fl_upper [of ?t] tiny big unfolding e by linarith
  let ?x = "q * f64 ?t"
  have x: "?x \<le> 199 / 200 * ((1 + ?e) * ?t)" using q f1 big by (intro mult_mono) (simp_all add: f64.fl_nonneg)
  have "1 \<le> 199 / 200 * ((1 + ?e) * ?t)" using big by simp
  then have normal: "2 powr - 1022 \<le> 199 / 200 * ((1 + ?e) * ?t)" using tiny by (rule order_trans [rotated])
  have "f64 ?x \<le> f64 (199 / 200 * ((1 + ?e) * ?t))" by (rule f64_mono [OF x])
  also have "\<dots> \<le> (1 + ?e) * (199 / 200 * ((1 + ?e) * ?t))"
    using f64.fl_upper [OF normal] unfolding e .
  also have "\<dots> \<le> ?t - 1" using big by (simp add: field_simps)
  finally have le: "f64 ?x \<le> ?t - 1" .
  define c where "c = \<lceil>f64 ?x\<rceil>"
  have "0 \<le> f64 ?x" using q by (intro f64.fl_nonneg) (simp add: f64.fl_nonneg)
  then have c: "0 \<le> c" "c \<le> int (unat tot)" using le unfolding c_def by linarith+
  moreover have "unat tot < 2 ^ 64" using unsigned_less [of tot, where ?'a = nat] by simp
  ultimately have small: "nat c < 2 ^ 64" "of_int c = (of_nat (nat c) :: u64)" by simp_all
  then have "unat (u64_of_float (math_Ceil (f64 ?x))) = nat c"
    by (simp add: u64_of_float_def math_Ceil_def trunc_float_of_int unat_of_nat flip: c_def)
  then show ?thesis using tot c
    by (simp add: rank_of_def Let_def float_of_u64_def word_le_nat_alt word_less_nat_alt Suc_le_eq nat_le_iff)
qed

lemma BucketUpper_nonneg: "0 \<le> BucketUpper i"
  using BucketUpper_mono [of "min i 0" i] by (simp add: BucketUpper_def split: if_splits)

lemma Percentile_nonneg:
  assumes "0 \<le> q" "q \<le> 199 / 200"
  shows "0 \<le> Percentile sn q"
proof (cases "hist_total (Hist sn) = 0")
  case False
  then have "rank_of q (hist_total (Hist sn)) \<le> 0 + sum_list (Hist sn)" "Hist sn \<noteq> []"
    using rank_of_le_total [OF assms, of "hist_total (Hist sn)"] by (auto simp: hist_total_eq word_gt_0)
  then have "scan_rank 0 0 (rank_of q (hist_total (Hist sn))) (Hist sn) \<noteq> None" by (rule scan_rank_total)
  then obtain i where i: "scan_rank 0 0 (rank_of q (hist_total (Hist sn))) (Hist sn) = Some i" by blast
  have "0 \<le> clamp_us (MaxUs sn) (BucketUpper (int i))" by (simp add: clamp_us_def BucketUpper_nonneg)
  then show ?thesis using False i by (simp add: Percentile_def trunc_float_nonneg f64.fl_nonneg)
qed (simp add: Percentile_def)
lemma quantile_99: "0 \<le> f64 0.99" "f64 0.99 \<le> 199 / 200"
proof -
  have "(2 :: real) powr - 1022 \<le> 2 powr - 1" by (intro powr_mono) simp_all
  then have n: "(2 :: real) powr - 1022 \<le> 0.99" by (simp add: powr_minus_divide)
  have e: "(2 :: real) powr - 53 = 1 / 9007199254740992" using ulp_eq by (simp add: ulp_def)
  show "f64 0.99 \<le> 199 / 200" using f64.fl_upper [OF n] unfolding e by simp
qed (simp add: f64.fl_nonneg)

end
