(* ===== verification/Engine_Config.thy ===== *)
theory Engine_Config
  imports Float64
begin

text \<open>
  The description of a run (\<open>internal/titanload/engine/engine.go\<close>): modes, targets, the configuration
  with its validation and defaults, and the targets file. Validation works in place, so \<open>Validate\<close>
  returns the changed configuration beside the error. The file system is a parameter of
  \<open>ParseTargetsFile\<close>. A float64 rate is the real number it denotes; NaN and the infinities have no
  counterpart.
\<close>

section \<open>Modes, targets, configuration\<close>

type_synonym Mode = string
type_synonym header = "(string, string list) mapping"

definition ModeHTTP1 :: Mode where "ModeHTTP1 = ''http1''"
definition ModeHTTP2 :: Mode where "ModeHTTP2 = ''http2''"
definition ModeGRPC :: Mode where "ModeGRPC = ''grpc''"

lemmas mode_defs = ModeHTTP1_def ModeHTTP2_def ModeGRPC_def

definition ParseMode :: "string \<Rightarrow> Mode option" where
  "ParseMode s = (let m = to_lower (trim_space s) in
     if m \<in> set ['''', ''http1'', ''http'', ''h1'', ''http/1.1''] then Some ModeHTTP1
     else if m \<in> set [''http2'', ''h2'', ''h2c'', ''http/2''] then Some ModeHTTP2
     else if m = ''grpc'' then Some ModeGRPC
     else None)"

record target =
  Method :: string
  URL :: string
  Body :: string
  Headers :: header

record config =
  Targets :: "target list"
  cfg_Mode :: Mode
  Concurrency :: int
  Connections :: int
  Rate :: real
  Duration :: duration
  MaxRequests :: u64
  Timeout :: duration
  Ramp :: duration
  Insecure :: bool
  DisableKeepAlive :: bool
  GRPCService :: string

section \<open>Validation\<close>

datatype config_error = NoTargets | BadTarget string | BadConcurrency | BadRate | NoBound

definition http_url :: "string \<Rightarrow> bool" where
  "http_url u \<longleftrightarrow> has_prefix u ''http://'' \<or> has_prefix u ''https://''"

definition fill_method :: "target \<Rightarrow> target" where
  "fill_method t = t\<lparr>Method := to_upper (if Method t = [] then ''GET'' else Method t)\<rparr>"

text \<open>The loop over the targets: each method is filled in and upper-cased before its URL is checked,
  and the first bad URL ends the loop with the targets changed so far.\<close>

fun validate_targets :: "Mode \<Rightarrow> target list \<Rightarrow> target list \<times> config_error option" where
  "validate_targets m [] = ([], None)"
| "validate_targets m (t # ts) =
     (let t' = fill_method t in
      if m \<noteq> ModeGRPC \<and> \<not> http_url (URL t') then (t' # ts, Some (BadTarget (URL t')))
      else let (ts', e) = validate_targets m ts in (t' # ts', e))"

definition default_mode :: "config \<Rightarrow> config" where
  "default_mode c =
     (if cfg_Mode c \<noteq> [] then c
      else c\<lparr>cfg_Mode := (if has_prefix (URL (hd (Targets c))) ''grpc'' then ModeGRPC else ModeHTTP1)\<rparr>)"

definition Validate :: "config \<Rightarrow> config \<times> config_error option" where
  "Validate c0 =
     (if Targets c0 = [] then (c0, Some NoTargets)
      else let c = default_mode c0; (ts, e) = validate_targets (cfg_Mode c) (Targets c); c = c\<lparr>Targets := ts\<rparr> in
        if e \<noteq> None then (c, e)
        else if Concurrency c < 1 then (c, Some BadConcurrency)
        else if Rate c < 0 then (c, Some BadRate)
        else if Duration c \<le> 0 \<and> MaxRequests c = 0 then (c, Some NoBound)
        else if Timeout c \<le> 0 then (c\<lparr>Timeout := 5 * Second\<rparr>, None)
        else (c, None))"

text \<open>What the engine may assume of a validated configuration.\<close>

definition valid_config :: "config \<Rightarrow> bool" where
  "valid_config c \<longleftrightarrow> Targets c \<noteq> [] \<and> cfg_Mode c \<noteq> [] \<and> 1 \<le> Concurrency c \<and> 0 \<le> Rate c \<and>
     (0 < Duration c \<or> 0 < MaxRequests c) \<and> 0 < Timeout c \<and>
     (\<forall>t\<in>set (Targets c). Method t \<noteq> [] \<and> to_upper (Method t) = Method t \<and>
        (cfg_Mode c \<noteq> ModeGRPC \<longrightarrow> http_url (URL t)))"

lemma to_upper_idem [simp]: "to_upper (to_upper s) = to_upper s"
  by (simp add: to_upper_def)

lemma to_upper_Nil [simp]: "to_upper s = [] \<longleftrightarrow> s = []"
  by (simp add: to_upper_def)

lemma fill_method_idem [simp]: "fill_method (fill_method t) = fill_method t"
  by (simp add: fill_method_def)

lemma fill_method_URL [simp]: "URL (fill_method t) = URL t"
  by (simp add: fill_method_def)

lemma fill_method_ok: "Method (fill_method t) \<noteq> [] \<and> to_upper (Method (fill_method t)) = Method (fill_method t)"
  by (simp add: fill_method_def)

lemma fill_method_id: "Method t \<noteq> [] \<Longrightarrow> to_upper (Method t) = Method t \<Longrightarrow> fill_method t = t"
  by (simp add: fill_method_def)

lemma validate_targets_ok:
  "validate_targets m ts = (ts', None) \<longleftrightarrow>
     ts' = map fill_method ts \<and> (m = ModeGRPC \<or> (\<forall>t\<in>set ts. http_url (URL t)))"
proof (induction ts arbitrary: ts')
  case (Cons t ts)
  then show ?case by (cases "validate_targets m ts") (auto simp: Let_def)
qed auto

lemma validate_targets_error:
  "snd (validate_targets m ts) = Some e \<Longrightarrow>
     \<exists>t\<in>set ts. e = BadTarget (URL t) \<and> m \<noteq> ModeGRPC \<and> \<not> http_url (URL t)"
proof (induction ts)
  case (Cons t ts)
  then show ?case by (cases "validate_targets m ts") (auto simp: Let_def split: if_splits)
qed simp

lemma default_mode_simps [simp]:
  "Targets (default_mode c) = Targets c" "Concurrency (default_mode c) = Concurrency c"
  "Rate (default_mode c) = Rate c" "Duration (default_mode c) = Duration c"
  "MaxRequests (default_mode c) = MaxRequests c" "Timeout (default_mode c) = Timeout c"
  "cfg_Mode (default_mode c) \<noteq> []" "cfg_Mode c \<noteq> [] \<Longrightarrow> default_mode c = c"
  by (simp_all add: default_mode_def mode_defs)

text \<open>Validation succeeds exactly on the runs that make sense, and what it then returns.\<close>

definition acceptable :: "config \<Rightarrow> bool" where
  "acceptable c \<longleftrightarrow> Targets c \<noteq> [] \<and> 1 \<le> Concurrency c \<and> 0 \<le> Rate c \<and>
     (0 < Duration c \<or> 0 < MaxRequests c) \<and>
     (cfg_Mode (default_mode c) = ModeGRPC \<or> (\<forall>t\<in>set (Targets c). http_url (URL t)))"

definition defaulted :: "config \<Rightarrow> config" where
  "defaulted c = (default_mode c)\<lparr>Targets := map fill_method (Targets c),
     Timeout := (if Timeout c \<le> 0 then 5 * Second else Timeout c)\<rparr>"

lemma Validate_acceptable: "acceptable c \<Longrightarrow> Validate c = (defaulted c, None)"
proof -
  assume a: "acceptable c"
  then have "validate_targets (cfg_Mode (default_mode c)) (Targets c) = (map fill_method (Targets c), None)"
    by (simp add: validate_targets_ok acceptable_def)
  with a show ?thesis
    by (auto simp: Validate_def Let_def acceptable_def defaulted_def word_gt_0)
qed

lemma Validate_None: "snd (Validate c) = None \<Longrightarrow> acceptable c"
proof (cases "validate_targets (cfg_Mode (default_mode c)) (Targets c)")
  case (Pair ts e)
  moreover assume "snd (Validate c) = None"
  ultimately show ?thesis
    using validate_targets_ok [of "cfg_Mode (default_mode c)" "Targets c" ts]
    by (auto simp: Validate_def acceptable_def Let_def word_gt_0 not_less split: if_splits)
qed

lemma defaulted_valid: "acceptable c \<Longrightarrow> valid_config (defaulted c)"
  using fill_method_ok by (auto simp: acceptable_def valid_config_def defaulted_def)

lemma defaulted_id: "valid_config c \<Longrightarrow> acceptable c \<and> defaulted c = c"
proof -
  assume v: "valid_config c"
  then have "map fill_method (Targets c) = Targets c"
    by (auto simp: valid_config_def intro!: map_idI fill_method_id)
  with v show ?thesis by (auto simp: acceptable_def valid_config_def defaulted_def)
qed

text \<open>C35: Validation accepts exactly the configurations with a target, at least one goroutine, a
  non-negative rate, a bound on the run and http(s) URLs (outside gRPC mode); what it returns then
  satisfies everything the engine relies on, and validating again changes nothing.\<close>

theorem validate_establishes_config:
  "(snd (Validate c) = None \<longleftrightarrow> acceptable c) \<and>
   (acceptable c \<longrightarrow> valid_config (fst (Validate c)) \<and> Validate (fst (Validate c)) = Validate c)"
  using Validate_None [of c] Validate_acceptable [of c] defaulted_valid [of c] defaulted_id [of "defaulted c"]
    Validate_acceptable [of "defaulted c"] by auto

theorem validate_establishes_config_witness:
  "valid_config (fst (Validate \<lparr>Targets = [\<lparr>Method = ''get'', URL = ''http://h/'', Body = [], Headers = Mapping.empty\<rparr>],
     cfg_Mode = [], Concurrency = 2, Connections = 0, Rate = 0, Duration = 0, MaxRequests = 5, Timeout = 0,
     Ramp = 0, Insecure = False, DisableKeepAlive = False, GRPCService = []\<rparr>))"
  using validate_establishes_config [of "\<lparr>Targets = [\<lparr>Method = ''get'', URL = ''http://h/'', Body = [], Headers = Mapping.empty\<rparr>],
     cfg_Mode = [], Concurrency = 2, Connections = 0, Rate = 0, Duration = 0, MaxRequests = 5, Timeout = 0,
     Ramp = 0, Insecure = False, DisableKeepAlive = False, GRPCService = []\<rparr>"]
  by (simp add: acceptable_def http_url_def has_prefix_def)

end
