(* ===== verification/Targets_File.thy ===== *)
theory Targets_File
  imports Engine_Config
begin

text \<open>
  \<open>ParseTargetsFile\<close> of \<open>engine.go\<close>: one \<open>METHOD URL [BODY|@file]\<close> per line, read by a
  \<open>bufio.Scanner\<close> with a 1 MiB line limit. The file system is the parameter \<open>fs\<close>, which gives a
  path's content or an error. The round trip shows that printing targets one per line and reading
  the file back gives the targets.
\<close>

section \<open>Lines and fields\<close>

text \<open>\<open>bufio.ScanLines\<close>: lines end at a newline, a trailing carriage return is dropped, and a line
  that does not fit the buffer ends the scan with an error.\<close>

definition newline :: char where
  "newline = CHR 0x0A"

definition drop_cr :: "string \<Rightarrow> string" where
  "drop_cr l = (if l \<noteq> [] \<and> last l = CHR 0x0D then butlast l else l)"

function scan_lines :: "nat \<Rightarrow> string \<Rightarrow> string list \<times> bool" where
  "scan_lines limit s =
     (if s = [] then ([], False)
      else let l = takeWhile (\<lambda>c. c \<noteq> newline) s; r = dropWhile (\<lambda>c. c \<noteq> newline) s in
        if limit \<le> length l then ([], True)
        else let (ls, e) = scan_lines limit (tl r) in (drop_cr l # ls, e))"
  by pat_completeness auto
termination
proof (relation "measure (\<lambda>(limit, s). length s)")
  fix limit :: nat and s l r :: string
  assume "s \<noteq> []" "r = dropWhile (\<lambda>c. c \<noteq> newline) s"
  then show "((limit, tl r), (limit, s)) \<in> measure (\<lambda>(limit, s). length s)"
    using length_dropWhile_le [of "\<lambda>c. c \<noteq> newline" s] by (cases s) auto
qed simp

declare scan_lines.simps [simp del]

text \<open>\<open>strings.Fields\<close>: the maximal runs of non-space bytes.\<close>

function fields :: "string \<Rightarrow> string list" where
  "fields s = (let t = dropWhile is_space s in
     if t = [] then [] else takeWhile (\<lambda>c. \<not> is_space c) t # fields (dropWhile (\<lambda>c. \<not> is_space c) t))"
  by pat_completeness auto
termination
proof (relation "measure length")
  fix s t :: string
  assume "t = dropWhile is_space s" "t \<noteq> []"
  then have "\<not> is_space (hd t)" "length t \<le> length s"
    using hd_dropWhile [of is_space s] length_dropWhile_le [of is_space s] by simp_all
  moreover have "length (dropWhile (\<lambda>c. \<not> is_space c) t) < length t"
    using \<open>t \<noteq> []\<close> calculation(1) length_dropWhile_le [of "\<lambda>c. \<not> is_space c" "tl t"] by (cases t) auto
  ultimately have "length (dropWhile (\<lambda>c. \<not> is_space c) t) < length s" by linarith
  then show "(dropWhile (\<lambda>c. \<not> is_space c) t, s) \<in> measure length" by simp
qed simp

declare fields.simps [simp del]

text \<open>\<open>strings.Index\<close>: the position of the first occurrence.\<close>

fun str_index :: "string \<Rightarrow> string \<Rightarrow> nat option" where
  "str_index [] p = (if p = [] then Some 0 else None)"
| "str_index (c # cs) p = (if has_prefix (c # cs) p then Some 0 else map_option Suc (str_index cs p))"

section \<open>Parsing\<close>

datatype targets_error = OpenError string | WantFields nat | BodyFile nat string | LineTooLong

definition parse_target ::
  "(string \<Rightarrow> string + string) \<Rightarrow> header \<Rightarrow> nat \<Rightarrow> string \<Rightarrow> targets_error + target" where
  "parse_target fs headers line text =
     (case fields text of
        m # u # _ \<Rightarrow>
          (let t = \<lparr>Method = m, URL = u, Body = [], Headers = headers\<rparr>;
               rest = (case str_index text u of Some i \<Rightarrow> drop (i + length u) text | None \<Rightarrow> drop (length u - 1) text);
               body = trim_space rest in
           if body = [] then Inr t
           else if has_prefix body ''@'' then
             (case fs (tl body) of Inl e \<Rightarrow> Inl (BodyFile line e) | Inr b \<Rightarrow> Inr (t\<lparr>Body := b\<rparr>))
           else Inr (t\<lparr>Body := body\<rparr>))
      | _ \<Rightarrow> Inl (WantFields line))"

fun parse_lines ::
  "(string \<Rightarrow> string + string) \<Rightarrow> header \<Rightarrow> nat \<Rightarrow> target list \<Rightarrow> string list \<Rightarrow> targets_error + target list" where
  "parse_lines fs headers line out [] = Inr out"
| "parse_lines fs headers line out (l # ls) =
     (let text = trim_space l in
      if text = [] \<or> has_prefix text ''#'' then parse_lines fs headers (line + 1) out ls
      else case parse_target fs headers line text of
          Inl e \<Rightarrow> Inl e
        | Inr t \<Rightarrow> parse_lines fs headers (line + 1) (out @ [t]) ls)"

definition ParseTargetsFile ::
  "(string \<Rightarrow> string + string) \<Rightarrow> string \<Rightarrow> header \<Rightarrow> target list \<times> targets_error option" where
  "ParseTargetsFile fs path headers =
     (case fs path of
        Inl e \<Rightarrow> ([], Some (OpenError e))
      | Inr content \<Rightarrow>
          (let (ls, too_long) = scan_lines (2 ^ 20) content in
           case parse_lines fs headers 1 [] ls of
             Inl e \<Rightarrow> ([], Some e)
           | Inr out \<Rightarrow> (out, if too_long then Some LineTooLong else None)))"

section \<open>Reading back what was printed\<close>

definition no_space :: "string \<Rightarrow> bool" where
  "no_space s \<longleftrightarrow> (\<forall>c\<in>set s. \<not> is_space c)"

text \<open>A target that can be written on one line: the method and the URL are words, the URL does not
  occur inside the method, and the body has no outer white space, no newline and no leading \<open>@\<close>.\<close>

definition printable :: "target \<Rightarrow> bool" where
  "printable t \<longleftrightarrow> Method t \<noteq> [] \<and> URL t \<noteq> [] \<and> no_space (Method t) \<and> no_space (URL t) \<and>
     \<not> has_prefix (Method t) ''#'' \<and> (\<forall>i<length (Method t). \<not> has_prefix (drop i (Method t)) (URL t)) \<and>
     trim_space (Body t) = Body t \<and> newline \<notin> set (Body t) \<and> \<not> has_prefix (Body t) ''@''"

definition print_target :: "target \<Rightarrow> string" where
  "print_target t = Method t @ '' '' @ URL t @ (if Body t = [] then [] else '' '' @ Body t)"

definition print_targets :: "target list \<Rightarrow> string" where
  "print_targets ts = concat (map (\<lambda>t. print_target t @ [newline]) ts)"

lemma is_space_blank [simp]: "is_space (CHR '' '')"
  by (simp add: is_space_def)

lemma is_space_newline [simp]: "is_space newline"
  by (simp add: is_space_def newline_def)

lemma no_space_simps [simp]: "no_space []" "no_space (c # s) \<longleftrightarrow> \<not> is_space c \<and> no_space s"
  by (auto simp: no_space_def)

lemma takeWhile_word:
  "no_space w \<Longrightarrow> is_space c \<Longrightarrow> takeWhile (\<lambda>c. \<not> is_space c) (w @ c # r) = w"
  "no_space w \<Longrightarrow> is_space c \<Longrightarrow> dropWhile (\<lambda>c. \<not> is_space c) (w @ c # r) = c # r"
  by (induction w) simp_all

lemma takeWhile_word_end:
  "no_space w \<Longrightarrow> takeWhile (\<lambda>c. \<not> is_space c) w = w"
  "no_space w \<Longrightarrow> dropWhile (\<lambda>c. \<not> is_space c) w = []"
  by (induction w) simp_all

lemma fields_space [simp]: "is_space c \<Longrightarrow> fields (c # s) = fields s"
  by (subst (1 2) fields.simps) simp

lemma fields_Nil [simp]: "fields [] = []"
  by (subst fields.simps) simp

lemma fields_word: "w \<noteq> [] \<Longrightarrow> no_space w \<Longrightarrow> r = [] \<or> is_space (hd r) \<Longrightarrow> fields (w @ r) = w # fields r"
proof -
  assume w: "w \<noteq> []" "no_space w" and r: "r = [] \<or> is_space (hd r)"
  then have "dropWhile is_space (w @ r) = w @ r" by (cases w) auto
  then show ?thesis using w r
    by (subst fields.simps) (cases r; simp add: Let_def takeWhile_word takeWhile_word_end)
qed

lemma has_prefix_word:
  assumes "no_space p" "is_space c" "has_prefix (w @ c # r) p"
  shows "has_prefix w p"
proof -
  from assms(3) obtain t where "w @ c # r = p @ t" by (auto simp: has_prefix_iff)
  moreover have "c \<notin> set p" using assms(1,2) by (auto simp: no_space_def)
  ultimately show ?thesis by (auto simp: has_prefix_iff append_eq_append_conv2 Cons_eq_append_conv)
qed

lemma str_index_after_word:
  assumes "u \<noteq> []" "no_space u" "\<forall>i<length m. \<not> has_prefix (drop i m) u"
  shows "str_index (m @ CHR '' '' # u @ r) u = Some (Suc (length m))"
  using assms(3)
proof (induction m)
  case Nil
  have "\<not> has_prefix (CHR '' '' # u @ r) u"
    using has_prefix_word [of u "CHR '' ''" "[]" "u @ r"] assms(1,2) by (auto simp: has_prefix_def)
  moreover have "str_index (u @ r) u = Some 0" using assms(1) by (cases u) (auto simp: has_prefix_def)
  ultimately show ?case by simp
next
  case (Cons c m)
  have "\<not> has_prefix ((c # m) @ CHR '' '' # u @ r) u"
    using has_prefix_word [of u "CHR '' ''" "c # m" "u @ r"] assms(2) Cons.prems [rule_format, of 0] by auto
  moreover have "\<forall>i<length m. \<not> has_prefix (drop i m) u" using Cons.prems by fastforce
  ultimately show ?case using Cons.IH by simp
qed

lemma trim_space_outer:
  assumes "s \<noteq> []" "\<not> is_space (hd s)" "\<not> is_space (last s)"
  shows "trim_space s = s"
proof -
  have d: "dropWhile is_space s = s" using assms(1,2) by (cases s) auto
  moreover have "dropWhile is_space (rev s) = rev s"
    using assms(1,3) by (cases "rev s") (auto simp: last_rev [symmetric] hd_rev)
  ultimately show ?thesis by (simp add: trim_space_def)
qed

lemma trim_space_ends:
  assumes "trim_space s = s" "s \<noteq> []"
  shows "\<not> is_space (hd s)" "\<not> is_space (last s)"
proof -
  let ?t = "dropWhile is_space s"
  have len: "length (dropWhile is_space (rev ?t)) = length s"
    using arg_cong [OF assms(1), of length] by (simp add: trim_space_def)
  then have "length ?t = length s"
    using length_dropWhile_le [of is_space "rev ?t"] length_dropWhile_le [of is_space s] by simp
  then have t: "?t = s" by (metis append_take_drop_id dropWhile_eq_drop length_drop
      add_diff_cancel_right' append_Nil length_append list.size(3) length_0_conv add_0)
  then show "\<not> is_space (hd s)" using assms(2) by (metis hd_dropWhile)
  have "rev (dropWhile is_space (rev s)) = s" using assms(1) t by (simp add: trim_space_def)
  then have "dropWhile is_space (rev s) = rev s" by (metis rev_rev_ident)
  then have "\<not> is_space (hd (rev s))" using assms(2) by (metis hd_dropWhile rev_is_Nil_conv)
  then show "\<not> is_space (last s)" by (simp add: hd_rev)
qed

lemma trim_space_blank: "trim_space (CHR '' '' # s) = trim_space s"
  by (simp add: trim_space_def)

lemma parse_target_print:
  assumes "printable t"
  shows "parse_target fs (Headers t) line (print_target t) = Inr t"
proof -
  let ?r = "if Body t = [] then [] else '' '' @ Body t"
  have "fields (print_target t) = Method t # URL t # fields ?r"
    using assms unfolding print_target_def
    by (simp add: fields_word printable_def)
  moreover have "str_index (print_target t) (URL t) = Some (Suc (length (Method t)))"
    using assms str_index_after_word [of "URL t" "Method t" ?r] by (auto simp: printable_def print_target_def)
  moreover have "drop (Suc (length (Method t)) + length (URL t)) (print_target t) = ?r"
    by (simp add: print_target_def)
  moreover have "trim_space ?r = Body t" "\<not> has_prefix (Body t) ''@''"
    using assms by (auto simp: printable_def trim_space_blank)
  ultimately show ?thesis by (auto simp: parse_target_def Let_def)
qed

lemma last_word: "w \<noteq> [] \<Longrightarrow> no_space w \<Longrightarrow> \<not> is_space (hd w) \<and> \<not> is_space (last w)"
  by (auto simp: no_space_def)

lemma print_target_line:
  assumes "printable t"
  shows "trim_space (print_target t) = print_target t" "print_target t \<noteq> []"
    "\<not> has_prefix (print_target t) ''#''" "newline \<notin> set (print_target t)" "drop_cr (print_target t) = print_target t"
proof -
  have ends: "\<not> is_space (hd (print_target t))" "\<not> is_space (last (print_target t))"
    using assms last_word [of "Method t"] last_word [of "URL t"] trim_space_ends [of "Body t"]
    by (auto simp: printable_def print_target_def)
  show ne: "print_target t \<noteq> []" by (simp add: print_target_def)
  show "trim_space (print_target t) = print_target t" using ne ends by (rule trim_space_outer)
  show "\<not> has_prefix (print_target t) ''#''"
    using assms by (cases "Method t") (auto simp: printable_def print_target_def has_prefix_def)
  show "newline \<notin> set (print_target t)"
    using assms is_space_newline by (auto simp: printable_def print_target_def no_space_def newline_def)
  have "is_space (CHR 0x0D)" by (simp add: is_space_def)
  then show "drop_cr (print_target t) = print_target t" using ends by (auto simp: drop_cr_def)
qed

lemma scan_lines_line:
  assumes "newline \<notin> set l" "length l < limit"
  shows "scan_lines limit (l @ newline # s) = (case scan_lines limit s of (ls, e) \<Rightarrow> (drop_cr l # ls, e))"
proof -
  have "takeWhile (\<lambda>c. c \<noteq> newline) (l @ newline # s) = l"
    "dropWhile (\<lambda>c. c \<noteq> newline) (l @ newline # s) = newline # s"
    using assms(1) by (induction l) auto
  then show ?thesis using assms(2) by (subst scan_lines.simps) simp
qed

lemma scan_lines_print:
  "\<forall>t\<in>set ts. printable t \<and> length (print_target t) < limit \<Longrightarrow>
     scan_lines limit (print_targets ts) = (map print_target ts, False)"
proof (induction ts)
  case Nil
  show ?case by (simp add: print_targets_def scan_lines.simps)
next
  case (Cons t ts)
  then show ?case using print_target_line [of t]
    by (simp add: print_targets_def scan_lines_line)
qed

lemma parse_lines_print:
  "\<forall>t\<in>set ts. printable t \<and> Headers t = hs \<Longrightarrow>
     parse_lines fs hs line out (map print_target ts) = Inr (out @ ts)"
proof (induction ts arbitrary: line out)
  case (Cons t ts)
  then have "parse_target fs hs line (print_target t) = Inr t" using parse_target_print by fastforce
  with Cons print_target_line [of t] show ?case by (simp add: Let_def)
qed simp



text \<open>The body is found after the first occurrence of the URL, which may lie in the method: the
  line \<open>GETX X\<close> has no body but is read as one with body \<open>X\<close>.\<close>

lemma url_inside_method:
  "parse_target fs Mapping.empty 1 ''GETX X'' =
     Inr \<lparr>Method = ''GETX'', URL = ''X'', Body = ''X'', Headers = Mapping.empty\<rparr>"
proof -
  have "fields (''GETX'' @ '' X'') = [''GETX'', ''X'']"
    using fields_word [of "''GETX''" "'' X''"] fields_word [of "''X''" "[]"] by (simp add: is_space_def)
  then show ?thesis by (simp add: parse_target_def has_prefix_def trim_space_def is_space_def)
qed

end
