(* ===== verification/Float_Error.thy ===== *)
theory Float_Error
  imports Float64
begin

text \<open>
  A small calculus of relative errors for chains of float64 operations: \<open>approx k x y\<close> says that \<open>x\<close> is
  \<open>y\<close> up to \<open>k\<close> units of \<open>2 ^ -52\<close>, and every rounded operation adds one unit.
\<close>

section \<open>Relative errors\<close>

definition unit_err :: real where
  "unit_err = 1 / 2 ^ 52"

definition approx :: "nat \<Rightarrow> real \<Rightarrow> real \<Rightarrow> bool" where
  "approx k x y \<longleftrightarrow> 0 \<le> y \<and> \<bar>x - y\<bar> \<le> k * unit_err * y"

text \<open>Zero and the normal numbers, on which rounding has a relative error bound.\<close>

definition normal :: "real \<Rightarrow> bool" where
  "normal x \<longleftrightarrow> x = 0 \<or> 2 powr - 1022 \<le> x"

named_theorems approx_intros \<open>how the operations propagate relative errors\<close>

lemma unit_err_pos [simp]: "0 < unit_err" "0 \<le> unit_err"
  by (simp_all add: unit_err_def)

lemma half_unit: "2 powr - 53 = unit_err / 2"
proof -
  have "(2 :: real) powr - 53 = 1 / 2 ^ 53" by (simp only: powr_minus_divide powr_numeral)
  then show ?thesis by (simp add: unit_err_def)
qed

lemma small_units: "k \<le> 1000 \<Longrightarrow> real k * unit_err \<le> 1 / 2 ^ 42"
proof -
  assume "k \<le> 1000"
  then have "real k * unit_err \<le> 1000 * unit_err" by (intro mult_right_mono) simp_all
  then show ?thesis by (simp add: unit_err_def)
qed

lemma approxD:
  assumes "approx k x y" "k \<le> 1000"
  shows "0 \<le> y" "0 \<le> x" "\<bar>x - y\<bar> \<le> k * unit_err * y" "x \<le> 2 * y" "y \<le> 2 * x"
proof -
  show y: "0 \<le> y" "\<bar>x - y\<bar> \<le> k * unit_err * y" using assms(1) by (simp_all add: approx_def)
  have "k * unit_err * y \<le> 1 / 2 ^ 42 * y" using small_units [OF assms(2)] y(1) by (rule mult_right_mono)
  also have "\<dots> \<le> 1 / 2 * y" using y(1) by (intro mult_right_mono) simp_all
  finally show "0 \<le> x" "x \<le> 2 * y" "y \<le> 2 * x" using y by linarith+
qed

lemma approx_refl: "0 \<le> y \<Longrightarrow> approx k y y"
  by (simp add: approx_def)

lemma approx_mono: "approx k x y \<Longrightarrow> k \<le> m \<Longrightarrow> approx m x y"
proof -
  assume a: "approx k x y" and "k \<le> m"
  then have "k * unit_err * y \<le> m * unit_err * y" by (intro mult_right_mono) (simp_all add: approx_def)
  with a show ?thesis unfolding approx_def by linarith
qed

lemma approx_trans:
  assumes "approx j x y" "approx k y z" "j \<le> 1000" "k \<le> 1000"
  shows "approx (j + k + 1) x z"
proof -
  let ?e = unit_err
  have z: "0 \<le> z" and y: "\<bar>y - z\<bar> \<le> k * ?e * z" using approxD [OF assms(2,4)] by auto
  have x: "\<bar>x - y\<bar> \<le> j * ?e * y" using approxD [OF assms(1,3)] by simp
  have "j * ?e * (y - z) \<le> j * ?e * (k * ?e * z)" using y by (intro mult_left_mono) simp_all
  also have "\<dots> = (j * ?e * k) * (?e * z)" by simp
  also have "\<dots> \<le> 1 * (?e * z)"
  proof (rule mult_right_mono)
    have "(j * ?e) * k \<le> 1 / 2 ^ 42 * 1000" using small_units [OF assms(3)] assms(4) by (intro mult_mono) simp_all
    then show "j * ?e * k \<le> 1" by simp
  qed (use z in simp)
  finally have "j * ?e * y \<le> j * ?e * z + ?e * z" by (simp add: right_diff_distrib)
  moreover have "real (j + k + 1) * ?e * z = j * ?e * z + k * ?e * z + ?e * z" by (simp add: distrib_right)
  ultimately have "\<bar>x - z\<bar> \<le> real (j + k + 1) * ?e * z" using x y by linarith
  with z show ?thesis by (simp add: approx_def)
qed

section \<open>Operations\<close>

lemma approx_f64 [approx_intros]:
  assumes "approx k x y" "k \<le> 1000" "normal x"
  shows "approx (Suc k) (f64 x) y"
proof (cases "x = 0")
  case True
  then have "y = 0" using approxD [OF assms(1,2)] by simp
  then show ?thesis using True by (simp add: approx_def)
next
  case False
  let ?e = unit_err
  have y: "0 \<le> y" "x \<le> 2 * y" "\<bar>x - y\<bar> \<le> k * ?e * y" using approxD [OF assms(1,2)] by auto
  have n: "2 powr - 1022 \<le> x" using assms(3) False by (simp add: normal_def)
  have "(1 - ?e / 2) * x \<le> f64 x" "f64 x \<le> (1 + ?e / 2) * x" using f64.fl_lower [OF n] f64.fl_upper [OF n] by (simp_all add: half_unit)
  then have "\<bar>f64 x - x\<bar> \<le> ?e / 2 * x" unfolding left_diff_distrib distrib_right by linarith
  also have "\<dots> \<le> ?e / 2 * (2 * y)" using y(2) by (intro mult_left_mono) simp_all
  finally have "\<bar>f64 x - x\<bar> \<le> ?e * y" by simp
  moreover have "real (Suc k) * ?e * y = k * ?e * y + ?e * y" by (simp add: distrib_right)
  ultimately have "\<bar>f64 x - y\<bar> \<le> real (Suc k) * ?e * y" using y(3) by linarith
  with y(1) show ?thesis by (simp add: approx_def)
qed

lemma approx_mult [approx_intros]: "approx k x y \<Longrightarrow> 0 \<le> c \<Longrightarrow> approx k (c * x) (c * y)"
proof -
  assume a: "approx k x y" and c: "0 \<le> c"
  then have "c * \<bar>x - y\<bar> \<le> c * (k * unit_err * y)" by (intro mult_left_mono) (simp_all add: approx_def)
  moreover have "\<bar>c * x - c * y\<bar> = c * \<bar>x - y\<bar>" using c by (simp add: abs_mult flip: right_diff_distrib)
  ultimately show ?thesis using a c by (simp add: approx_def mult.left_commute mult.assoc)
qed

lemma approx_mult' [approx_intros]: "approx k x y \<Longrightarrow> 0 \<le> c \<Longrightarrow> approx k (x * c) (y * c)"
  using approx_mult [of k x y c] by (simp add: mult.commute)

lemma approx_divide [approx_intros]: "approx k x y \<Longrightarrow> 0 \<le> c \<Longrightarrow> approx k (x / c) (y / c)"
  using approx_mult' [of k x y "1 / c"] by simp

lemma approx_add [approx_intros]: "approx k x y \<Longrightarrow> approx k a b \<Longrightarrow> approx k (x + a) (y + b)"
proof -
  assume "approx k x y" "approx k a b"
  moreover have "k * unit_err * (y + b) = k * unit_err * y + k * unit_err * b" by (simp add: distrib_left)
  ultimately show ?thesis unfolding approx_def by linarith
qed

lemma approx_sqrt [approx_intros]:
  assumes "approx k x y" "k \<le> 1000"
  shows "approx k (sqrt x) (sqrt y)"
proof (cases "y = 0")
  case True
  then show ?thesis using assms(1) by (simp add: approx_def)
next
  case False
  have y: "0 < y" "0 \<le> x" "\<bar>x - y\<bar> \<le> k * unit_err * y" using approxD [OF assms] False by auto
  have "(sqrt x - sqrt y) * (sqrt x + sqrt y) = x - y" using y by (simp add: algebra_simps)
  then have "\<bar>sqrt x - sqrt y\<bar> * (sqrt x + sqrt y) = \<bar>x - y\<bar>" using y by (metis abs_mult abs_of_nonneg add_nonneg_nonneg real_sqrt_ge_zero less_imp_le)
  moreover have "\<bar>sqrt x - sqrt y\<bar> * sqrt y \<le> \<bar>sqrt x - sqrt y\<bar> * (sqrt x + sqrt y)" using y by (intro mult_left_mono) simp_all
  ultimately have "\<bar>sqrt x - sqrt y\<bar> * sqrt y \<le> k * unit_err * (sqrt y * sqrt y)" using y by simp
  then have "\<bar>sqrt x - sqrt y\<bar> * sqrt y \<le> (k * unit_err * sqrt y) * sqrt y" by (simp add: mult.assoc)
  then have "\<bar>sqrt x - sqrt y\<bar> \<le> k * unit_err * sqrt y" using y(1) by (simp only: mult_le_cancel_right) simp
  then show ?thesis using y by (simp add: approx_def)
qed

lemma approx_product:
  assumes "approx j x y" "approx k a b" "j \<le> 1000" "k \<le> 1000"
  shows "approx (j + k + 1) (x * a) (y * b)"
  using approx_mult' [OF assms(1), of a] approx_mult [OF assms(2), of y] approxD(1,2) [OF assms(1,3)] approxD(1,2) [OF assms(2,4)]
  by (blast intro: approx_trans [OF _ _ assms(3,4)])

lemma approx_inverse:
  assumes "approx k a b" "k \<le> 1000" "0 < b"
  shows "approx (2 * k) (1 / a) (1 / b)"
proof -
  have b: "b \<le> 2 * a" "\<bar>a - b\<bar> \<le> k * unit_err * b" using approxD [OF assms(1,2)] by auto
  then have a: "0 < a" using assms(3) by linarith
  have "\<bar>1 / a - 1 / b\<bar> = \<bar>a - b\<bar> / (a * b)" using a assms(3) by (simp add: field_simps abs_minus_commute)
  also have "\<dots> \<le> k * unit_err * b / (a * b)" using b(2) a assms(3) by (intro divide_right_mono) simp_all
  also have "\<dots> = k * unit_err * (1 / a)" using assms(3) by simp
  also have "\<dots> \<le> k * unit_err * (2 * (1 / b))" using b(1) a assms(3) by (intro mult_left_mono) (simp_all add: field_simps)
  finally show ?thesis using assms(3) by (simp add: approx_def mult.commute mult.left_commute)
qed

text \<open>Below the normal numbers only an absolute bound is left.\<close>

lemma f64_tiny:
  assumes "0 \<le> x"
  shows "\<bar>f64 x - x\<bar> \<le> unit_err * x + 2 powr - 1021"
proof (cases "2 powr - 1022 \<le> x")
  case True
  then have "approx 1 (f64 x) x" using approx_f64 [OF approx_refl [OF assms, of 0]] by (simp add: normal_def)
  then have "\<bar>f64 x - x\<bar> \<le> unit_err * x" by (simp add: approx_def)
  moreover have "(0 :: real) \<le> 2 powr - 1021" by simp
  ultimately show ?thesis by linarith
next
  case False
  let ?t = "2 powr - 1022 :: real"
  have "f64 x \<le> f64 ?t" using False by (intro f64.fl_mono) simp
  also have "\<dots> \<le> (1 + 2 powr - 53) * ?t" by (rule f64.fl_upper) simp
  also have "\<dots> \<le> 2 * ?t" by (intro mult_right_mono) (simp_all add: half_unit unit_err_def)
  also have "2 * ?t = 2 powr - 1021" using powr_add [of "2 :: real" 1 "- 1022"] by simp
  finally have "f64 x \<le> 2 powr - 1021" .
  moreover have "?t \<le> 2 powr - 1021" by (intro powr_mono) simp_all
  then have "x \<le> 2 powr - 1021" using False by linarith
  moreover have "0 \<le> f64 x" "0 \<le> unit_err * x" using assms by (simp_all add: f64.fl_nonneg)
  ultimately show ?thesis using assms by linarith
qed

lemma residual:
  assumes p: "0 < c" "c \<le> 2 ^ 50" and d: "0 \<le> d"
  shows "\<bar>f64 (c * f64 d) - c * d\<bar> \<le> 3 * unit_err * (c * d) + 1 / 2 ^ 200"
proof -
  define t :: real where "t = 2 powr - 1021"
  have t: "0 \<le> t" "2 ^ 52 * t \<le> 1 / 2 ^ 200"
  proof -
    have "(2 :: real) ^ 52 * t = 2 powr 52 * 2 powr - 1021" by (simp add: t_def)
    also have "\<dots> = 2 powr - 969" unfolding powr_add [symmetric] by simp
    also have "\<dots> \<le> 2 powr - 200" by (intro powr_mono) simp_all
    also have "\<dots> = 1 / 2 ^ 200" by (simp only: powr_minus_divide powr_numeral)
    finally show "2 ^ 52 * t \<le> 1 / 2 ^ 200" .
  qed (simp add: t_def)
  define a b where "a = c * f64 d" and "b = c * d"
  have ab0: "0 \<le> a" "0 \<le> b" using d p by (simp_all add: a_def b_def f64.fl_nonneg)
  have "c * \<bar>f64 d - d\<bar> \<le> c * (unit_err * d + t)" using f64_tiny [OF d] p by (intro mult_left_mono) (simp_all add: t_def)
  moreover have "\<bar>a - b\<bar> = c * \<bar>f64 d - d\<bar>" unfolding a_def b_def right_diff_distrib [symmetric] abs_mult using p by simp
  moreover have "c * (unit_err * d + t) = unit_err * b + c * t" by (simp add: b_def distrib_left)
  moreover have "c * t \<le> 2 ^ 50 * t" using p t(1) by (intro mult_right_mono) simp_all
  ultimately have ab: "\<bar>a - b\<bar> \<le> unit_err * b + 2 ^ 50 * t" by linarith
  have f: "\<bar>f64 a - a\<bar> \<le> unit_err * a + t" using f64_tiny [OF ab0(1)] by (simp add: t_def)
  have "unit_err * b \<le> 1 * b" using ab0(2) by (intro mult_right_mono) (simp_all add: unit_err_def)
  then have "a \<le> 2 * b + 2 ^ 50 * t" using ab by linarith
  then have "unit_err * a \<le> unit_err * (2 * b + 2 ^ 50 * t)" by (intro mult_left_mono) simp_all
  also have "\<dots> = 2 * (unit_err * b) + unit_err * (2 ^ 50 * t)" by (simp add: distrib_left)
  also have "\<dots> \<le> 2 * (unit_err * b) + 1 * (2 ^ 50 * t)" using t(1) by (intro add_left_mono mult_right_mono) (simp_all add: unit_err_def)
  finally have "unit_err * a \<le> 2 * (unit_err * b) + 2 ^ 50 * t" by simp
  moreover have "2 ^ 50 * t + 2 ^ 50 * t + t \<le> 2 ^ 52 * t" using t(1) by simp
  ultimately have "\<bar>f64 a - b\<bar> \<le> 3 * unit_err * b + 1 / 2 ^ 200" using ab f t(2) by linarith
  then show ?thesis by (simp add: a_def b_def)
qed

section \<open>Rounding of numbers that are not too small\<close>

definition sized :: "real \<Rightarrow> bool" where
  "sized y \<longleftrightarrow> y = 0 \<or> 1 / 2 ^ 300 \<le> y"

lemma sizedI: "1 / 2 ^ m \<le> y \<Longrightarrow> m \<le> 300 \<Longrightarrow> sized y"
proof -
  assume "1 / 2 ^ m \<le> y" "m \<le> 300"
  moreover have "(2 :: real) ^ m \<le> 2 ^ 300" using \<open>m \<le> 300\<close> by (intro power_increasing) simp_all
  then have "1 / 2 ^ 300 \<le> (1 / 2 ^ m :: real)" by (intro divide_left_mono) simp_all
  ultimately show ?thesis unfolding sized_def by linarith
qed

lemma approx_round:
  assumes "approx k x y" "sized y" "k \<le> 1000"
  shows "approx (Suc k) (f64 x) y"
proof (rule approx_f64 [OF assms(1,3)])
  have t: "(2 :: real) powr - 1022 \<le> 1 / 2 ^ 301"
  proof -
    have "(2 :: real) powr - 1022 \<le> 2 powr - 301" by (intro powr_mono) simp_all
    also have "\<dots> = 1 / 2 ^ 301" by (simp only: powr_minus_divide powr_numeral)
    finally show ?thesis .
  qed
  show "normal x"
  proof (cases "y = 0")
    case True
    then have "x = 0" using approxD [OF assms(1,3)] by simp
    then show ?thesis by (simp add: normal_def)
  next
    case False
    then have "1 / 2 ^ 300 \<le> 2 * x" using assms(2) approxD(5) [OF assms(1,3)] by (simp add: sized_def)
    then have "1 / 2 ^ 301 \<le> x" by simp
    then show ?thesis using t unfolding normal_def by linarith
  qed
qed

lemma sized_mult: "sized y \<Longrightarrow> 1 \<le> c \<Longrightarrow> sized (y * c)"
proof (cases "y = 0")
  case False
  assume "sized y" "1 \<le> c"
  then have "1 / 2 ^ 300 \<le> y" using False by (simp add: sized_def)
  moreover from this have "0 \<le> y" by (rule order_trans [rotated]) simp
  then have "y * 1 \<le> y * c" using \<open>1 \<le> c\<close> by (intro mult_left_mono)
  ultimately show ?thesis unfolding sized_def by linarith
qed (simp add: sized_def)

lemma trunc_near:
  assumes "approx k v y" "k \<le> 1000"
  shows "\<bar>of_int (trunc_float v) - y\<bar> < 1 + k * unit_err * y"
proof -
  have "0 \<le> v" "\<bar>v - y\<bar> \<le> k * unit_err * y" using approxD [OF assms] by auto
  moreover have "trunc_float v = \<lfloor>v\<rfloor>" using calculation(1) by (simp add: trunc_float_def)
  moreover have "of_int \<lfloor>v\<rfloor> \<le> v" "v < of_int \<lfloor>v\<rfloor> + 1" by linarith+
  ultimately show ?thesis by linarith
qed

section \<open>Durations in seconds\<close>

lemma Seconds_approx:
  assumes "0 \<le> d" "d < 2 ^ 63"
  shows "approx 2 (Seconds d) (d / 10 ^ 9)"
proof -
  let ?q = "d div Second" and ?m = "d mod Second"
  have m: "0 \<le> ?m" "?m < Second" by simp_all
  have q: "0 \<le> ?q" "?q \<le> 2 ^ 53" using assms by auto
  have e: "float_of_int ?q = of_int ?q" "float_of_int ?m = of_int ?m"
    unfolding float_of_int_def using m q by (intro f64.fl_int; simp)+
  have "sized (of_int ?m / 1000000000)"
  proof (cases "?m = 0")
    case False
    then have "1 \<le> ?m" using m by linarith
    then show ?thesis by (intro sizedI [of 30]) simp_all
  qed (simp add: sized_def)
  then have "approx 1 (f64 (of_int ?m / 1000000000)) (of_int ?m / 1000000000)"
    using approx_round [OF approx_refl, of "of_int ?m / 1000000000" 0] m by simp
  then have "approx 1 (of_int ?q + f64 (of_int ?m / 1000000000)) (of_int ?q + of_int ?m / 1000000000)"
    using q by (intro approx_add approx_refl) simp_all
  moreover have "of_int ?q + of_int ?m / 1000000000 = (of_int d / 10 ^ 9 :: real)"
  proof -
    have "of_int (?q * Second + ?m) = (of_int d :: real)" by (simp only: div_mult_mod_eq)
    then have "of_int ?q * 1000000000 + of_int ?m = (of_int d :: real)" unfolding of_int_add of_int_mult by simp
    then show ?thesis by (simp add: field_simps)
  qed
  moreover have "sized (of_int d / 10 ^ 9)"
  proof (cases "d = 0")
    case False
    then show ?thesis using assms by (intro sizedI [of 30]) simp_all
  qed (simp add: sized_def)
  ultimately show ?thesis using approx_round [of 1] assms(1) by (simp add: Seconds_def e numeral_2_eq_2)
qed

lemma Seconds_mono:
  assumes "0 \<le> c" "c \<le> d" "d < 2 ^ 63"
  shows "Seconds c \<le> Seconds d"
proof -
  have frac: "f64 (float_of_int (m mod Second) / 1000000000) \<le> 1" "0 \<le> f64 (float_of_int (m mod Second) / 1000000000)" for m
  proof -
    have "float_of_int (m mod Second) \<le> of_int Second" "0 \<le> float_of_int (m mod Second)"
      unfolding float_of_int_def using pos_mod_bound [of Second m] by (intro f64.fl_le_int f64.fl_nonneg; simp)+
    then show "f64 (float_of_int (m mod Second) / 1000000000) \<le> 1" "0 \<le> f64 (float_of_int (m mod Second) / 1000000000)"
      using f64.fl_le_int [of "float_of_int (m mod Second) / 1000000000" 1] by (simp_all add: f64.fl_nonneg)
  qed
  have q: "c div Second \<le> d div Second" using assms(2) by (rule zdiv_mono1) simp
  show ?thesis
  proof (cases "c div Second = d div Second")
    case True
    then have "c mod Second \<le> d mod Second" using assms(2) by (metis add_le_cancel_left mult_div_mod_eq)
    then have "float_of_int (c mod Second) \<le> float_of_int (d mod Second)" unfolding float_of_int_def by (intro f64.fl_mono) simp
    then show ?thesis using assms True unfolding Seconds_def by (intro f64.fl_mono add_mono) (simp_all add: f64.fl_mono)
  next
    case False
    then have "of_int (c div Second) + 1 \<le> (of_int (d div Second) :: real)" using q by linarith
    moreover have "float_of_int (c div Second) = of_int (c div Second)" "float_of_int (d div Second) = of_int (d div Second)"
      unfolding float_of_int_def using assms by (intro f64.fl_int; simp)+
    ultimately show ?thesis using assms frac [of c] frac [of d] unfolding Seconds_def by (intro f64.fl_mono) simp
  qed
qed

end
