(* ===== verification/Transport.thy ===== *)
theory Transport
  imports Engine_Config
begin

text \<open>
  The requesters of \<open>internal/titanload/engine/transport.go\<close>. The HTTP client, the gRPC library and
  the health service are parameters: what a request gives back is an argument of the definitions. An
  error is what the program can observe of it: the chain of causes that \<open>errors.Is\<close> and
  \<open>errors.As\<close> walk (outermost first), with the gRPC status as one kind of cause, and whether
  \<open>os.IsTimeout\<close> holds.
\<close>

section \<open>Errors and their classification\<close>

datatype grpc_code = CodeUnknown | CodeDeadlineExceeded | CodeUnavailable | CodeResourceExhausted | CodeOther string

datatype cause =
    GrpcStatus grpc_code | CtxDeadlineExceeded | ECONNREFUSED | ECONNRESET | EADDRNOTAVAIL | EMFILE
  | IoEOF | IoUnexpectedEOF | DNSError | CertificateVerificationError | UnknownAuthorityError
  | RecordHeaderError | OpError string | OtherCause string

record go_error =
  err_chain :: "cause list"
  err_is_timeout :: bool

definition errors_Is :: "go_error \<Rightarrow> cause \<Rightarrow> bool" where
  "errors_Is e c \<longleftrightarrow> c \<in> set (err_chain e)"

text \<open>\<open>status.FromError\<close>: the first gRPC status of the chain.\<close>

fun from_chain :: "cause list \<Rightarrow> grpc_code option" where
  "from_chain [] = None"
| "from_chain (GrpcStatus c # cs) = Some c"
| "from_chain (_ # cs) = from_chain cs"

fun op_of_chain :: "cause list \<Rightarrow> string option" where
  "op_of_chain [] = None"
| "op_of_chain (OpError op # cs) = Some op"
| "op_of_chain (_ # cs) = op_of_chain cs"

definition classify_grpc :: "grpc_code \<Rightarrow> string" where
  "classify_grpc c =
     (case c of CodeDeadlineExceeded \<Rightarrow> ''timeout'' | CodeUnavailable \<Rightarrow> ''unavailable''
      | CodeResourceExhausted \<Rightarrow> ''resource_exhausted'' | CodeOther n \<Rightarrow> ''grpc_'' @ to_lower n
      | CodeUnknown \<Rightarrow> ''grpc_unknown'')"

definition classify_net :: "go_error \<Rightarrow> string" where
  "classify_net e =
     (if errors_Is e CtxDeadlineExceeded \<or> err_is_timeout e then ''timeout''
      else if errors_Is e ECONNREFUSED then ''conn_refused''
      else if errors_Is e ECONNRESET then ''conn_reset''
      else if errors_Is e EADDRNOTAVAIL then ''no_ephemeral_ports''
      else if errors_Is e EMFILE then ''too_many_open_files''
      else if errors_Is e IoEOF \<or> errors_Is e IoUnexpectedEOF then ''eof''
      else if errors_Is e DNSError then ''dns''
      else if errors_Is e CertificateVerificationError \<or> errors_Is e UnknownAuthorityError
          \<or> errors_Is e RecordHeaderError then ''tls''
      else case op_of_chain (err_chain e) of Some op \<Rightarrow> ''net_'' @ op | None \<Rightarrow> ''other'')"

definition Classify :: "go_error option \<Rightarrow> string" where
  "Classify err =
     (case err of None \<Rightarrow> []
      | Some e \<Rightarrow>
          (case from_chain (err_chain e) of
             Some c \<Rightarrow> if c \<noteq> CodeUnknown then classify_grpc c else classify_net e
           | None \<Rightarrow> classify_net e))"

section \<open>The HTTP requester\<close>

record http_transport =
  MaxIdleConnsPerHost :: int
  MaxConnsPerHost :: int
  DisableKeepAlives :: bool
  DisableCompression :: bool
  InsecureSkipVerify :: bool
  DialTimeout :: duration
  DialKeepAlive :: duration
  IdleConnTimeout :: duration
  TLSHandshakeTimeout :: duration
  BufferSize :: int
  proto_HTTP1 :: bool
  proto_HTTP2 :: bool
  proto_UnencryptedHTTP2 :: bool

record httpRequester =
  transport :: http_transport
  follow_redirects :: bool
  ua :: string

definition newHTTPRequester :: "string \<Rightarrow> config \<Rightarrow> httpRequester" where
  "newHTTPRequester version cfg =
     (let h2 = (cfg_Mode cfg = ModeHTTP2) in
      \<lparr>transport = \<lparr>MaxIdleConnsPerHost = Concurrency cfg, MaxConnsPerHost = Connections cfg,
         DisableKeepAlives = DisableKeepAlive cfg, DisableCompression = True,
         InsecureSkipVerify = Insecure cfg, DialTimeout = 5 * Second, DialKeepAlive = 30 * Second,
         IdleConnTimeout = 90 * Second, TLSHandshakeTimeout = 5 * Second, BufferSize = 32768,
         proto_HTTP1 = (\<not> h2), proto_HTTP2 = h2, proto_UnencryptedHTTP2 = h2\<rparr>,
       follow_redirects = False, ua = ''titanload/'' @ version\<rparr>)"

record http_request =
  req_Method :: string
  req_URL :: string
  req_Body :: "string option"
  req_Header :: header

record http_response =
  StatusCode :: int
  body_copied :: int
  body_error :: "go_error option"

definition header_get :: "header \<Rightarrow> string \<Rightarrow> string" where
  "header_get h k = (case Mapping.lookup h k of Some (v # vs) \<Rightarrow> v | _ \<Rightarrow> [])"

definition header_set :: "string \<Rightarrow> string \<Rightarrow> header \<Rightarrow> header" where
  "header_set k v h = Mapping.update k [v] h"

definition build_request :: "httpRequester \<Rightarrow> target \<Rightarrow> http_request" where
  "build_request h t =
     (let hd1 = header_set ''User-Agent'' (ua h) (Headers t);
          hd2 = (if Body t \<noteq> [] \<and> header_get hd1 ''Content-Type'' = [] then
                   header_set ''Content-Type'' ''application/json'' hd1 else hd1) in
      \<lparr>req_Method = Method t, req_URL = URL t, req_Body = (if Body t \<noteq> [] then Some (Body t) else None),
       req_Header = hd2\<rparr>)"

text \<open>\<open>new_request\<close> is what \<open>http.NewRequestWithContext\<close> objects to, \<open>client\<close> the round trip.\<close>

definition http_Do ::
  "(string \<Rightarrow> string \<Rightarrow> go_error option) \<Rightarrow> (http_request \<Rightarrow> go_error + http_response) \<Rightarrow>
     httpRequester \<Rightarrow> target \<Rightarrow> int \<times> int \<times> go_error option" where
  "http_Do new_request client h t =
     (case new_request (Method t) (URL t) of
        Some e \<Rightarrow> (0, 0, Some e)
      | None \<Rightarrow>
          (case client (build_request h t) of
             Inl e \<Rightarrow> (0, 0, Some e)
           | Inr resp \<Rightarrow> (StatusCode resp, body_copied resp, body_error resp)))"

section \<open>The gRPC requester\<close>

definition grpcTarget :: "string \<Rightarrow> string \<times> bool" where
  "grpcTarget u =
     (if has_prefix u ''grpcs://'' then (trim_prefix u ''grpcs://'', True)
      else if has_prefix u ''grpc://'' then (trim_prefix u ''grpc://'', False)
      else if has_prefix u ''https://'' then (trim_prefix u ''https://'', True)
      else if has_prefix u ''http://'' then (trim_prefix u ''http://'', False)
      else (u, False))"

record 'c grpcRequester =
  conns :: "'c list"
  next_conn :: u64
  service :: string

definition grpc_conns :: "config \<Rightarrow> int" where
  "grpc_conns cfg =
     (if 0 < Connections cfg then Connections cfg else min (max (go_div (Concurrency cfg) 100) 4) 64)"

text \<open>\<open>dial target useTLS insecure i\<close> is the \<open>i\<close>-th call of \<open>grpc.NewClient\<close>. A failed dial closes
  the connections made so far, which is the second component of the error.\<close>

fun dial_conns :: "(nat \<Rightarrow> go_error + 'c) \<Rightarrow> nat \<Rightarrow> nat \<Rightarrow> 'c list \<Rightarrow> (go_error \<times> 'c list) + 'c list" where
  "dial_conns dial i 0 cs = Inr cs"
| "dial_conns dial i (Suc n) cs =
     (case dial i of Inl e \<Rightarrow> Inl (e, cs) | Inr c \<Rightarrow> dial_conns dial (Suc i) n (cs @ [c]))"

definition newGRPCRequester ::
  "(string \<Rightarrow> bool \<Rightarrow> bool \<Rightarrow> nat \<Rightarrow> go_error + 'c) \<Rightarrow> config \<Rightarrow> (go_error \<times> 'c list) + 'c grpcRequester" where
  "newGRPCRequester dial cfg =
     (let (tgt, useTLS) = grpcTarget (URL (hd (Targets cfg))) in
      case dial_conns (dial tgt useTLS (Insecure cfg)) 0 (nat (grpc_conns cfg)) [] of
        Inl e \<Rightarrow> Inl e
      | Inr cs \<Rightarrow> Inr \<lparr>conns = cs, next_conn = 0, service = GRPCService cfg\<rparr>)"

record health_response =
  serving :: bool
  resp_len :: int

definition grpc_Do ::
  "('c \<Rightarrow> string \<Rightarrow> go_error + health_response) \<Rightarrow> 'c grpcRequester \<Rightarrow>
     'c grpcRequester \<times> (go_panic + 'c \<times> int \<times> int \<times> go_error option)" where
  "grpc_Do check g =
     (let n = next_conn g + 1; g' = g\<lparr>next_conn := n\<rparr> in
      if conns g = [] then (g', Inl IntegerDivideByZero)
      else let c = conns g ! (unat (n mod of_nat (length (conns g)))) in
        (g', Inr (case check c (service g) of
             Inl e \<Rightarrow> (c, 0, 0, Some e)
           | Inr r \<Rightarrow> if \<not> serving r then (c, 503, 0, None) else (c, 200, resp_len r, None))))"

text \<open>The connections \<open>k\<close> calls pick, in order.\<close>

fun picked :: "('c \<Rightarrow> string \<Rightarrow> go_error + health_response) \<Rightarrow> 'c grpcRequester \<Rightarrow> nat \<Rightarrow> 'c list" where
  "picked check g 0 = []"
| "picked check g (Suc k) =
     (case grpc_Do check g of
        (g', Inl p) \<Rightarrow> picked check g' k
      | (g', Inr (c, _)) \<Rightarrow> c # picked check g' k)"

section \<open>Lemmas\<close>

lemma classify_grpc_nonempty: "classify_grpc c \<noteq> []"
  by (cases c) (simp_all add: classify_grpc_def)

lemma classify_net_nonempty: "classify_net e \<noteq> []"
  by (simp add: classify_net_def split: option.split)

text \<open>The kinds an error can be reported under: a fixed list, and two open families.\<close>

definition error_kinds :: "string list" where
  "error_kinds = [''timeout'', ''unavailable'', ''resource_exhausted'', ''conn_refused'', ''conn_reset'',
     ''no_ephemeral_ports'', ''too_many_open_files'', ''eof'', ''dns'', ''tls'', ''other'']"

lemma classify_net_kind: "classify_net e \<in> set error_kinds \<or> has_prefix (classify_net e) ''net_''"
  by (auto simp: classify_net_def error_kinds_def has_prefix_def split: option.splits)

lemma classify_grpc_kind: "classify_grpc c \<in> set error_kinds \<or> has_prefix (classify_grpc c) ''grpc_''"
  by (cases c) (auto simp: classify_grpc_def error_kinds_def has_prefix_def)

text \<open>Every error gets a non-empty kind (so the statistics count it as a failure), which is one
  of the eleven fixed kinds or has the prefix of the gRPC or network-operation family; only the
  absence of an error has the empty kind.\<close>

theorem classify_total:
  "(Classify err = [] \<longleftrightarrow> err = None) \<and>
   (err = None \<or> Classify err \<in> set error_kinds \<or> has_prefix (Classify err) ''grpc_'' \<or> has_prefix (Classify err) ''net_'')"
proof (cases err)
  case (Some e)
  then show ?thesis
    using classify_grpc_nonempty classify_net_nonempty [of e] classify_net_kind [of e] classify_grpc_kind
    by (cases "from_chain (err_chain e)") (auto simp: Classify_def)
qed (simp add: Classify_def)

text \<open>The request that goes out always names the program as its agent, keeps the caller's headers
  otherwise, and declares a body as JSON only when the caller declared nothing.\<close>

lemma build_request_headers:
  "header_get (req_Header (build_request h t)) ''User-Agent'' = ua h"
  "Body t \<noteq> [] \<Longrightarrow> header_get (req_Header (build_request h t)) ''Content-Type'' =
     (if header_get (Headers t) ''Content-Type'' = [] then ''application/json'' else header_get (Headers t) ''Content-Type'')"
  "k \<notin> {''User-Agent'', ''Content-Type''} \<Longrightarrow>
     Mapping.lookup (req_Header (build_request h t)) k = Mapping.lookup (Headers t) k"
  by (auto simp: build_request_def Let_def header_get_def header_set_def lookup_update')

lemma dial_conns_length: "dial_conns dial i n cs = Inr cs' \<Longrightarrow> length cs' = length cs + n"
proof (induction n arbitrary: i cs)
  case (Suc n)
  then show ?case by (cases "dial i") fastforce+
qed simp

lemma dial_conns_error: "dial_conns dial i n cs = Inl (e, shut) \<Longrightarrow>
    \<exists>k<n. dial (i + k) = Inl e \<and> length shut = length cs + k \<and> (\<forall>j<k. \<exists>c. dial (i + j) = Inr c)"
proof (induction n arbitrary: i cs)
  case (Suc n)
  show ?case
  proof (cases "dial i")
    case (Inl e')
    with Suc.prems show ?thesis by (intro exI [of _ 0]) simp
  next
    case (Inr c)
    with Suc obtain k where k: "k < n" "dial (Suc i + k) = Inl e" "length shut = length (cs @ [c]) + k"
      "\<forall>j<k. \<exists>c. dial (Suc i + j) = Inr c" by fastforce
    have "\<exists>c. dial (i + j) = Inr c" if "j < Suc k" for j using that k(4) Inr by (cases j) auto
    with k show ?thesis by (intro exI [of _ "Suc k"]) auto
  qed
qed simp

lemma grpc_conns_range: "1 \<le> grpc_conns cfg" "Connections cfg \<le> 0 \<Longrightarrow> 4 \<le> grpc_conns cfg \<and> grpc_conns cfg \<le> 64"
  by (auto simp: grpc_conns_def)

lemma grpc_Do_ok: "conns g \<noteq> [] \<Longrightarrow> \<exists>r. snd (grpc_Do check g) = Inr r"
  by (simp add: grpc_Do_def Let_def split: sum.split)

text \<open>A gRPC requester that was built has the configured number of connections, or between 4
  and 64 when none was configured, so picking one never divides by zero; when a dial fails every
  connection made before it is closed.\<close>

theorem grpc_requester_ready:
  "case newGRPCRequester dial cfg of
     Inr g \<Rightarrow> int (length (conns g)) = grpc_conns cfg \<and> conns g \<noteq> [] \<and>
       (\<exists>r. snd (grpc_Do check g) = Inr r)
   | Inl (e, shut) \<Rightarrow> int (length shut) < grpc_conns cfg \<and>
       (let (tgt, tls) = grpcTarget (URL (hd (Targets cfg))) in
        dial tgt tls (Insecure cfg) (length shut) = Inl e)"
proof (cases "grpcTarget (URL (hd (Targets cfg)))")
  case (Pair tgt tls)
  let ?d = "dial tgt tls (Insecure cfg)" and ?n = "nat (grpc_conns cfg)"
  have n: "int ?n = grpc_conns cfg" "0 < ?n" using grpc_conns_range(1) [of cfg] by auto
  show ?thesis
  proof (cases "dial_conns ?d 0 ?n []")
    case (Inl r)
    obtain e shut where r: "r = (e, shut)" by (cases r)
    then show ?thesis using dial_conns_error [of ?d 0 ?n "[]" e shut] Inl Pair n
      by (auto simp: newGRPCRequester_def)
  next
    case (Inr cs)
    then have "length cs = ?n" using dial_conns_length by fastforce
    with n have "int (length cs) = grpc_conns cfg" "cs \<noteq> []" by auto
    with Inr Pair show ?thesis
      using grpc_Do_ok [of "\<lparr>conns = cs, next_conn = 0, service = GRPCService cfg\<rparr>" check]
      by (simp add: newGRPCRequester_def)
  qed
qed

lemma picked_round_robin:
  assumes "conns g \<noteq> []" "length (conns g) < 2 ^ 64" "unat (next_conn g) + k < 2 ^ 64"
  shows "picked check g k = map (\<lambda>i. conns g ! (Suc (unat (next_conn g) + i) mod length (conns g))) [0..<k]"
  using assms
proof (induction k arbitrary: g)
  case (Suc k)
  let ?g = "g\<lparr>next_conn := next_conn g + 1\<rparr>" and ?n = "length (conns g)"
  have u: "unat (next_conn g + 1) = Suc (unat (next_conn g))"
    using Suc.prems(3) by (simp add: unat_word_ariths)
  have "unat ((next_conn g + 1) mod of_nat ?n) = Suc (unat (next_conn g)) mod ?n"
    using Suc.prems(2) by (simp add: unat_mod u unat_of_nat)
  then have "fst (grpc_Do check g) = ?g" "\<exists>r. snd (grpc_Do check g) = Inr (conns g ! (Suc (unat (next_conn g)) mod ?n), r)"
    using Suc.prems(1) by (auto simp: grpc_Do_def Let_def split: sum.splits)
  then have "picked check g (Suc k) = conns g ! (Suc (unat (next_conn g)) mod ?n) # picked check ?g k"
    by (cases "grpc_Do check g") auto
  also have "picked check ?g k = map (\<lambda>i. conns g ! (Suc (Suc (unat (next_conn g)) + i) mod ?n)) [0..<k]"
    using Suc.IH [of ?g] Suc.prems u by simp
  finally show ?case by (simp add: upt_conv_Cons map_Suc_upt [symmetric] o_def del: upt_Suc map_Suc_upt)
qed simp

text \<open>The gRPC requester spreads its calls evenly: as many consecutive calls as there are
  connections use each connection exactly once, in rotation.\<close>

theorem grpc_round_robin:
  assumes "conns g \<noteq> []" "unat (next_conn g) + length (conns g) < 2 ^ 64"
  shows "picked check g (length (conns g)) = rotate (Suc (unat (next_conn g))) (conns g)"
proof -
  have "picked check g (length (conns g)) =
      map (\<lambda>i. conns g ! (Suc (unat (next_conn g) + i) mod length (conns g))) [0..<length (conns g)]"
    using assms by (intro picked_round_robin) linarith+
  then show ?thesis by (simp only:) (rule nth_equalityI, simp_all add: nth_rotate del: rotate_Suc)
qed

theorem grpc_round_robin_witness:
  "picked (\<lambda>c s. Inr \<lparr>serving = True, resp_len = 14\<rparr>) \<lparr>conns = [7, 8, 9 :: nat], next_conn = 0, service = []\<rparr> 3 = [8, 9, 7]"
  using grpc_round_robin [of "\<lparr>conns = [7, 8, 9 :: nat], next_conn = 0, service = []\<rparr>"] by (simp add: numeral_3_eq_3 del: picked.simps)

end
