(* ===== verification/Engine.thy ===== *)
theory Engine
  imports Stats_Exact Transport
begin

text \<open>
  The load generator of \<open>internal/titanload/engine/engine.go\<close> as a state machine. A state is what
  the goroutines of one run share (the \<open>Engine\<close> struct, the context, the token channel) and where
  each of them stands; an event is one atomic action of the source (a channel operation, an atomic
  add, the return of a request), labelled with what it observes. The scheduler, the choice of Go's
  \<open>select\<close>, the clock and the answers of the server are the choice of the next event.

  \<open>Record\<close> is one action here: a snapshot taken while a goroutine is inside it may see part of its
  counters, which the model does not show.
\<close>

section \<open>The schedule of the open model\<close>

definition ExpectedRequests :: "real \<Rightarrow> duration \<Rightarrow> duration \<Rightarrow> real" where
  "ExpectedRequests rate ramp t =
     (let s = Seconds t in
      if ramp \<le> 0 then f64 (rate * s)
      else let r = Seconds ramp in
        if s < r then f64 (f64 (f64 (rate * s) * s) / f64 (2 * r))
        else f64 (f64 (f64 (rate * r) / 2) + f64 (rate * f64 (s - r))))"

definition ScheduleOffset :: "real \<Rightarrow> duration \<Rightarrow> u64 \<Rightarrow> duration" where
  "ScheduleOffset rate ramp n =
     (let x = float_of_u64 n in
      if ramp \<le> 0 then trunc_float (f64 (f64 (x / rate) * 1000000000))
      else let r = Seconds ramp; h = f64 (f64 (rate * r) / 2) in
        if x < h then trunc_float (f64 (math_Sqrt (f64 (f64 (f64 (2 * r) * x) / rate)) * 1000000000))
        else trunc_float (f64 (f64 (r + f64 (f64 (x - h) / rate)) * 1000000000)))"

section \<open>Engines\<close>

datatype pc =
    Delaying (wait: duration) | Idle | Scheduled (sched: gotime) | Requesting (sched: gotime) nat
  | OverBudget | Returned

record goroutine =
  gpc :: pc
  idx :: nat

datatype pacer = NoPacer | PaceWait | PaceSend (want: u64) | PaceReturned

record engine =
  cfg :: config
  shards :: "shard list"
  issued :: u64
  startNs :: gotime
  endNs :: gotime
  ctx_done :: bool
  done_closed :: bool
  goroutines :: "goroutine list"
  tokens :: "gotime list option"
  tokens_closed :: bool
  pacing :: pacer
  sent :: u64
  clock :: gotime
  panicked :: "go_panic option"

definition NewWithRequester :: "config \<Rightarrow> engine" where
  "NewWithRequester c =
     \<lparr>cfg = c, shards = replicate (nat (Concurrency c)) NewShard, issued = 0, startNs = 0, endNs = 0,
      ctx_done = False, done_closed = False, goroutines = [], tokens = None, tokens_closed = False,
      pacing = NoPacer, sent = 0, clock = 0, panicked = None\<rparr>"

datatype 'c requester = HTTP httpRequester | GRPC "'c grpcRequester"

datatype new_error = InvalidConfig config_error | DialError go_error

definition engine_New ::
  "(string \<Rightarrow> bool \<Rightarrow> bool \<Rightarrow> nat \<Rightarrow> go_error + 'c) \<Rightarrow> string \<Rightarrow> config \<Rightarrow> new_error + 'c requester \<times> engine" where
  "engine_New dial version c0 =
     (case Validate c0 of
        (c, Some e) \<Rightarrow> Inl (InvalidConfig e)
      | (c, None) \<Rightarrow>
          if cfg_Mode c = ModeGRPC then
            (case newGRPCRequester dial c of
               Inl (e, _) \<Rightarrow> Inl (DialError e)
             | Inr g \<Rightarrow> Inr (GRPC g, NewWithRequester c))
          else Inr (HTTP (newHTTPRequester version c), NewWithRequester c))"

definition eng_Elapsed :: "engine \<Rightarrow> duration" where
  "eng_Elapsed e =
     (if startNs e = 0 then 0
      else if endNs e \<noteq> 0 then i64 (endNs e - startNs e)
      else i64 (clock e - startNs e))"

definition eng_Snapshot :: "engine \<Rightarrow> go_panic + snapshot" where
  "eng_Snapshot e =
     bind_ok (fold_ok (\<lambda>s sn. AddShard sn s) (shards e) NewSnapshot)
       (\<lambda>sn. Inr (sn\<lparr>Elapsed := eng_Elapsed e\<rparr>))"

text \<open>\<open>Run\<close> up to the launch of the goroutines, at time \<open>now\<close>.\<close>

definition start_delay :: "config \<Rightarrow> nat \<Rightarrow> nat \<Rightarrow> duration" where
  "start_delay c n i = (if \<not> 0 < Rate c \<and> 0 < Ramp c then go_div (i64 (Ramp c * int i)) (int n) else 0)"

definition launch :: "config \<Rightarrow> nat \<Rightarrow> nat \<Rightarrow> goroutine" where
  "launch c n i =
     \<lparr>gpc = (if 0 < start_delay c n i then Delaying (start_delay c n i) else Idle),
      idx = i mod length (Targets c)\<rparr>"

definition Run :: "gotime \<Rightarrow> engine \<Rightarrow> engine" where
  "Run now e = e\<lparr>startNs := now, clock := now,
     tokens := (if 0 < Rate (cfg e) then Some [] else None),
     pacing := (if 0 < Rate (cfg e) then PaceWait else NoPacer),
     goroutines := map (launch (cfg e) (length (shards e))) [0..<length (shards e)]\<rparr>"

definition eng_Stop :: "engine \<Rightarrow> engine" where
  "eng_Stop e = e\<lparr>ctx_done := True\<rparr>"

section \<open>Steps\<close>

datatype (discs_sels) event =
    Clock gotime | CtxCancel | Deadline
  | DelayOver nat | SeeDone nat | Receive nat gotime | SeeClosed nat | Send nat
  | Admit nat nat | Reject nat | CallStop nat
  | Complete nat duration int int "go_error option"
  | PaceTick gotime | PacePush gotime | PaceStop
  | Finish

definition pc_at :: "engine \<Rightarrow> nat \<Rightarrow> pc" where
  "pc_at e i = (if i < length (goroutines e) then gpc (goroutines e ! i) else Returned)"

definition goto_pc :: "nat \<Rightarrow> pc \<Rightarrow> engine \<Rightarrow> engine" where
  "goto_pc i p e = e\<lparr>goroutines := (goroutines e)[i := (goroutines e ! i)\<lparr>gpc := p\<rparr>]\<rparr>"

text \<open>The atomic add of the request budget, only made when there is one.\<close>

definition draw :: "engine \<Rightarrow> engine" where
  "draw e = (if 0 < MaxRequests (cfg e) then e\<lparr>issued := issued e + 1\<rparr> else e)"

definition within_budget :: "engine \<Rightarrow> bool" where
  "within_budget e \<longleftrightarrow> \<not> (0 < MaxRequests (cfg e) \<and> MaxRequests (cfg e) < issued (draw e))"

definition next_target :: "nat \<Rightarrow> engine \<Rightarrow> engine" where
  "next_target i e = e\<lparr>goroutines := (goroutines e)
     [i := (goroutines e ! i)\<lparr>idx := (idx (goroutines e ! i) + 1) mod length (Targets (cfg e))\<rparr>]\<rparr>"

definition record_result :: "nat \<Rightarrow> duration \<Rightarrow> int \<Rightarrow> int \<Rightarrow> go_error option \<Rightarrow> engine \<Rightarrow> engine" where
  "record_result i lat status n err e =
     (case Record (shards e ! i) lat status n (Classify err) of
        Inl p \<Rightarrow> e\<lparr>panicked := Some p\<rparr>
      | Inr sh \<Rightarrow> e\<lparr>shards := (shards e)[i := sh]\<rparr>)"

text \<open>The pacer's inner loop: keep sending while behind the schedule.\<close>

definition settle :: "u64 \<Rightarrow> u64 \<Rightarrow> pacer" where
  "settle n w = (if n < w then PaceSend w else PaceWait)"

fun engine_step :: "engine \<Rightarrow> event \<Rightarrow> engine option" where
  "engine_step e (Clock now) = guard (clock e \<le> now) (e\<lparr>clock := now\<rparr>)"
| "engine_step e CtxCancel = guard (\<not> ctx_done e) (eng_Stop e)"
| "engine_step e Deadline =
     guard (\<not> ctx_done e \<and> 0 < Duration (cfg e) \<and> startNs e + Duration (cfg e) \<le> clock e) (e\<lparr>ctx_done := True\<rparr>)"
| "engine_step e (DelayOver i) =
     guard (is_Delaying (pc_at e i) \<and> startNs e + wait (pc_at e i) \<le> clock e) (goto_pc i Idle e)"
| "engine_step e (SeeDone i) =
     guard (ctx_done e \<and> (is_Delaying (pc_at e i) \<or> pc_at e i = Idle)) (goto_pc i Returned e)"
| "engine_step e (Receive i t) =
     guard (pc_at e i = Idle \<and> tokens e \<noteq> None \<and> the (tokens e) \<noteq> [] \<and> t = hd (the (tokens e)))
       (goto_pc i (Scheduled t) (e\<lparr>tokens := map_option tl (tokens e)\<rparr>))"
| "engine_step e (SeeClosed i) =
     guard (pc_at e i = Idle \<and> tokens e = Some [] \<and> tokens_closed e) (goto_pc i Returned e)"
| "engine_step e (Send i) =
     guard (pc_at e i = Idle \<and> tokens e = None \<and> \<not> ctx_done e) (goto_pc i (Scheduled (clock e)) e)"
| "engine_step e (Admit i k) =
     guard (is_Scheduled (pc_at e i) \<and> within_budget e \<and> k = idx (goroutines e ! i))
       (if k < length (Targets (cfg e)) then goto_pc i (Requesting (sched (pc_at e i)) k) (next_target i (draw e))
        else (draw e)\<lparr>panicked := Some IndexOutOfRange\<rparr>)"
| "engine_step e (Reject i) =
     guard (is_Scheduled (pc_at e i) \<and> \<not> within_budget e) (goto_pc i OverBudget (draw e))"
| "engine_step e (CallStop i) = guard (pc_at e i = OverBudget) (goto_pc i Returned (eng_Stop e))"
| "engine_step e (Complete i lat status n err) =
     guard (is_Requesting (pc_at e i) \<and> lat = i64 (clock e - sched (pc_at e i)))
       (goto_pc i Idle (record_result i lat status n err e))"
| "engine_step e (PaceTick now) =
     guard (pacing e = PaceWait \<and> startNs e \<le> now \<and> now \<le> clock e)
       (e\<lparr>pacing := settle (sent e)
          (u64_of_float (ExpectedRequests (Rate (cfg e)) (Ramp (cfg e)) (now - startNs e)))\<rparr>)"
| "engine_step e (PacePush t) =
     guard (is_PaceSend (pacing e) \<and> int (length (the (tokens e))) < Concurrency (cfg e)
            \<and> t = startNs e + ScheduleOffset (Rate (cfg e)) (Ramp (cfg e)) (sent e))
       (e\<lparr>tokens := map_option (\<lambda>ts. ts @ [t]) (tokens e), sent := sent e + 1,
          pacing := settle (sent e + 1) (want (pacing e))\<rparr>)"
| "engine_step e PaceStop =
     guard (ctx_done e \<and> (pacing e = PaceWait \<or> is_PaceSend (pacing e)))
       (e\<lparr>pacing := PaceReturned, tokens_closed := True\<rparr>)"
| "engine_step e Finish =
     guard (\<not> done_closed e \<and> (\<forall>g\<in>set (goroutines e). gpc g = Returned))
       (e\<lparr>endNs := clock e, done_closed := True\<rparr>)"

text \<open>A panic in one goroutine ends the program.\<close>

definition run_step :: "engine \<Rightarrow> event \<Rightarrow> engine option" where
  "run_step e ev = (if panicked e \<noteq> None then None else engine_step e ev)"

text \<open>The engines \<open>Run\<close> starts: built from a validated configuration.\<close>

definition started :: "engine \<Rightarrow> bool" where
  "started e \<longleftrightarrow> (\<exists>c now. valid_config c \<and> 0 < now \<and> e = Run now (NewWithRequester c))"

end
