(* ===== verification/Engine_Run.thy ===== *)
theory Engine_Run
  imports Engine
begin

text \<open>
  What the runs of the engine guarantee, for every interleaving of its goroutines. Each group of
  facts is an invariant over the events so far, kept by every step, and the locale \<open>machine\<close> carries
  it to all runs: nothing panics and the shards hold exactly the samples of the completed requests;
  the targets are used round robin; the request budget is exact; the tokens of the open model are
  received in schedule order, each once; a cancelled run drains.
\<close>

section \<open>The observable history\<close>

fun sample_of :: "nat \<Rightarrow> event \<Rightarrow> sample list" where
  "sample_of i (Complete j lat status n err) =
     (if i = j then [\<lparr>smp_latency = lat, smp_status = status, smp_bytes = n, smp_kind = Classify err\<rparr>] else [])"
| "sample_of i _ = []"

definition samples_at :: "nat \<Rightarrow> event list \<Rightarrow> sample list" where
  "samples_at i es = concat (map (sample_of i) es)"

lemma samples_at_simps [simp]:
  "samples_at i [] = []" "samples_at i (es @ [ev]) = samples_at i es @ sample_of i ev"
  by (simp_all add: samples_at_def)

lemmas step_defs = goto_pc_def draw_def next_target_def eng_Stop_def

lemma run_step_Some: "run_step e ev = Some e' \<longleftrightarrow> panicked e = None \<and> engine_step e ev = Some e'"
  by (auto simp: run_step_def)

lemma pc_at_active: "pc_at e i \<noteq> Returned \<Longrightarrow> i < length (goroutines e)"
  by (auto simp: pc_at_def split: if_splits)

lemma pc_at_active':
  "is_Scheduled (pc_at e i) \<Longrightarrow> i < length (goroutines e)" "is_Requesting (pc_at e i) \<Longrightarrow> i < length (goroutines e)"
  "is_Delaying (pc_at e i) \<Longrightarrow> i < length (goroutines e)"
  by (rule pc_at_active; auto)+

fun target_of :: "nat \<Rightarrow> event \<Rightarrow> nat list" where
  "target_of i (Admit j k) = (if i = j then [k] else [])"
| "target_of i _ = []"

definition targets_at :: "nat \<Rightarrow> event list \<Rightarrow> nat list" where
  "targets_at i es = concat (map (target_of i) es)"

lemma targets_at_simps [simp]:
  "targets_at i [] = []" "targets_at i (es @ [ev]) = targets_at i es @ target_of i ev"
  by (simp_all add: targets_at_def)

definition round_robin :: "nat \<Rightarrow> nat \<Rightarrow> nat \<Rightarrow> nat list" where
  "round_robin m i n = map (\<lambda>j. (i + j) mod m) [0..<n]"

definition run_inv :: "engine \<Rightarrow> event list \<Rightarrow> engine \<Rightarrow> bool" where
  "run_inv e0 es e \<longleftrightarrow> cfg e = cfg e0 \<and> startNs e = startNs e0 \<and> (tokens e = None \<longleftrightarrow> tokens e0 = None) \<and>
     length (goroutines e) = length (goroutines e0) \<and> panicked e = None \<and>
     shards e = map (\<lambda>i. shard_of (samples_at i es)) [0..<length (goroutines e0)]"

definition target_inv :: "engine \<Rightarrow> event list \<Rightarrow> engine \<Rightarrow> bool" where
  "target_inv e0 es e \<longleftrightarrow> (\<forall>i<length (goroutines e0).
     idx (goroutines e ! i) = (i + length (targets_at i es)) mod length (Targets (cfg e0)) \<and>
     targets_at i es = round_robin (length (Targets (cfg e0))) i (length (targets_at i es)))"

lemma record_result_exact:
  assumes "shards e = map (\<lambda>i. shard_of (f i)) [0..<n]" "i < n"
  shows "record_result i lat status m err e = e\<lparr>shards := map (\<lambda>j. shard_of (f j @
    sample_of j (Complete i lat status m err))) [0..<n]\<rparr>"
proof -
  let ?x = "\<lparr>smp_latency = lat, smp_status = status, smp_bytes = m, smp_kind = Classify err\<rparr>"
  have "Record (shards e ! i) lat status m (Classify err) = Inr (shard_of (f i @ [?x]))"
    using Record_shard_of [of "f i" ?x] assms by simp
  then show ?thesis using assms
    by (auto simp: record_result_def intro!: nth_equalityI engine.equality simp: nth_list_update)
qed

lemma idx_pc_update [simp]:
  "i < length gs \<Longrightarrow> idx (gs[j := (gs ! j)\<lparr>gpc := p\<rparr>] ! i) = idx (gs ! i)"
  by (cases "i = j") simp_all

lemma run_inv_step:
  assumes "Targets (cfg e0) \<noteq> []" "run_inv e0 es e" "target_inv e0 es e" "run_step e ev = Some e'"
  shows "run_inv e0 (es @ [ev]) e'"
proof (cases ev)
  case (Complete i lat status n err)
  then have i: "i < length (goroutines e)"
    using assms(4) pc_at_active'(2) by (auto simp: run_step_Some)
  have "e' = goto_pc i Idle (record_result i lat status n err e)"
    using Complete assms(4) by (simp add: run_step_Some)
  with i assms(2) Complete show ?thesis
    by (subst (asm) record_result_exact [of e "\<lambda>i. samples_at i es" "length (goroutines e0)"])
      (auto simp: run_inv_def goto_pc_def)
next
  case (Admit i k)
  then have i: "i < length (goroutines e)"
    using assms(4) pc_at_active'(1) by (auto simp: run_step_Some)
  then have "idx (goroutines e ! i) < length (Targets (cfg e))"
    using assms(1-3) by (auto simp: run_inv_def target_inv_def)
  with assms Admit show ?thesis by (auto simp: run_step_Some run_inv_def step_defs)
qed (use assms in \<open>auto simp: run_step_Some run_inv_def step_defs\<close>)

lemma target_inv_step:
  assumes "Targets (cfg e0) \<noteq> []" "run_inv e0 es e" "target_inv e0 es e" "run_step e ev = Some e'"
  shows "target_inv e0 (es @ [ev]) e'"
proof (cases ev)
  case (Complete i lat status n err)
  have "idx (goroutines e' ! j) = idx (goroutines e ! j)" if "j < length (goroutines e)" for j
    using that Complete assms(4) by (auto simp: run_step_Some goto_pc_def record_result_def split: sum.splits)
  with assms Complete show ?thesis by (auto simp: target_inv_def run_inv_def)
next
  case (Admit i k)
  then have i: "i < length (goroutines e)"
    using assms(4) pc_at_active'(1) by (auto simp: run_step_Some)
  then have "idx (goroutines e ! i) < length (Targets (cfg e))"
    using assms(1-3) by (auto simp: run_inv_def target_inv_def)
  with assms Admit i show ?thesis
    by (auto simp: run_step_Some run_inv_def target_inv_def step_defs round_robin_def nth_list_update mod_Suc_eq)
qed (use assms in \<open>auto simp: run_step_Some run_inv_def target_inv_def step_defs\<close>)

lemma started_inv:
  assumes "started e0"
  shows "Targets (cfg e0) \<noteq> []" "run_inv e0 [] e0" "target_inv e0 [] e0"
  using assms
  by (auto simp: started_def valid_config_def run_inv_def target_inv_def round_robin_def Run_def NewWithRequester_def
      launch_def NewShard_shard_of map_replicate_const)

interpretation run: machine run_step started "\<lambda>e0 es e. run_inv e0 es e \<and> target_inv e0 es e"
  by unfold_locales (use started_inv run_inv_step target_inv_step in blast)+

section \<open>The request budget\<close>

definition count_pc :: "(pc \<Rightarrow> bool) \<Rightarrow> engine \<Rightarrow> nat" where
  "count_pc P e = length (filter (\<lambda>g. P (gpc g)) (goroutines e))"

definition count_ev :: "(event \<Rightarrow> bool) \<Rightarrow> event list \<Rightarrow> nat" where
  "count_ev P es = length (filter P es)"

lemma count_ev_simps [simp]:
  "count_ev P [] = 0" "count_ev P (es @ [ev]) = count_ev P es + (if P ev then 1 else 0)"
  by (simp_all add: count_ev_def)

lemma count_pc_goto:
  assumes "i < length (goroutines e)"
  shows "count_pc P (goto_pc i p e) + (if P (pc_at e i) then 1 else 0) = count_pc P e + (if P p then 1 else 0)"
  using count_update [OF assms, of "\<lambda>g. P (gpc g)" "(goroutines e ! i)\<lparr>gpc := p\<rparr>"] assms
  by (simp add: count_pc_def goto_pc_def pc_at_def)

lemma count_pc_other [simp]:
  "count_pc P (e\<lparr>clock := t\<rparr>) = count_pc P e" "count_pc P (e\<lparr>ctx_done := b\<rparr>) = count_pc P e"
  "count_pc P (e\<lparr>tokens := ts\<rparr>) = count_pc P e" "count_pc P (eng_Stop e) = count_pc P e"
  "count_pc P (draw e) = count_pc P e" "count_pc P (e\<lparr>pacing := p\<rparr>) = count_pc P e"
  "count_pc P (e\<lparr>tokens := ts, sent := n, pacing := p\<rparr>) = count_pc P e"
  "count_pc P (e\<lparr>pacing := p, tokens_closed := b\<rparr>) = count_pc P e"
  "count_pc P (e\<lparr>endNs := t, done_closed := b\<rparr>) = count_pc P e"
  "count_pc P (record_result i lat st m err e) = count_pc P e"
  by (simp_all add: count_pc_def eng_Stop_def draw_def record_result_def split: sum.splits)

lemma count_pc_next_target [simp]: "count_pc P (next_target i e) = count_pc P e"
proof (cases "i < length (goroutines e)")
  case True
  then show ?thesis
    using count_update [OF True, of "\<lambda>g. P (gpc g)" "(goroutines e ! i)\<lparr>idx := (idx (goroutines e ! i) + 1) mod length (Targets (cfg e))\<rparr>"]
    by (simp add: count_pc_def next_target_def split: if_splits)
qed (simp add: count_pc_def next_target_def list_update_beyond)

lemma gpc_idx_update [simp]:
  "i < length gs \<Longrightarrow> gpc (gs[j := (gs ! j)\<lparr>idx := k\<rparr>] ! i) = gpc (gs ! i)"
  by (cases "i = j") simp_all

lemma pc_at_other [simp]:
  "pc_at (e\<lparr>tokens := ts\<rparr>) j = pc_at e j" "pc_at (eng_Stop e) j = pc_at e j" "pc_at (draw e) j = pc_at e j"
  "pc_at (record_result i lat st n err e) j = pc_at e j" "pc_at (next_target i e) j = pc_at e j"
  "length (goroutines (e\<lparr>tokens := ts\<rparr>)) = length (goroutines e)" "length (goroutines (eng_Stop e)) = length (goroutines e)"
  "length (goroutines (draw e)) = length (goroutines e)" "length (goroutines (next_target i e)) = length (goroutines e)"
  "length (goroutines (record_result i lat st n err e)) = length (goroutines e)"
  by (auto simp: pc_at_def eng_Stop_def draw_def record_result_def next_target_def split: sum.splits)

lemma count_pc_less: "i < length (goroutines e) \<Longrightarrow> \<not> P (pc_at e i) \<Longrightarrow> count_pc P e < length (goroutines e)"
  unfolding count_pc_def pc_at_def by (rule length_filter_less [of "goroutines e ! i"]) simp_all

text \<open>Which goroutine an event moves, from which and to which points of its program.\<close>

fun move_of :: "event \<Rightarrow> (nat \<times> (pc \<Rightarrow> bool) \<times> (pc \<Rightarrow> bool)) option" where
  "move_of (DelayOver i) = Some (i, is_Delaying, (=) Idle)"
| "move_of (SeeDone i) = Some (i, \<lambda>p. is_Delaying p \<or> p = Idle, (=) Returned)"
| "move_of (Receive i t) = Some (i, (=) Idle, (=) (Scheduled t))"
| "move_of (SeeClosed i) = Some (i, (=) Idle, (=) Returned)"
| "move_of (Send i) = Some (i, (=) Idle, is_Scheduled)"
| "move_of (Admit i k) = Some (i, is_Scheduled, is_Requesting)"
| "move_of (Reject i) = Some (i, is_Scheduled, (=) OverBudget)"
| "move_of (CallStop i) = Some (i, (=) OverBudget, (=) Returned)"
| "move_of (Complete i lat st n err) = Some (i, is_Requesting, (=) Idle)"
| "move_of _ = None"

text \<open>What the event does before it moves the goroutine.\<close>

fun before_move :: "engine \<Rightarrow> event \<Rightarrow> engine" where
  "before_move e (Receive i t) = e\<lparr>tokens := map_option tl (tokens e)\<rparr>"
| "before_move e (Admit i k) = next_target i (draw e)"
| "before_move e (Reject i) = draw e"
| "before_move e (CallStop i) = eng_Stop e"
| "before_move e (Complete i lat st n err) = record_result i lat st n err e"
| "before_move e _ = e"

lemma before_move_simps [simp]:
  "length (goroutines (before_move e ev)) = length (goroutines e)" "pc_at (before_move e ev) j = pc_at e j"
  "count_pc P (before_move e ev) = count_pc P e"
  by (cases ev; simp)+

lemma step_goto:
  assumes "run_step e ev = Some e'" "panicked e' = None" "move_of ev = Some (i, A, B)"
  shows "\<exists>q. e' = goto_pc i q (before_move e ev) \<and> A (pc_at e i) \<and> B q \<and> i < length (goroutines e)"
  using assms by (cases ev) (auto simp: run_step_Some pc_at_active pc_at_active' split: if_splits)

lemma step_count:
  assumes "run_step e ev = Some e'" "panicked e' = None"
  shows "case move_of ev of
      Some (i, A, B) \<Rightarrow> (\<exists>q. A (pc_at e i) \<and> B q \<and> i < length (goroutines e) \<and>
        count_pc P e' + (if P (pc_at e i) then 1 else 0) = count_pc P e + (if P q then 1 else 0))
    | None \<Rightarrow> count_pc P e' = count_pc P e"
proof (cases "move_of ev")
  case None
  with assms show ?thesis by (cases ev) (auto simp: run_step_Some count_pc_def eng_Stop_def)
next
  case (Some m)
  obtain i A B where m: "m = (i, A, B)" by (cases m)
  with step_goto [OF assms] Some obtain q where
    "e' = goto_pc i q (before_move e ev)" "A (pc_at e i)" "B q" "i < length (goroutines e)" by blast
  then show ?thesis
    using count_pc_goto [of i "before_move e ev"] Some m by auto
qed

fun is_out :: "pc \<Rightarrow> bool" where
  "is_out OverBudget = True"
| "is_out Returned = True"
| "is_out _ = False"

lemma not_out [simp]:
  "is_Requesting p \<Longrightarrow> \<not> is_out p" "is_Scheduled p \<Longrightarrow> \<not> is_out p" "is_Delaying p \<Longrightarrow> \<not> is_out p"
  by (cases p; simp)+

definition budget_inv :: "engine \<Rightarrow> event list \<Rightarrow> engine \<Rightarrow> bool" where
  "budget_inv e0 es e \<longleftrightarrow>
     count_ev is_Complete es + count_pc is_Requesting e = count_ev is_Admit es \<and>
     count_ev is_Reject es \<le> count_pc is_out e \<and>
     (if 0 < MaxRequests (cfg e0)
      then unat (issued e) = count_ev is_Admit es + count_ev is_Reject es \<and>
           count_ev is_Admit es \<le> unat (MaxRequests (cfg e0)) \<and>
           (0 < count_ev is_Reject es \<longrightarrow> count_ev is_Admit es = unat (MaxRequests (cfg e0)))
      else count_ev is_Reject es = 0)"

definition fits_budget :: "engine \<Rightarrow> bool" where
  "fits_budget e \<longleftrightarrow> unat (MaxRequests (cfg e)) + length (goroutines e) < 2 ^ 64"

lemma issued_frame:
  "run_step e ev = Some e' \<Longrightarrow> panicked e' = None \<Longrightarrow>
     issued e' = (if (is_Admit ev \<or> is_Reject ev) \<and> 0 < MaxRequests (cfg e) then issued e + 1 else issued e)"
  by (cases ev) (auto simp: run_step_Some step_defs record_result_def split: if_splits sum.splits)

lemma draw_decision:
  assumes "run_step e ev = Some e'" "is_Admit ev \<or> is_Reject ev"
  shows "is_Reject ev \<longleftrightarrow> 0 < MaxRequests (cfg e) \<and> MaxRequests (cfg e) < issued e + 1"
  using assms by (cases ev) (auto simp: run_step_Some within_budget_def draw_def split: if_splits)

lemma budget_inv_step:
  assumes fits: "fits_budget e0" and run: "run_inv e0 es e" and inv: "budget_inv e0 es e"
    and step: "run_step e ev = Some e'" and ok: "panicked e' = None"
  shows "budget_inv e0 (es @ [ev]) e'"
proof (cases "is_Admit ev \<or> is_Reject ev")
  case False
  have "count_ev is_Complete (es @ [ev]) + count_pc is_Requesting e' = count_ev is_Complete es + count_pc is_Requesting e"
    using step_count [OF step ok, of is_Requesting] False by (cases ev) auto
  then have "count_ev is_Complete (es @ [ev]) + count_pc is_Requesting e' = count_ev is_Admit (es @ [ev])"
    using inv False by (simp add: budget_inv_def)
  moreover have "count_pc is_out e \<le> count_pc is_out e'"
    using step_count [OF step ok, of is_out] False by (cases ev) auto
  then have "count_ev is_Reject (es @ [ev]) \<le> count_pc is_out e'"
    using inv False by (simp add: budget_inv_def)
  moreover have "issued e' = issued e" using False issued_frame [OF step ok] by auto
  ultimately show ?thesis using False inv unfolding budget_inv_def by simp
next
  case True
  then have counts: "count_pc is_Requesting e' = count_pc is_Requesting e + (if is_Admit ev then 1 else 0)"
    "count_pc is_out e' = count_pc is_out e + (if is_Admit ev then 0 else 1)"
    using step_count [OF step ok, of is_Requesting] step_count [OF step ok, of is_out] by (cases ev; auto)+
  obtain i where "is_Scheduled (pc_at e i)" using True step by (cases ev) (auto simp: run_step_Some)
  then have "count_pc is_out e < length (goroutines e)"
    using pc_at_active' by (intro count_pc_less [of i]) auto
  then have room: "0 < MaxRequests (cfg e0) \<Longrightarrow> count_ev is_Admit es + count_ev is_Reject es + 1 < 2 ^ 64"
    using inv run fits by (auto simp: budget_inv_def run_inv_def fits_budget_def)
  have cfg: "cfg e = cfg e0" using run by (simp add: run_inv_def)
  have issued: "0 < MaxRequests (cfg e0) \<Longrightarrow> unat (issued e') = unat (issued e) + 1"
    using True room inv issued_frame [OF step ok] cfg by (auto simp: budget_inv_def unat_word_ariths)
  have decision: "is_Reject ev \<longleftrightarrow> 0 < MaxRequests (cfg e0) \<and> unat (MaxRequests (cfg e0)) < unat (issued e) + 1"
    using draw_decision [OF step True] cfg issued issued_frame [OF step ok] True by (auto simp: word_less_nat_alt)
  have kinds: "is_Admit ev \<longleftrightarrow> \<not> is_Reject ev" "\<not> is_Complete ev" using True by (cases ev; auto)+
  have "count_ev is_Complete (es @ [ev]) + count_pc is_Requesting e' = count_ev is_Admit (es @ [ev])"
    "count_ev is_Reject (es @ [ev]) \<le> count_pc is_out e'"
    using inv counts kinds by (simp_all add: budget_inv_def)
  moreover have "if 0 < MaxRequests (cfg e0)
      then unat (issued e') = count_ev is_Admit (es @ [ev]) + count_ev is_Reject (es @ [ev]) \<and>
           count_ev is_Admit (es @ [ev]) \<le> unat (MaxRequests (cfg e0)) \<and>
           (0 < count_ev is_Reject (es @ [ev]) \<longrightarrow> count_ev is_Admit (es @ [ev]) = unat (MaxRequests (cfg e0)))
      else count_ev is_Reject (es @ [ev]) = 0"
    using inv issued decision kinds(1) unfolding budget_inv_def by (cases "is_Reject ev") auto
  ultimately show ?thesis unfolding budget_inv_def by simp
qed

section \<open>Why a run ends\<close>

lemma ctx_done_frame:
  "run_step e ev = Some e' \<Longrightarrow>
     ctx_done e' = (ctx_done e \<or> ev = CtxCancel \<or> ev = Deadline \<or> is_CallStop ev)"
  by (cases ev) (auto simp: run_step_Some step_defs record_result_def split: if_splits sum.splits)

lemma tokens_closed_frame:
  "run_step e ev = Some e' \<Longrightarrow> tokens_closed e' = (tokens_closed e \<or> ev = PaceStop) \<and> (ev = PaceStop \<longrightarrow> ctx_done e)"
  by (cases ev) (auto simp: run_step_Some step_defs record_result_def split: if_splits sum.splits)

lemma count_pc_pos: "0 < count_pc P e \<longleftrightarrow> (\<exists>i<length (goroutines e). P (pc_at e i))"
  by (simp add: count_pc_def pc_at_def filter_empty_conv all_set_conv_all_nth cong: conj_cong)

lemma exit_guard:
  "run_step e ev = Some e' \<Longrightarrow> is_SeeDone ev \<Longrightarrow> ctx_done e"
  "run_step e ev = Some e' \<Longrightarrow> is_SeeClosed ev \<Longrightarrow> tokens_closed e"
  "run_step e ev = Some e' \<Longrightarrow> is_CallStop ev \<Longrightarrow> 0 < count_pc ((=) OverBudget) e"
proof -
  show "run_step e ev = Some e' \<Longrightarrow> is_SeeDone ev \<Longrightarrow> ctx_done e"
    "run_step e ev = Some e' \<Longrightarrow> is_SeeClosed ev \<Longrightarrow> tokens_closed e"
    by (cases ev; simp add: run_step_Some)+
  show "run_step e ev = Some e' \<Longrightarrow> is_CallStop ev \<Longrightarrow> 0 < count_pc ((=) OverBudget) e"
    by (cases ev) (auto simp: run_step_Some count_pc_pos intro!: exI pc_at_active)
qed

lemma returned_by:
  assumes "run_step e ev = Some e'" "panicked e' = None" "0 < count_pc ((=) Returned) e'"
  shows "0 < count_pc ((=) Returned) e \<or> is_SeeDone ev \<or> is_SeeClosed ev \<or> is_CallStop ev"
  using step_count [OF assms(1,2), of "(=) Returned"] assms(3) by (cases ev) auto

lemma over_budget_by:
  assumes "run_step e ev = Some e'" "panicked e' = None" "0 < count_pc ((=) OverBudget) e'"
  shows "0 < count_pc ((=) OverBudget) e \<or> is_Reject ev"
  using step_count [OF assms(1,2), of "(=) OverBudget"] assms(3) by (cases ev) auto

text \<open>Once every goroutine has returned none of them moves again.\<close>

definition all_returned :: "engine \<Rightarrow> bool" where
  "all_returned e \<longleftrightarrow> (\<forall>g\<in>set (goroutines e). gpc g = Returned)"

lemma all_returned_pc: "all_returned e \<Longrightarrow> pc_at e i = Returned"
  by (simp add: all_returned_def pc_at_def)

lemma all_returned_step:
  assumes "all_returned e" "run_step e ev = Some e'"
  shows "all_returned e'"
  using assms all_returned_pc [OF assms(1)] by (cases ev) (auto simp: run_step_Some all_returned_def eng_Stop_def)

lemma done_closed_frame:
  "run_step e ev = Some e' \<Longrightarrow> done_closed e' = (done_closed e \<or> ev = Finish) \<and> (ev = Finish \<longrightarrow> all_returned e)"
  by (cases ev) (auto simp: run_step_Some step_defs all_returned_def record_result_def split: if_splits sum.splits)

definition stop_inv :: "event list \<Rightarrow> engine \<Rightarrow> bool" where
  "stop_inv es e \<longleftrightarrow>
     (ctx_done e \<longrightarrow> CtxCancel \<in> set es \<or> Deadline \<in> set es \<or> 0 < count_ev is_Reject es) \<and>
     (tokens_closed e \<longrightarrow> ctx_done e) \<and>
     (0 < count_pc ((=) OverBudget) e \<longrightarrow> 0 < count_ev is_Reject es) \<and>
     (0 < count_pc ((=) Returned) e \<longrightarrow> ctx_done e) \<and>
     (done_closed e \<longrightarrow> all_returned e)"

lemma stop_inv_step:
  assumes inv: "stop_inv es e" and step: "run_step e ev = Some e'" and ok: "panicked e' = None"
  shows "stop_inv (es @ [ev]) e'"
proof -
  have over: "0 < count_pc ((=) OverBudget) e' \<Longrightarrow> 0 < count_ev is_Reject (es @ [ev])"
    using over_budget_by [OF step ok] inv by (auto simp: stop_inv_def)
  have "is_CallStop ev \<Longrightarrow> 0 < count_ev is_Reject es"
    using exit_guard(3) [OF step] inv by (auto simp: stop_inv_def)
  then have "ctx_done e' \<Longrightarrow> CtxCancel \<in> set (es @ [ev]) \<or> Deadline \<in> set (es @ [ev]) \<or> 0 < count_ev is_Reject (es @ [ev])"
    using ctx_done_frame [OF step] inv by (auto simp: stop_inv_def)
  moreover have closed: "tokens_closed e' \<Longrightarrow> ctx_done e'"
    using tokens_closed_frame [OF step] ctx_done_frame [OF step] inv by (auto simp: stop_inv_def)
  moreover have "0 < count_pc ((=) Returned) e' \<Longrightarrow> ctx_done e'"
    using returned_by [OF step ok] exit_guard [OF step] ctx_done_frame [OF step] inv by (auto simp: stop_inv_def)
  moreover have "done_closed e' \<Longrightarrow> all_returned e'"
    using done_closed_frame [OF step] all_returned_step [OF _ step] inv by (auto simp: stop_inv_def)
  ultimately show ?thesis using over by (simp add: stop_inv_def)
qed


section \<open>The tokens of the open model\<close>

fun pushed_by :: "event \<Rightarrow> gotime list" where
  "pushed_by (PacePush t) = [t]"
| "pushed_by _ = []"

fun received_by :: "event \<Rightarrow> gotime list" where
  "received_by (Receive i t) = [t]"
| "received_by _ = []"

definition pushed :: "event list \<Rightarrow> gotime list" where
  "pushed es = concat (map pushed_by es)"

definition received :: "event list \<Rightarrow> gotime list" where
  "received es = concat (map received_by es)"

lemma token_history [simp]:
  "pushed [] = []" "pushed (es @ [ev]) = pushed es @ pushed_by ev"
  "received [] = []" "received (es @ [ev]) = received es @ received_by ev"
  by (simp_all add: pushed_def received_def)

text \<open>The intended send times of the first \<open>n\<close> requests.\<close>

definition schedule :: "engine \<Rightarrow> nat \<Rightarrow> gotime list" where
  "schedule e n = map (\<lambda>k. startNs e + ScheduleOffset (Rate (cfg e)) (Ramp (cfg e)) (of_nat k)) [0..<n]"

definition token_inv :: "engine \<Rightarrow> event list \<Rightarrow> engine \<Rightarrow> bool" where
  "token_inv e0 es e \<longleftrightarrow>
     (case tokens e of
        None \<Rightarrow> pacing e = NoPacer \<and> pushed es = [] \<and> received es = []
      | Some ts \<Rightarrow> pushed es = received es @ ts \<and> pushed es = schedule e0 (unat (sent e)) \<and>
          int (length ts) \<le> Concurrency (cfg e0) \<and>
          (is_PaceSend (pacing e) \<longrightarrow> sent e < want (pacing e)))"

lemma tokens_frame:
  "run_step e ev = Some e' \<Longrightarrow> \<not> is_Receive ev \<Longrightarrow> \<not> is_PacePush ev \<Longrightarrow> \<not> is_PaceTick ev \<Longrightarrow> ev \<noteq> PaceStop \<Longrightarrow>
     tokens e' = tokens e \<and> pacing e' = pacing e \<and> sent e' = sent e \<and> pushed_by ev = [] \<and> received_by ev = []"
  by (cases ev) (auto simp: run_step_Some step_defs record_result_def split: if_splits sum.splits)

lemma settle_want: "is_PaceSend (settle n w) \<longleftrightarrow> n < w" "n < w \<Longrightarrow> want (settle n w) = w"
  by (simp_all add: settle_def)

lemma token_inv_step:
  assumes run: "run_inv e0 es e" and inv: "token_inv e0 es e" and step: "run_step e ev = Some e'"
  shows "token_inv e0 (es @ [ev]) e'"
proof -
  consider "is_Receive ev" | "is_PacePush ev" | "is_PaceTick ev \<or> ev = PaceStop"
    | "\<not> is_Receive ev" "\<not> is_PacePush ev" "\<not> is_PaceTick ev" "ev \<noteq> PaceStop" by blast
  then show ?thesis
  proof cases
    case 1
    then obtain i t where ev: "ev = Receive i t" by (cases ev) auto
    then obtain ts where "tokens e = Some (t # ts)" using step by (auto simp: run_step_Some neq_Nil_conv)
    moreover from this ev step have "tokens e' = Some ts" "pacing e' = pacing e" "sent e' = sent e"
      by (auto simp: run_step_Some goto_pc_def)
    ultimately show ?thesis using inv ev by (auto simp: token_inv_def)
  next
    case 2
    then obtain t where ev: "ev = PacePush t" by (cases ev) auto
    then have g: "is_PaceSend (pacing e)" "int (length (the (tokens e))) < Concurrency (cfg e)"
      "t = startNs e + ScheduleOffset (Rate (cfg e)) (Ramp (cfg e)) (sent e)"
      and e': "tokens e' = map_option (\<lambda>ts. ts @ [t]) (tokens e)" "sent e' = sent e + 1"
        "pacing e' = settle (sent e + 1) (want (pacing e))"
      using step by (auto simp: run_step_Some)
    obtain ts where ts: "tokens e = Some ts" using inv g(1) by (auto simp: token_inv_def split: option.splits)
    with inv g(1) have "sent e < want (pacing e)" by (simp add: token_inv_def)
    then have "unat (sent e + 1) = Suc (unat (sent e))" by (rule unat_Suc_below)
    then show ?thesis using inv run ev g e' ts
      by (auto simp: token_inv_def run_inv_def schedule_def settle_want)
  next
    case 3
    then show ?thesis using inv step
      by (cases ev) (auto simp: run_step_Some token_inv_def settle_want split: option.splits)
  next
    case 4
    with tokens_frame [OF step] inv show ?thesis by (simp add: token_inv_def cong: option.case_cong)
  qed
qed


section \<open>All invariants together\<close>

definition engine_inv :: "engine \<Rightarrow> event list \<Rightarrow> engine \<Rightarrow> bool" where
  "engine_inv e0 es e \<longleftrightarrow> run_inv e0 es e \<and> target_inv e0 es e \<and> stop_inv es e \<and> token_inv e0 es e \<and>
     (fits_budget e0 \<longrightarrow> budget_inv e0 es e)"

lemma count_pc_launch:
  "started e0 \<Longrightarrow> (\<And>d. \<not> P (Delaying d)) \<Longrightarrow> \<not> P Idle \<Longrightarrow> count_pc P e0 = 0"
  by (auto simp: started_def count_pc_def Run_def launch_def filter_empty_conv split: if_splits)

lemma started_simps:
  assumes "started e0"
  shows "issued e0 = 0" "sent e0 = 0" "\<not> ctx_done e0" "\<not> tokens_closed e0" "\<not> done_closed e0"
    "int (length (goroutines e0)) = Concurrency (cfg e0)" "0 < length (goroutines e0)" "valid_config (cfg e0)"
    "tokens e0 = (if 0 < Rate (cfg e0) then Some [] else None)" "startNs e0 \<noteq> 0"
    "pacing e0 = (if 0 < Rate (cfg e0) then PaceWait else NoPacer)" "endNs e0 = 0" "clock e0 = startNs e0"
  using assms by (auto simp: started_def valid_config_def Run_def NewWithRequester_def)

lemma engine_inv_start: "started e0 \<Longrightarrow> engine_inv e0 [] e0"
  using started_inv [of e0] started_simps [of e0] count_pc_launch [of e0]
  by (auto simp: engine_inv_def stop_inv_def token_inv_def budget_inv_def schedule_def valid_config_def)

lemma engine_inv_step:
  assumes "started e0" "engine_inv e0 es e" "run_step e ev = Some e'"
  shows "engine_inv e0 (es @ [ev]) e'"
proof -
  have run: "run_inv e0 (es @ [ev]) e'"
    using assms started_inv(1) run_inv_step by (auto simp: engine_inv_def)
  then have "panicked e' = None" by (simp add: run_inv_def)
  with run assms started_inv(1) [OF assms(1)] show ?thesis
    using target_inv_step stop_inv_step token_inv_step budget_inv_step unfolding engine_inv_def by blast
qed

interpretation engine: machine run_step started engine_inv
  by unfold_locales (use engine_inv_start engine_inv_step in blast)+

section \<open>Draining a cancelled run\<close>

text \<open>How many more actions a goroutine can take once the context is done and no tokens flow.\<close>

fun rank :: "pc \<Rightarrow> nat" where
  "rank Returned = 0"
| "rank Idle = 1"
| "rank OverBudget = 1"
| "rank (Requesting t k) = 2"
| "rank (Delaying d) = 2"
| "rank (Scheduled t) = 3"

lemma rank_disc [simp]:
  "is_Requesting p \<Longrightarrow> rank p = 2" "is_Delaying p \<Longrightarrow> rank p = 2" "is_Scheduled p \<Longrightarrow> rank p = 3"
  by (cases p; simp)+

definition work :: "engine \<Rightarrow> nat" where
  "work e = sum_list (map (\<lambda>g. rank (gpc g)) (goroutines e)) + (if done_closed e then 0 else 1)"

lemma work_goto:
  assumes "i < length (goroutines e)" "rank q < rank (pc_at e i)"
  shows "work (goto_pc i q e) < work e"
proof -
  let ?rs = "map (\<lambda>g. rank (gpc g)) (goroutines e)"
  have "map (\<lambda>g. rank (gpc g)) (goroutines (goto_pc i q e)) = ?rs[i := rank q]"
    by (simp add: goto_pc_def map_update)
  moreover have "?rs ! i \<le> sum_list ?rs" using assms(1) by (intro elem_le_sum_list) simp
  ultimately show ?thesis using assms by (simp add: work_def goto_pc_def sum_list_update pc_at_def)
qed

lemma work_before_move [simp]: "work (before_move e ev) = work e"
proof (cases ev)
  case (Admit i k)
  have "map (\<lambda>g. rank (gpc g)) (goroutines (next_target i (draw e))) = map (\<lambda>g. rank (gpc g)) (goroutines e)"
    by (rule nth_equalityI) (auto simp: next_target_def draw_def split: if_splits)
  with Admit show ?thesis by (simp add: work_def next_target_def draw_def)
qed (simp_all add: work_def eng_Stop_def draw_def record_result_def split: sum.splits)

lemma work_step:
  assumes "run_step e ev = Some e'" "panicked e' = None" "ctx_done e" "tokens e = None" "pacing e = NoPacer"
  shows "if is_Clock ev then work e' = work e else work e' < work e"
proof (cases "move_of ev")
  case None
  with assms show ?thesis by (cases ev) (auto simp: run_step_Some work_def)
next
  case (Some m)
  obtain i A B where m: "m = (i, A, B)" by (cases m)
  with Some step_goto [OF assms(1,2)] obtain q where q: "e' = goto_pc i q (before_move e ev)" "A (pc_at e i)" "B q"
    "i < length (goroutines e)" by blast
  have "rank q < rank (pc_at e i)"
  proof -
    have "\<not> is_Send ev" "\<not> is_Receive ev"
      using assms(1,3,4) by (auto simp: run_step_Some is_Send_def is_Receive_def)
    then show ?thesis using Some m q(2,3) by (cases ev) auto
  qed
  moreover have "\<not> is_Clock ev" using Some by (cases ev) auto
  ultimately show ?thesis using q work_goto [of i "before_move e ev" q] by simp
qed

lemma work_bound: "work e \<le> 3 * length (goroutines e) + 1"
proof -
  have "rank p \<le> 3" for p by (cases p) simp_all
  then have "sum_list (map (\<lambda>g. rank (gpc g)) gs) \<le> 3 * length gs" for gs by (induction gs) (simp_all add: add_mono)
  from this [of "goroutines e"] show ?thesis by (simp add: work_def)
qed

lemma closed_model_frame:
  "engine_inv e0 es e \<Longrightarrow> tokens e0 = None \<Longrightarrow> tokens e = None \<and> pacing e = NoPacer \<and> panicked e = None"
  by (auto simp: engine_inv_def run_inv_def token_inv_def)

lemma drain_bound:
  assumes "started e0" "tokens e0 = None" "exec run_step e0 es = Some e" "ctx_done e" "exec run_step e fs = Some e'"
  shows "count_ev (\<lambda>ev. \<not> is_Clock ev) fs + work e' \<le> work e \<and> ctx_done e'"
  using assms(5)
proof (induction fs arbitrary: e' rule: rev_induct)
  case (snoc ev fs)
  then obtain r where r: "exec run_step e fs = Some r" "run_step r ev = Some e'" by (auto simp: exec_snoc)
  then have "exec run_step e0 (es @ fs) = Some r" "exec run_step e0 (es @ fs @ [ev]) = Some e'"
    using assms(3) by (simp_all add: exec_append)
  then have inv: "engine_inv e0 (es @ fs) r" "engine_inv e0 (es @ fs @ [ev]) e'"
    using assms(1) engine.inv_exec by blast+
  have ih: "count_ev (\<lambda>ev. \<not> is_Clock ev) fs + work r \<le> work e" "ctx_done r" using snoc.IH r(1) by blast+
  have "if is_Clock ev then work e' = work r else work e' < work r"
    using work_step [OF r(2)] closed_model_frame [OF inv(1) assms(2)] closed_model_frame [OF inv(2) assms(2)] ih(2) by simp
  moreover have "ctx_done e'" using ctx_done_frame [OF r(2)] ih(2) by simp
  ultimately show ?case using ih(1) by (simp split: if_splits)
qed (simp add: assms(4))

lemma drain_progress:
  assumes "panicked e = None" "ctx_done e" "\<not> done_closed e"
  shows "\<exists>ev. \<not> is_Clock ev \<and> run_step e ev \<noteq> None"
proof (cases "all_returned e")
  case True
  then show ?thesis using assms by (intro exI [of _ Finish]) (simp add: run_step_def all_returned_def guard_def)
next
  case False
  then obtain i where i: "i < length (goroutines e)" "pc_at e i \<noteq> Returned"
    by (auto simp: all_returned_def in_set_conv_nth pc_at_def)
  then show ?thesis
  proof (cases "pc_at e i")
    case (Scheduled t)
    then show ?thesis using assms(1)
      by (cases "within_budget e")
        (auto simp: run_step_def guard_def intro: exI [of _ "Admit i (idx (goroutines e ! i))"] exI [of _ "Reject i"])
  next
    case (Requesting t k)
    then show ?thesis using assms(1)
      by (intro exI [of _ "Complete i (i64 (clock e - t)) 200 0 None"]) (simp add: run_step_def guard_def)
  next
    case OverBudget
    then show ?thesis using assms(1) by (intro exI [of _ "CallStop i"]) (simp add: run_step_def guard_def)
  qed (use assms i in \<open>auto simp: run_step_def guard_def intro!: exI [of _ "SeeDone i"]\<close>)
qed

section \<open>Properties\<close>

lemma Record_step [simp]:
  "Record (shard_of xs) lat st n k =
     Inr (shard_of (xs @ [\<lparr>smp_latency = lat, smp_status = st, smp_bytes = n, smp_kind = k\<rparr>]))"
  using Record_shard_of [of xs "\<lparr>smp_latency = lat, smp_status = st, smp_bytes = n, smp_kind = k\<rparr>"] by simp

text \<open>A small run for the witnesses: one goroutine, a budget of one request.\<close>

definition demo_config :: config where
  "demo_config = \<lparr>Targets = [\<lparr>Method = ''GET'', URL = ''http://h/'', Body = [], Headers = Mapping.empty\<rparr>],
     cfg_Mode = ModeHTTP1, Concurrency = 1, Connections = 0, Rate = 0, Duration = 0, MaxRequests = 1,
     Timeout = Second, Ramp = 0, Insecure = False, DisableKeepAlive = False, GRPCService = []\<rparr>"

definition demo_run :: "event list" where
  "demo_run = [Send 0, Admit 0 0, Clock 2001000, Complete 0 2000000 200 5 None, Send 0, Reject 0, CallStop 0, Finish]"

definition demo_engine :: engine where
  "demo_engine = Run 1000 (NewWithRequester demo_config)"

lemma valid_demo: "valid_config demo_config"
  by (simp add: valid_config_def demo_config_def mode_defs to_upper_def upper_char_def http_url_def has_prefix_def)

lemma started_demo: "started demo_engine"
  unfolding started_def demo_engine_def using valid_demo by (intro exI conjI) simp_all

lemmas demo_simps = demo_engine_def Run_def NewWithRequester_def demo_config_def demo_run_def launch_def start_delay_def
  run_step_def guard_def pc_at_def step_defs within_budget_def record_result_def NewShard_shard_of i64_def

definition demo_final :: engine where
  "demo_final = the (exec run_step demo_engine demo_run)"

lemma demo_exec: "exec run_step demo_engine demo_run = Some demo_final"
proof -
  have "exec run_step demo_engine demo_run \<noteq> None" by (simp add: demo_simps)
  then show ?thesis by (simp add: demo_final_def)
qed

lemma demo_final_simps: "done_closed demo_final" "goroutines demo_engine = [\<lparr>gpc = Idle, idx = 0\<rparr>]"
   "eng_Elapsed demo_final = 2000000"
  by (simp_all add: demo_final_def eng_Elapsed_def demo_simps)


lemma run_snapshot:
  assumes "started e0" "exec run_step e0 es = Some e"
  shows "panicked e = None \<and>
    eng_Snapshot e = Inr (snapshot_of (eng_Elapsed e) (concat (map (\<lambda>i. samples_at i es) [0..<length (goroutines e0)])))"
proof -
  have inv: "run_inv e0 es e" using engine.inv_exec [OF assms] by (simp add: engine_inv_def)
  then have "shards e = map shard_of (map (\<lambda>i. samples_at i es) [0..<length (goroutines e0)])"
    by (simp add: run_inv_def)
  then have "eng_Snapshot e = bind_ok (Inr (snapshot_of 0 (concat (map (\<lambda>i. samples_at i es) [0..<length (goroutines e0)]))))
      (\<lambda>sn. Inr (sn\<lparr>Elapsed := eng_Elapsed e\<rparr>))"
    using AddShard_list [of "map (\<lambda>i. samples_at i es) [0..<length (goroutines e0)]" 0 "[]"]
    by (simp only: eng_Snapshot_def NewSnapshot_snapshot_of append_Nil)
  with inv show ?thesis by (simp add: snapshot_of_def run_inv_def)
qed



lemma run_budget:
  assumes "started e0" "fits_budget e0" "0 < MaxRequests (cfg e0)" "exec run_step e0 es = Some e"
  shows "count_ev is_Complete es + count_pc is_Requesting e \<le> unat (MaxRequests (cfg e0)) \<and>
    (done_closed e \<and> CtxCancel \<notin> set es \<and> Deadline \<notin> set es \<longrightarrow>
       count_ev is_Complete es = unat (MaxRequests (cfg e0)))"
proof -
  have inv: "budget_inv e0 es e" "stop_inv es e" "run_inv e0 es e"
    using engine.inv_exec [OF assms(1,4)] assms(2) by (simp_all add: engine_inv_def)
  have "count_ev is_Complete es = unat (MaxRequests (cfg e0))"
    if d: "done_closed e" and free: "CtxCancel \<notin> set es" "Deadline \<notin> set es"
  proof -
    have r: "all_returned e" using inv(2) d by (simp add: stop_inv_def)
    have "0 < length (goroutines e)" using inv(3) started_simps(7) [OF assms(1)] by (simp add: run_inv_def)
    then have "0 < count_pc ((=) Returned) e" using all_returned_pc [OF r] by (auto simp: count_pc_pos)
    then have "0 < count_ev is_Reject es" using inv(2) free by (auto simp: stop_inv_def)
    moreover have "\<not> 0 < count_pc is_Requesting e" using all_returned_pc [OF r] by (simp add: count_pc_pos)
    ultimately show ?thesis using inv(1) assms(3) by (simp add: budget_inv_def)
  qed
  moreover have "count_ev is_Complete es + count_pc is_Requesting e \<le> unat (MaxRequests (cfg e0))"
    using inv(1) assms(3) by (simp add: budget_inv_def)
  ultimately show ?thesis by blast
qed

text \<open>C3: A request budget is exact. At no moment have more requests been completed or put in flight
  than \<open>MaxRequests\<close>, however the goroutines interleave; and a run that neither was cancelled nor
  hit its deadline ends having completed exactly \<open>MaxRequests\<close>.\<close>

theorem engine_budget_exact:
  assumes "started e0" "fits_budget e0" "0 < MaxRequests (cfg e0)" "exec run_step e0 es = Some e"
  shows "count_ev is_Complete es + count_pc is_Requesting e \<le> unat (MaxRequests (cfg e0)) \<and>
    (done_closed e \<and> CtxCancel \<notin> set es \<and> Deadline \<notin> set es \<longrightarrow>
       count_ev is_Complete es = unat (MaxRequests (cfg e0)))"
  using assms by (rule run_budget)

theorem engine_budget_exact_witness: "count_ev is_Complete demo_run = 1 \<and> done_closed demo_final"
proof -
  have "fits_budget demo_engine" "0 < MaxRequests (cfg demo_engine)" "unat (MaxRequests (cfg demo_engine)) = 1"
    "CtxCancel \<notin> set demo_run" "Deadline \<notin> set demo_run"
    by (simp_all add: fits_budget_def demo_simps)
  then show ?thesis using engine_budget_exact [OF started_demo _ _ demo_exec] demo_final_simps(1) by simp
qed

lemma run_tokens:
  assumes "started e0" "0 < Rate (cfg e0)" "exec run_step e0 es = Some e"
  shows "\<exists>ts. tokens e = Some ts \<and> received es @ ts = schedule e0 (unat (sent e)) \<and> int (length ts) \<le> Concurrency (cfg e0)"
proof -
  have "run_inv e0 es e" "token_inv e0 es e" using engine.inv_exec [OF assms(1,3)] by (simp_all add: engine_inv_def)
  moreover have "tokens e0 \<noteq> None" using started_simps(9) [OF assms(1)] assms(2) by simp
  ultimately show ?thesis by (auto simp: run_inv_def token_inv_def split: option.splits)
qed

text \<open>C13: In the open model the send times are received in schedule order, each exactly once: the
  tokens received so far, followed by the ones buffered in the channel, are the first \<open>sent\<close> times
  of the schedule, and at most \<open>Concurrency\<close> of them wait in the buffer.\<close>

theorem engine_tokens_in_order:
  assumes "started e0" "0 < Rate (cfg e0)" "exec run_step e0 es = Some e"
  shows "\<exists>ts. tokens e = Some ts \<and> received es @ ts = schedule e0 (unat (sent e)) \<and>
    int (length ts) \<le> Concurrency (cfg e0)"
  using assms by (rule run_tokens)

text \<open>A run of the open model: two requests per second, a tick after one second.\<close>

definition paced_engine :: engine where
  "paced_engine = Run 1000 (NewWithRequester (demo_config\<lparr>Rate := 2\<rparr>))"

definition paced_run :: "event list" where
  "paced_run = [Clock 1000001000, PaceTick 1000001000, PacePush 1000, Receive 0 1000]"

lemma started_paced: "started paced_engine"
proof -
  have "valid_config (demo_config\<lparr>Rate := 2\<rparr>)" using valid_demo by (simp add: valid_config_def demo_config_def)
  then show ?thesis unfolding started_def paced_engine_def by (intro exI conjI) simp_all
qed

lemma paced_floats: "ExpectedRequests 2 0 1000000000 = 2" "u64_of_float 2 = 2" "ScheduleOffset 2 0 0 = 0"
  using f64.fl_int [of 2] trunc_float_of_int [of 2] trunc_float_of_int [of 0]
  by (simp_all add: ExpectedRequests_def ScheduleOffset_def Seconds_def float_of_int_def float_of_u64_def u64_of_float_def)

lemma paced_exec: "\<exists>e. exec run_step paced_engine paced_run = Some e \<and> sent e = 1"
  by (simp add: paced_engine_def paced_run_def demo_simps settle_def paced_floats)

theorem engine_tokens_in_order_witness:
  "\<exists>e ts. exec run_step paced_engine paced_run = Some e \<and> tokens e = Some ts \<and> [1000] @ ts = schedule paced_engine 1"
proof -
  obtain e where e: "exec run_step paced_engine paced_run = Some e" "sent e = 1" using paced_exec by blast
  moreover have "0 < Rate (cfg paced_engine)" by (simp add: paced_engine_def demo_simps)
  moreover have "received paced_run = [1000]" by (simp add: received_def paced_run_def)
  ultimately show ?thesis using engine_tokens_in_order [OF started_paced _ e(1)] by auto
qed

text \<open>C20: Goroutine \<open>i\<close> uses the targets round robin, starting at target \<open>i\<close>, whatever the others do.\<close>

theorem engine_round_robin:
  assumes "started e0" "exec run_step e0 es = Some e" "i < length (goroutines e0)"
  shows "targets_at i es = round_robin (length (Targets (cfg e0))) i (length (targets_at i es))"
  using engine.inv_exec [OF assms(1,2)] assms(3) by (simp add: engine_inv_def target_inv_def)

theorem engine_round_robin_witness: "targets_at 0 demo_run = [0]"
proof -
  have "targets_at 0 demo_run = round_robin 1 0 (length (targets_at 0 demo_run))"
    using engine_round_robin [OF started_demo demo_exec, of 0] demo_final_simps(2) by (simp add: demo_simps)
  moreover have "length (targets_at 0 demo_run) = 1" by (simp add: targets_at_def demo_run_def)
  ultimately show ?thesis by (simp add: round_robin_def)
qed

text \<open>C14: A cancelled run of the closed model ends. Once the context is done, at most three actions per
  goroutine and one for \<open>Run\<close> itself are left, apart from the passing of time, and as long as \<open>Run\<close> has
  not returned one of them is possible.\<close>

theorem engine_drains:
  assumes "started e0" "\<not> 0 < Rate (cfg e0)" "exec run_step e0 es = Some e" "ctx_done e"
    and "exec run_step e fs = Some e'"
  shows "int (count_ev (\<lambda>ev. \<not> is_Clock ev) fs) \<le> 3 * Concurrency (cfg e0) + 1 \<and>
    (done_closed e' \<or> (\<exists>ev. \<not> is_Clock ev \<and> run_step e' ev \<noteq> None))"
proof -
  have closed: "tokens e0 = None" using started_simps(9) [OF assms(1)] assms(2) by simp
  have b: "count_ev (\<lambda>ev. \<not> is_Clock ev) fs + work e' \<le> work e" "ctx_done e'"
    using drain_bound [OF assms(1) closed assms(3-5)] by blast+
  have len: "length (goroutines e) = length (goroutines e0)"
    using engine.inv_exec [OF assms(1,3)] by (simp add: engine_inv_def run_inv_def)
  have "exec run_step e0 (es @ fs) = Some e'" using assms(3,5) by (simp add: exec_append)
  then have "panicked e' = None" using engine.inv_exec [OF assms(1)] by (simp add: engine_inv_def run_inv_def)
  with b show ?thesis using drain_progress [of e'] work_bound [of e] len started_simps(6) [OF assms(1)] by auto
qed

theorem engine_drains_witness:
  "\<exists>e e'. exec run_step demo_engine [Send 0, Admit 0 0, CtxCancel] = Some e \<and> ctx_done e \<and>
     exec run_step e [Complete 0 0 200 5 None, SeeDone 0, Finish] = Some e' \<and>
     int (count_ev (\<lambda>ev. \<not> is_Clock ev) [Complete 0 0 200 5 None, SeeDone 0, Finish]) \<le> 4"
proof -
  obtain e where e: "exec run_step demo_engine [Send 0, Admit 0 0, CtxCancel] = Some e" and d: "ctx_done e"
    by (simp add: demo_simps)
  from e obtain e' where e': "exec run_step e [Complete 0 0 200 5 None, SeeDone 0, Finish] = Some e'"
    by (auto simp: demo_simps)
  have "\<not> 0 < Rate (cfg demo_engine)" "Concurrency (cfg demo_engine) = 1" by (simp_all add: demo_simps)
  with engine_drains [OF started_demo _ e d e'] e d e' show ?thesis by (intro exI) simp
qed

end
