(* ===== verification/Schedule.thy ===== *)
theory Schedule
  imports Float_Error Engine_Run
begin

text \<open>
  How accurate the open model of the load generator is: \<open>ScheduleOffset\<close> and \<open>ExpectedRequests\<close> of
  \<open>internal/titanload/engine/engine.go\<close> compared with the exact integral of the arrival rate and its inverse.
  Both functions choose between formulas by rounded quantities and subtract nearly equal numbers; the
  lemmas follow the errors of every operation through both branches and across the border.
\<close>

section \<open>The ideal schedule\<close>

text \<open>The number of arrivals up to \<open>t\<close> seconds into a run whose rate rises linearly over \<open>r\<close> seconds and
  then stays, and its inverse, the instant at which the \<open>n\<close>-th request is due.\<close>

definition arrivals :: "real \<Rightarrow> real \<Rightarrow> real \<Rightarrow> real" where
  "arrivals rate r t =
     (if r \<le> 0 then rate * t else if t < r then rate * t\<^sup>2 / (2 * r) else rate * r / 2 + rate * (t - r))"

definition due :: "real \<Rightarrow> real \<Rightarrow> real \<Rightarrow> real" where
  "due rate r n =
     (if r \<le> 0 then n / rate else if n < rate * r / 2 then sqrt (2 * r * n / rate) else r + (n - rate * r / 2) / rate)"

lemma arrivals_due:
  assumes "0 < rate" "0 \<le> n"
  shows "arrivals rate r (due rate r n) = n"
proof -
  consider "r \<le> 0" | "0 < r" "n < rate * r / 2" | "0 < r" "rate * r / 2 \<le> n" by linarith
  then show ?thesis
  proof cases
    case 2
    then have "2 * r * n / rate < r\<^sup>2" using assms by (simp add: power2_eq_square field_simps)
    then have "sqrt (2 * r * n / rate) < r" using real_sqrt_less_mono [of "2 * r * n / rate" "r\<^sup>2"] 2 by simp
    then show ?thesis using 2 assms by (simp add: arrivals_def due_def)
  next
    case 3
    then show ?thesis using assms by (simp add: arrivals_def due_def field_simps)
  qed (use assms in \<open>simp add: arrivals_def due_def\<close>)
qed

section \<open>The schedule\<close>

definition rate_ok :: "real \<Rightarrow> bool" where
  "rate_ok rate \<longleftrightarrow> 1 / 2 ^ 50 \<le> rate \<and> rate \<le> 2 ^ 50"

definition whole :: "real \<Rightarrow> bool" where
  "whole x \<longleftrightarrow> x = 0 \<or> 1 \<le> x"

lemma rate_pos: "rate_ok rate \<Longrightarrow> 0 < rate"
proof -
  assume "rate_ok rate"
  then have "1 / 2 ^ 50 \<le> rate" by (simp add: rate_ok_def)
  then show ?thesis by (rule less_le_trans [rotated]) simp
qed

lemma whole_nonneg: "whole x \<Longrightarrow> 0 \<le> x"
  by (auto simp: whole_def)

text \<open>Sizes of the intermediate results.\<close>

lemma sized_per_rate:
  assumes "rate_ok rate" "whole x" "1 / 2 ^ m \<le> c" "m \<le> 200"
  shows "sized (c * x / rate)"
proof (cases "x = 0")
  case False
  have "1 / 2 ^ m * 1 \<le> c * x" using assms(2,3) False by (intro mult_mono) (auto simp: whole_def intro: order_trans [OF _ assms(3)])
  moreover from this have "0 \<le> c * x" by (rule order_trans [rotated]) simp
  ultimately have "1 / 2 ^ m / 2 ^ 50 \<le> c * x / rate"
    using assms(1) rate_pos [OF assms(1)] by (intro frac_le) (simp_all add: rate_ok_def)
  then have "1 / 2 ^ (m + 50) \<le> c * x / rate" by (simp add: power_add)
  then show ?thesis by (rule sizedI) (use assms(4) in linarith)
qed (simp add: sized_def)

lemma scale_ns:
  assumes "approx k v y" "sized y" "k \<le> 1000"
  shows "approx (Suc k) (f64 (v * 1000000000)) (y * 10 ^ 9)"
  using approx_round [OF approx_mult' [OF assms(1), of 1000000000] sized_mult [OF assms(2)] assms(3)] by simp

lemma constant_offset:
  assumes "rate_ok rate" "whole x"
  shows "approx 2 (f64 (f64 (x / rate) * 1000000000)) (x / rate * 10 ^ 9)"
proof -
  have s: "sized (x / rate)" using sized_per_rate [OF assms, of 0 1] by simp
  then have "approx 1 (f64 (x / rate)) (x / rate)"
    using approx_round [OF approx_refl, of "x / rate" 0] rate_pos [OF assms(1)] whole_nonneg [OF assms(2)] by simp
  from scale_ns [OF this s] show ?thesis by (simp add: numeral_2_eq_2)
qed

text \<open>The ramp: \<open>rf\<close> is the ramp in seconds as computed, \<open>r\<close> the exact one.\<close>

lemma sized_r: "1 / 10 ^ 9 \<le> (r :: real) \<Longrightarrow> 1 / 2 ^ 30 \<le> r"
  by (simp add: divide_le_eq)

lemma ramp_offset:
  assumes "rate_ok rate" "whole x" "approx 2 rf r" "1 / 10 ^ 9 \<le> r"
  shows "approx 7 (f64 (math_Sqrt (f64 (f64 (f64 (2 * rf) * x) / rate)) * 1000000000)) (sqrt (2 * r * x / rate) * 10 ^ 9)"
proof -
  have r: "1 / 2 ^ 30 \<le> r" by (rule sized_r [OF assms(4)])
  note [simp] = rate_pos [OF assms(1)] whole_nonneg [OF assms(2)] less_imp_le
  have "approx 3 (f64 (2 * rf)) (2 * r)"
    using approx_round [OF approx_mult [OF assms(3), of 2] sizedI [of 30]] r by (simp add: numeral_3_eq_3 numeral_2_eq_2)
  then have "approx 3 (f64 (2 * rf) * x) (2 * r * x)" by (rule approx_mult') simp
  moreover have "sized (2 * r * x)"
  proof (cases "x = 0")
    case False
    then have "1 / 2 ^ 30 * 1 \<le> (2 * r) * x" using assms(2) r by (intro mult_mono) (auto simp: whole_def)
    then show ?thesis by (intro sizedI [of 30]) simp_all
  qed (simp add: sized_def)
  ultimately have "approx 4 (f64 (f64 (2 * rf) * x)) (2 * r * x)" using approx_round [of 3] by (simp add: numeral_eq_Suc)
  then have "approx 4 (f64 (f64 (2 * rf) * x) / rate) (2 * r * x / rate)" by (rule approx_divide) simp
  moreover have s: "sized (2 * r * x / rate)" using sized_per_rate [OF assms(1,2), of 30 "2 * r"] r by simp
  ultimately have "approx 5 (f64 (f64 (f64 (2 * rf) * x) / rate)) (2 * r * x / rate)" using approx_round [of 4] by (simp add: numeral_eq_Suc)
  then have "approx 5 (sqrt (f64 (f64 (f64 (2 * rf) * x) / rate))) (sqrt (2 * r * x / rate))" by (rule approx_sqrt) simp
  moreover have s': "sized (sqrt (2 * r * x / rate))"
  proof (cases "2 * r * x / rate = 0")
    case False
    then have "sqrt ((1 / 2 ^ 150)\<^sup>2) \<le> sqrt (2 * r * x / rate)" using s by (intro real_sqrt_le_mono) (simp add: sized_def power2_eq_square)
    then have "1 / 2 ^ 150 \<le> sqrt (2 * r * x / rate)" by (simp only: real_sqrt_abs)
    then show ?thesis by (intro sizedI [of 150]) simp_all
  next
    case True
    then show ?thesis unfolding sized_def True by simp
  qed
  ultimately have "approx 6 (math_Sqrt (f64 (f64 (f64 (2 * rf) * x) / rate))) (sqrt (2 * r * x / rate))"
    using approx_round [of 5] by (simp add: math_Sqrt_def numeral_eq_Suc)
  from scale_ns [OF this s'] show ?thesis by (simp add: numeral_eq_Suc)
qed

lemma half_ramp:
  assumes "rate_ok rate" "approx 2 rf r" "1 / 10 ^ 9 \<le> r"
  shows "approx 4 (f64 (f64 (rate * rf) / 2)) (rate * r / 2)"
proof -
  have "1 / 2 ^ 50 * (1 / 2 ^ 30) \<le> rate * r" using assms(1) sized_r [OF assms(3)] by (intro mult_mono) (auto simp: rate_ok_def)
  then have b: "1 / 2 ^ 80 \<le> rate * r" by (simp flip: power_add)
  then have "approx 3 (f64 (rate * rf)) (rate * r)"
    using approx_round [OF approx_mult [OF assms(2), of rate] sizedI [of 80]] rate_pos [OF assms(1)] by (simp add: numeral_eq_Suc)
  moreover have "1 / 2 ^ 81 \<le> rate * r / 2" using b by simp
  ultimately show ?thesis
    using approx_round [OF approx_divide [of 3 _ _ 2] sizedI [of 81]] by (simp add: numeral_eq_Suc)
qed

text \<open>After the ramp. The difference \<open>x - h\<close> may cancel, so its rounding is only bounded absolutely; the
  ramp itself is large in comparison.\<close>

lemma after_ramp:
  assumes "rate_ok rate" "approx 2 rf r" "1 / 10 ^ 9 \<le> r" "approx 4 hf (rate * r / 2)" "hf \<le> x"
  shows "approx 10 (rf + f64 (f64 (x - hf) / rate)) (r + (x - rate * r / 2) / rate)"
proof -
  let ?e = unit_err
  have p: "0 < rate" and r: "1 / 2 ^ 30 \<le> r" using rate_pos [OF assms(1)] sized_r [OF assms(3)] by auto
  then have r0: "0 < r" by (intro less_le_trans [OF _ r]) simp
  define d l v where "d = (x - hf) / rate" and "l = r + (x - rate * r / 2) / rate" and "v = f64 (f64 (x - hf) / rate)"
  have d: "0 \<le> d" using assms(5) p by (simp add: d_def)
  have "1 / rate \<le> 1 / (1 / 2 ^ 50)" using assms(1) p by (intro divide_left_mono) (simp_all add: rate_ok_def)
  then have "\<bar>v - d\<bar> \<le> 3 * ?e * d + 1 / 2 ^ 200"
    using residual [of "1 / rate" "x - hf"] p assms(5) by (simp add: v_def d_def)
  moreover have "1 / 2 ^ 200 \<le> ?e * r"
  proof -
    have "1 / 2 ^ 52 * (1 / 2 ^ 30) \<le> ?e * r" using r by (intro mult_mono) (simp_all add: unit_err_def)
    then show ?thesis by simp
  qed
  moreover have "\<bar>rf - r\<bar> \<le> 2 * ?e * r" using assms(2) by (simp add: approx_def)
  ultimately have 1: "\<bar>rf + v - (r + d)\<bar> \<le> 3 * ?e * d + 3 * ?e * r" by linarith
  have "\<bar>hf - rate * r / 2\<bar> \<le> 4 * ?e * (rate * r / 2)" using assms(4) by (simp add: approx_def)
  then have "\<bar>hf - rate * r / 2\<bar> / rate \<le> 4 * ?e * (rate * r / 2) / rate" using p by (intro divide_right_mono) simp_all
  then have "\<bar>(hf - rate * r / 2) / rate\<bar> \<le> 2 * ?e * r" using p by simp
  moreover have "r + d - l = - ((hf - rate * r / 2) / rate)" by (simp add: d_def l_def diff_divide_distrib)
  ultimately have 2: "\<bar>r + d - l\<bar> \<le> 2 * ?e * r" by simp
  have er: "?e * r \<le> 1 / 8 * r" using r0 by (intro mult_right_mono) (simp_all add: unit_err_def)
  have l: "r \<le> 2 * l" using 2 d r0 er by linarith
  have dl: "d + r \<le> 2 * l" using 2 er l r0 by linarith
  have "3 * ?e * (d + r) \<le> 3 * ?e * (2 * l)" using dl by (intro mult_left_mono) simp_all
  moreover have "2 * ?e * r \<le> 2 * ?e * (2 * l)" using l by (intro mult_left_mono) simp_all
  moreover have "3 * ?e * (d + r) = 3 * ?e * d + 3 * ?e * r" by (simp add: distrib_left)
  moreover have "3 * ?e * (2 * l) + 2 * ?e * (2 * l) = real 10 * ?e * l" by simp
  ultimately have "\<bar>rf + v - l\<bar> \<le> real 10 * ?e * l" using 1 2 by linarith
  then show ?thesis using l r0 unfolding approx_def l_def [symmetric] v_def [symmetric] by linarith
qed

text \<open>The code chooses the branch by the rounded \<open>hf\<close>; where it differs from the exact choice, the two
  formulas agree up to the same error.\<close>

lemma half_identity:
  assumes "0 < rate" "0 < (r :: real)"
  shows "sqrt (2 * r * x / rate) = r * sqrt (x / (rate * r / 2))" "r + (x - rate * r / 2) / rate = r * ((x / (rate * r / 2) + 1) / 2)"
proof -
  have "2 * r * x / rate = r\<^sup>2 * (x / (rate * r / 2))" using assms by (simp add: power2_eq_square)
  then have "sqrt (2 * r * x / rate) = sqrt (r\<^sup>2) * sqrt (x / (rate * r / 2))" by (simp only: real_sqrt_mult)
  then show "sqrt (2 * r * x / rate) = r * sqrt (x / (rate * r / 2))" using assms by simp
qed (use assms in \<open>simp add: field_simps\<close>)

lemma sqrt_near_1:
  assumes "\<bar>z - 1\<bar> \<le> e" "e \<le> 1 / 4"
  shows "\<bar>sqrt z - ((z + 1) / 2)\<bar> \<le> e / 2" "1 / 2 \<le> sqrt z" "1 / 2 \<le> (z + 1) / 2"
proof -
  have z: "3 / 4 \<le> z" "z \<le> 5 / 4" "z - 1 \<le> e" "1 - z \<le> e" using assms by linarith+
  have s: "0 \<le> sqrt z" "(sqrt z)\<^sup>2 = z" using z by simp_all
  show h: "1 / 2 \<le> sqrt z" using z by (intro real_le_rsqrt) (simp add: power2_eq_square)
  show "1 / 2 \<le> (z + 1) / 2" using z(1) by simp
  have id: "(z + 1) / 2 - sqrt z = (sqrt z - 1)\<^sup>2 / 2" using s(2) by (simp add: power2_diff)
  have "sqrt z \<le> 2" using z by (intro real_le_lsqrt) (simp_all add: power2_eq_square)
  have "\<bar>sqrt z - 1\<bar> * (sqrt z + 1) = \<bar>z - 1\<bar>"
  proof -
    have "(sqrt z - 1) * (sqrt z + 1) = z - 1" using s(2) by (simp add: power2_eq_square algebra_simps)
    then show ?thesis using s(1) by (metis abs_mult abs_of_nonneg add_nonneg_nonneg zero_le_one)
  qed
  moreover have "\<bar>sqrt z - 1\<bar> * 1 \<le> \<bar>sqrt z - 1\<bar> * (sqrt z + 1)" using s(1) by (intro mult_left_mono) simp_all
  ultimately have a: "\<bar>sqrt z - 1\<bar> \<le> e" using assms(1) by simp
  have "\<bar>sqrt z - 1\<bar> * \<bar>sqrt z - 1\<bar> \<le> e * 1" using a assms(2) by (intro mult_mono) simp_all
  then have "(sqrt z - 1)\<^sup>2 \<le> e" by (simp add: power2_eq_square flip: abs_mult)
  moreover have "0 \<le> (sqrt z - 1)\<^sup>2" by simp
  ultimately show "\<bar>sqrt z - ((z + 1) / 2)\<bar> \<le> e / 2" using id by linarith
qed

lemma branches_agree:
  assumes "0 < rate" "0 < r" "\<bar>x - rate * r / 2\<bar> \<le> 4 * unit_err * (rate * r / 2)"
  shows "approx 4 (sqrt (2 * r * x / rate)) (r + (x - rate * r / 2) / rate)"
    and "approx 4 (r + (x - rate * r / 2) / rate) (sqrt (2 * r * x / rate))"
proof -
  define z where "z = x / (rate * r / 2)"
  have h: "0 < rate * r / 2" using assms(1,2) by simp
  have "\<bar>x - rate * r / 2\<bar> / (rate * r / 2) \<le> 4 * unit_err" using assms(3) h by (simp only: pos_divide_le_eq)
  moreover have "\<bar>x - rate * r / 2\<bar> / (rate * r / 2) = \<bar>z - 1\<bar>"
  proof -
    have "z - 1 = (x - rate * r / 2) / (rate * r / 2)" unfolding z_def using assms(1,2) by (simp add: diff_divide_distrib)
    then show ?thesis using h by (simp only: abs_divide abs_of_pos)
  qed
  ultimately have z: "\<bar>z - 1\<bar> \<le> 4 * unit_err" by simp
  have e: "4 * unit_err \<le> 1 / 4" by (simp add: unit_err_def)
  note near = sqrt_near_1 [OF z e]
  have "r * \<bar>sqrt z - ((z + 1) / 2)\<bar> \<le> r * (4 * unit_err / 2)" using near(1) assms(2) by (intro mult_left_mono) simp_all
  then have dist: "\<bar>r * sqrt z - r * ((z + 1) / 2)\<bar> \<le> 4 * unit_err * (r * (1 / 2))"
    unfolding right_diff_distrib [symmetric] abs_mult using assms(2) by simp
  have "4 * unit_err * (r * (1 / 2)) \<le> 4 * unit_err * (r * ((z + 1) / 2))" "4 * unit_err * (r * (1 / 2)) \<le> 4 * unit_err * (r * sqrt z)"
    using near(2,3) assms(2) by (intro mult_left_mono; simp)+
  then have "\<bar>r * sqrt z - r * ((z + 1) / 2)\<bar> \<le> 4 * unit_err * (r * ((z + 1) / 2))"
    "\<bar>r * sqrt z - r * ((z + 1) / 2)\<bar> \<le> 4 * unit_err * (r * sqrt z)" by (blast intro: order_trans [OF dist])+
  moreover have "0 \<le> r * sqrt z" "0 \<le> r * ((z + 1) / 2)" using near(2,3) assms(2) by simp_all
  ultimately have "approx 4 (r * sqrt z) (r * ((z + 1) / 2))" "approx 4 (r * ((z + 1) / 2)) (r * sqrt z)"
    by (simp_all only: approx_def abs_minus_commute of_nat_numeral)
  then show "approx 4 (sqrt (2 * r * x / rate)) (r + (x - rate * r / 2) / rate)" "approx 4 (r + (x - rate * r / 2) / rate) (sqrt (2 * r * x / rate))"
    unfolding half_identity [OF assms(1,2)] z_def .
qed

lemma ramp_below:
  assumes "0 < rate" "0 < r" "approx 4 hf (rate * r / 2)" "hf \<le> x"
  shows "r \<le> 2 * (r + (x - rate * r / 2) / rate)"
proof -
  define h where "h = rate * r / 2"
  have "h \<le> 2 * hf" using approxD(5) [OF assms(3)] by (simp add: h_def)
  then have "- (h / 2) \<le> x - h" using assms(4) by linarith
  then have "- (h / 2) / rate \<le> (x - h) / rate" using assms(1) by (intro divide_right_mono) simp_all
  moreover have "- (h / 2) / rate = - (r / 4)" using assms(1) by (simp add: h_def)
  ultimately have k: "- (r / 4) \<le> (x - h) / rate" by simp
  have "r \<le> 2 * (r + k)" if "- (r / 4) \<le> k" for k using that assms(2) by simp
  from this [OF k] show ?thesis by (simp only: h_def)
qed

lemma sized_due:
  assumes "rate_ok rate" "1 / 10 ^ 9 \<le> r" "r \<le> 2 * l"
  shows "sized l"
  using sized_r [OF assms(2)] assms(3) by (intro sizedI [of 31]) simp_all

lemma offset_in_ramp:
  assumes "rate_ok rate" "whole x" "approx 2 rf r" "1 / 10 ^ 9 \<le> r" "approx 4 hf (rate * r / 2)" "x < hf"
  shows "approx 12 (f64 (math_Sqrt (f64 (f64 (f64 (2 * rf) * x) / rate)) * 1000000000)) (due rate r x * 10 ^ 9)"
proof (cases "x < rate * r / 2")
  case True
  then show ?thesis
    using approx_mono [OF ramp_offset [OF assms(1-4)], of 12] sized_r [OF assms(4)] by (simp add: due_def)
next
  case False
  have r: "0 < r" using assms(4) by (rule less_le_trans [rotated]) simp
  have "\<bar>hf - rate * r / 2\<bar> \<le> 4 * unit_err * (rate * r / 2)" using assms(5) by (simp add: approx_def)
  then have "\<bar>x - rate * r / 2\<bar> \<le> 4 * unit_err * (rate * r / 2)" using False assms(6) by linarith
  from approx_mult' [OF branches_agree(1) [OF rate_pos [OF assms(1)] r this], of "10 ^ 9"]
  have "approx 4 (sqrt (2 * r * x / rate) * 10 ^ 9) ((r + (x - rate * r / 2) / rate) * 10 ^ 9)" by simp
  from approx_trans [OF ramp_offset [OF assms(1-4)] this] show ?thesis using False r by (simp add: due_def)
qed

lemma offset_after_ramp:
  assumes "rate_ok rate" "approx 2 rf r" "1 / 10 ^ 9 \<le> r" "approx 4 hf (rate * r / 2)" "hf \<le> x"
  shows "approx 17 (f64 (f64 (rf + f64 (f64 (x - hf) / rate)) * 1000000000)) (due rate r x * 10 ^ 9)"
proof -
  let ?l = "r + (x - rate * r / 2) / rate"
  have p: "0 < rate" by (rule rate_pos [OF assms(1)])
  have r: "0 < r" using assms(3) by (rule less_le_trans [rotated]) simp
  have sl: "sized ?l" by (rule sized_due [OF assms(1,3) ramp_below [OF p r assms(4,5)]])
  have v: "approx 12 (f64 (f64 (rf + f64 (f64 (x - hf) / rate)) * 1000000000)) (?l * 10 ^ 9)"
    using scale_ns [OF approx_round [OF after_ramp [OF assms] sl] sl] by (simp add: numeral_eq_Suc)
  have "approx 4 (?l * 10 ^ 9) (due rate r x * 10 ^ 9)"
  proof (cases "x < rate * r / 2")
    case True
    have "\<bar>hf - rate * r / 2\<bar> \<le> 4 * unit_err * (rate * r / 2)" using assms(4) by (simp add: approx_def)
    then have "\<bar>x - rate * r / 2\<bar> \<le> 4 * unit_err * (rate * r / 2)" using True assms(5) by linarith
    from approx_mult' [OF branches_agree(2) [OF p r this], of "10 ^ 9"] show ?thesis using True r by (simp add: due_def)
  next
    case False
    then have "due rate r x = ?l" "0 \<le> ?l" using p r by (simp_all add: due_def)
    then show ?thesis by (simp only: approx_refl mult_nonneg_nonneg zero_le_power zero_le_numeral)
  qed
  from approx_trans [OF v this] show ?thesis by simp
qed

text \<open>Whatever branch the code takes, what it truncates is the due time in nanoseconds up to 17 units.\<close>

lemma offset_approx:
  assumes rate: "rate_ok rate" and ramp: "ramp < 2 ^ 63" and n: "unat n \<le> 2 ^ 53"
  shows "\<exists>v. ScheduleOffset rate ramp n = trunc_float v \<and> approx 17 v (due rate (of_int ramp / 10 ^ 9) (of_nat (unat n)) * 10 ^ 9)"
proof -
  let ?x = "of_nat (unat n) :: real" and ?r = "of_int ramp / 10 ^ 9 :: real" and ?rf = "Seconds ramp"
  let ?hf = "f64 (f64 (rate * ?rf) / 2)"
  have x: "float_of_u64 n = ?x" by (rule float_of_u64_exact [OF n])
  have w: "whole ?x" by (cases "unat n") (simp_all add: whole_def)
  show ?thesis
  proof (cases "ramp \<le> 0")
    case True
    then show ?thesis
      using approx_mono [OF constant_offset [OF rate w], of 17] by (auto simp: ScheduleOffset_def x due_def Let_def)
  next
    case False
    have r: "1 / 10 ^ 9 \<le> ?r" using False by simp
    have rf: "approx 2 ?rf ?r" using Seconds_approx [of ramp] ramp False by simp
    have hf: "approx 4 ?hf (rate * ?r / 2)" by (rule half_ramp [OF rate rf r])
    show ?thesis
    proof (cases "?x < ?hf")
      case True
      from approx_mono [OF offset_in_ramp [OF rate w rf r hf True], of 17]
      show ?thesis using True False by (auto simp: ScheduleOffset_def x Let_def)
    next
      case f: False
      then have "?hf \<le> ?x" by simp
      from offset_after_ramp [OF rate rf r hf this] show ?thesis using f False by (auto simp: ScheduleOffset_def x Let_def)
    qed
  qed
qed

section \<open>The expected number of requests\<close>

text \<open>During the ramp.\<close>

lemma expected_in_ramp:
  assumes "rate_ok rate" "approx 2 sf s" "approx 2 rf r" "1 / 10 ^ 9 \<le> r" "r \<le> 2 ^ 34" "s = 0 \<or> 1 / 10 ^ 9 \<le> s"
  shows "approx 15 (f64 (f64 (f64 (rate * sf) * sf) / f64 (2 * rf))) (rate * s\<^sup>2 / (2 * r))"
proof -
  have r: "1 / 2 ^ 30 \<le> r" by (rule sized_r [OF assms(4)])
  then have r0: "0 < r" by (rule less_le_trans [rotated]) simp
  have s: "s = 0 \<or> 1 / 2 ^ 30 \<le> s" using assms(6) sized_r by blast
  have p: "0 < rate" "1 / 2 ^ 50 \<le> rate" using rate_pos [OF assms(1)] assms(1) by (simp_all add: rate_ok_def)
  have 1: "sized (rate * s)"
  proof (cases "s = 0")
    case False
    then have "1 / 2 ^ 50 * (1 / 2 ^ 30) \<le> rate * s" using s p by (intro mult_mono) simp_all
    then show ?thesis by (intro sizedI [of 80]) (simp_all flip: power_add)
  qed (simp add: sized_def)
  have 2: "sized (rate * s * s)"
  proof (cases "s = 0")
    case False
    then have "1 / 2 ^ 50 * (1 / 2 ^ 30) * (1 / 2 ^ 30) \<le> rate * s * s" using s p by (intro mult_mono) simp_all
    then show ?thesis by (intro sizedI [of 110]) (simp_all flip: power_add)
  qed (simp add: sized_def)
  have "approx 3 (f64 (rate * sf)) (rate * s)"
    using approx_round [OF approx_mult [OF assms(2), of rate] 1] p by (simp add: numeral_eq_Suc)
  from approx_product [OF this assms(2)] have "approx 6 (f64 (rate * sf) * sf) (rate * s * s)" by simp
  from approx_round [OF this 2] have n: "approx 7 (f64 (f64 (rate * sf) * sf)) (rate * s * s)" by (simp add: numeral_eq_Suc)
  have "approx 3 (f64 (2 * rf)) (2 * r)"
    using approx_round [OF approx_mult [OF assms(3), of 2] sizedI [of 30]] r by (simp add: numeral_eq_Suc)
  from approx_inverse [OF this] have "approx 6 (1 / f64 (2 * rf)) (1 / (2 * r))" using r0 by simp
  from approx_product [OF n this] have "approx 14 (f64 (f64 (rate * sf) * sf) / f64 (2 * rf)) (rate * s * s / (2 * r))" by simp
  moreover have "sized (rate * s * s / (2 * r))"
  proof (cases "s = 0")
    case False
    then have "1 / 2 ^ 50 * (1 / 2 ^ 30) * (1 / 2 ^ 30) \<le> rate * s * s" using s p by (intro mult_mono) simp_all
    then have "1 / 2 ^ 50 * (1 / 2 ^ 30) * (1 / 2 ^ 30) / 2 ^ 35 \<le> rate * s * s / (2 * r)" using assms(5) r0 by (intro frac_le) simp_all
    then show ?thesis by (intro sizedI [of 145]) (simp_all flip: power_add)
  qed (simp add: sized_def)
  ultimately show ?thesis using approx_round [of 14] by (simp add: numeral_eq_Suc power2_eq_square mult.assoc)
qed

text \<open>After the ramp, where the difference of the two times may cancel.\<close>

lemma ramp_area:
  assumes "rate_ok rate" "1 / 10 ^ 9 \<le> r" "r \<le> s"
  shows "1 / 2 ^ 80 \<le> rate * r" "rate * r \<le> rate * s" "0 < rate * s"
proof -
  have p: "0 < rate" "1 / 2 ^ 50 \<le> rate" using rate_pos [OF assms(1)] assms(1) by (simp_all add: rate_ok_def)
  have "1 / 2 ^ 50 * (1 / 2 ^ 30) \<le> rate * r" using p sized_r [OF assms(2)] by (intro mult_mono) simp_all
  then show R: "1 / 2 ^ 80 \<le> rate * r" by (simp flip: power_add)
  show rs: "rate * r \<le> rate * s" using p(1) assms(3) by simp
  show "0 < rate * s" using R rs by (intro less_le_trans [OF _ order_trans [OF R rs]]) simp
qed

text \<open>The requests after the ramp: the difference of two rounded times, times the rate.\<close>

lemma rest_after_ramp:
  assumes "rate_ok rate" "approx 2 sf s" "approx 2 rf r" "1 / 10 ^ 9 \<le> r" "r \<le> s" "rf \<le> sf"
  shows "\<bar>f64 (rate * f64 (sf - rf)) - rate * (s - r)\<bar> \<le> 11 * (unit_err * (rate * s))"
proof -
  let ?e = unit_err
  have p: "0 < rate" "rate \<le> 2 ^ 50" using rate_pos [OF assms(1)] assms(1) by (simp_all add: rate_ok_def)
  define D E S where "D = rate * (sf - rf)" and "E = rate * (s - r)" and "S = rate * s"
  have R: "1 / 2 ^ 80 \<le> rate * r" and rs: "rate * r \<le> S" and S0: "0 < S" using ramp_area [OF assms(1,4,5)] by (simp_all add: S_def)
  have d: "\<bar>(sf - rf) - (s - r)\<bar> \<le> 4 * (?e * s)"
  proof -
    have "\<bar>sf - s\<bar> \<le> 2 * ?e * s" "\<bar>rf - r\<bar> \<le> 2 * ?e * r" using assms(2,3) by (simp_all add: approx_def)
    moreover have "?e * r \<le> ?e * s" using assms(5) by (intro mult_left_mono) simp_all
    ultimately show ?thesis by linarith
  qed
  then have "rate * \<bar>(sf - rf) - (s - r)\<bar> \<le> rate * (4 * (?e * s))" using p(1) by (intro mult_left_mono) simp_all
  moreover have "rate * \<bar>(sf - rf) - (s - r)\<bar> = \<bar>D - E\<bar>"
    unfolding D_def E_def using p(1) by (simp only: abs_mult right_diff_distrib [symmetric] abs_of_pos)
  ultimately have rd: "\<bar>D - E\<bar> \<le> 4 * (?e * S)" by (simp add: S_def mult.left_commute)
  have "4 * (?e * S) \<le> 1 / 2 * S" using S0 by (simp add: unit_err_def)
  moreover have "E \<le> S" using p(1) R by (simp add: S_def E_def right_diff_distrib)
  ultimately have "D \<le> 2 * S" using rd S0 by linarith
  then have "3 * ?e * D \<le> 3 * ?e * (2 * S)" by (intro mult_left_mono) simp_all
  then have "3 * ?e * D \<le> 6 * (?e * S)" by simp
  moreover have "\<bar>f64 (rate * f64 (sf - rf)) - D\<bar> \<le> 3 * ?e * D + 1 / 2 ^ 200"
    unfolding D_def using assms(6) p by (intro residual) simp_all
  moreover have "1 / 2 ^ 200 \<le> ?e * S"
  proof -
    have "1 / 2 ^ 52 * (1 / 2 ^ 80) \<le> ?e * S" using R rs by (intro mult_mono) (simp_all add: unit_err_def)
    then show ?thesis by (simp flip: power_add)
  qed
  ultimately show ?thesis using rd unfolding E_def [symmetric] S_def [symmetric] by linarith
qed

lemma expected_after_ramp:
  assumes "rate_ok rate" "approx 2 sf s" "approx 2 rf r" "1 / 10 ^ 9 \<le> r" "r \<le> s" "rf \<le> sf"
  shows "approx 27 (f64 (f64 (f64 (rate * rf) / 2) + f64 (rate * f64 (sf - rf)))) (rate * r / 2 + rate * (s - r))"
proof -
  let ?e = unit_err
  define h g y S where "h = f64 (f64 (rate * rf) / 2)" and "g = f64 (rate * f64 (sf - rf))" and "y = rate * r / 2 + rate * (s - r)" and "S = rate * s"
  have R: "1 / 2 ^ 80 \<le> rate * r" and rs: "rate * r \<le> S" and S0: "0 < S" using ramp_area [OF assms(1,4,5)] by (simp_all add: S_def)
  have y: "y = S - rate * r / 2" by (simp add: y_def S_def right_diff_distrib)
  have Sy: "S \<le> 2 * y" using y rs by linarith
  have "\<bar>h - rate * r / 2\<bar> \<le> 4 * ?e * (rate * r / 2)" using half_ramp [OF assms(1,3,4)] by (simp add: approx_def h_def)
  also have "\<dots> \<le> 4 * ?e * (S / 2)" using rs by (intro mult_left_mono) simp_all
  finally have h: "\<bar>h - rate * r / 2\<bar> \<le> 2 * (?e * S)" by simp
  have "\<bar>g - rate * (s - r)\<bar> \<le> 11 * (?e * S)" using rest_after_ramp [OF assms] by (simp add: g_def S_def)
  moreover have "h + g - y = (h - rate * r / 2) + (g - rate * (s - r))" by (simp add: y_def)
  ultimately have "\<bar>h + g - y\<bar> \<le> 13 * (?e * S)" using h by linarith
  also have "\<dots> \<le> 13 * (?e * (2 * y))" using Sy by (intro mult_left_mono) simp_all
  also have "\<dots> = real 26 * ?e * y" by simp
  finally have a: "approx 26 (h + g) y" using Sy S0 unfolding approx_def by linarith
  have "sized y" using R rs Sy by (intro sizedI [of 81]) simp_all
  from approx_round [OF a this] show ?thesis by (simp add: h_def g_def y_def)
qed

lemma expected_at_ramp:
  assumes "rate_ok rate" "approx 2 f s" "approx 2 f r" "1 / 10 ^ 9 \<le> r" "s \<le> r" "0 < s"
  shows "approx 22 (f64 (f64 (f64 (rate * f) / 2))) (rate * s\<^sup>2 / (2 * r))"
proof -
  let ?e = unit_err
  have p: "0 < rate" by (rule rate_pos [OF assms(1)])
  have r: "0 < r" using assms(5,6) by linarith
  have "\<bar>f - s\<bar> \<le> 2 * ?e * s" "\<bar>f - r\<bar> \<le> 2 * ?e * r" using assms(2,3) by (simp_all add: approx_def)
  moreover have es: "?e * s \<le> 1 / 16 * s" "?e * r \<le> 1 / 16 * r" using assms(6) r by (simp_all add: unit_err_def)
  ultimately have "r \<le> 2 * s" "\<bar>r - s\<bar> \<le> 2 * ?e * r + 2 * ?e * s" using assms(5) by linarith+
  moreover from this(1) have "2 * ?e * r \<le> 2 * ?e * (2 * s)" by (intro mult_left_mono) simp_all
  ultimately have rs: "r \<le> 2 * s" "\<bar>r - s\<bar> \<le> real 6 * ?e * s" by linarith+
  then have "approx 6 r s" using assms(6) by (simp add: approx_def)
  from approx_product [OF this this] have "approx 13 (r * r) (s * s)" by simp
  from approx_mult [OF approx_divide [OF this, of "2 * r"], of rate]
  have "approx 13 (rate * (r * r / (2 * r))) (rate * (s * s / (2 * r)))" using p r by simp
  then have "approx 13 (rate * r / 2) (rate * s\<^sup>2 / (2 * r))" using r by (simp add: power2_eq_square)
  moreover have "approx 5 (f64 (f64 (f64 (rate * f) / 2))) (rate * r / 2)"
  proof -
    have "1 / 2 ^ 50 * (1 / 2 ^ 30) \<le> rate * r" using assms(1) sized_r [OF assms(4)] by (intro mult_mono) (auto simp: rate_ok_def)
    then have "sized (rate * r / 2)" by (intro sizedI [of 81]) (simp_all flip: power_add)
    from approx_round [OF half_ramp [OF assms(1,3,4)] this] show ?thesis by (simp add: numeral_eq_Suc)
  qed
  ultimately have "approx 19 (f64 (f64 (f64 (rate * f) / 2))) (rate * s\<^sup>2 / (2 * r))" using approx_trans [of 5 _ _ 13] by simp
  then show ?thesis by (rule approx_mono) simp
qed

text \<open>The expected number of requests is the integral of the rate up to 27 units.\<close>

lemma expected_without_ramp:
  assumes "rate_ok rate" "approx 2 f s" "s = 0 \<or> 1 / 10 ^ 9 \<le> s"
  shows "approx 27 (f64 (rate * f)) (rate * s)"
proof -
  have "sized (rate * s)"
  proof (cases "s = 0")
    case False
    then have "1 / 2 ^ 50 * (1 / 2 ^ 30) \<le> rate * s" using assms(1,3) sized_r [of s] by (intro mult_mono) (auto simp: rate_ok_def)
    then show ?thesis by (intro sizedI [of 80]) (simp_all flip: power_add)
  qed (simp add: sized_def)
  from approx_round [OF approx_mult [OF assms(2), of rate] this]
  have "approx 3 (f64 (rate * f)) (rate * s)" using rate_pos [OF assms(1)] by (simp add: numeral_eq_Suc)
  from approx_mono [OF this, of 27] show ?thesis by simp
qed

lemma expected_approx:
  assumes "rate_ok rate" "0 \<le> t" "t < 2 ^ 63" "ramp < 2 ^ 63"
  shows "approx 27 (ExpectedRequests rate ramp t) (arrivals rate (of_int ramp / 10 ^ 9) (of_int t / 10 ^ 9))"
proof -
  let ?s = "of_int t / 10 ^ 9 :: real" and ?r = "of_int ramp / 10 ^ 9 :: real"
  have s: "approx 2 (Seconds t) ?s" by (rule Seconds_approx [OF assms(2,3)])
  have s0: "?s = 0 \<or> 1 / 10 ^ 9 \<le> ?s" using assms(2) by (cases "t = 0") simp_all
  show ?thesis
  proof (cases "ramp \<le> 0")
    case True
    then show ?thesis using expected_without_ramp [OF assms(1) s s0] by (simp add: ExpectedRequests_def arrivals_def Let_def)
  next
    case False
    have r: "approx 2 (Seconds ramp) ?r" "1 / 10 ^ 9 \<le> ?r" "?r \<le> 2 ^ 34" "0 < ?r"
      using Seconds_approx [of ramp] False assms(4) by simp_all
    consider "Seconds t < Seconds ramp" | "Seconds ramp \<le> Seconds t" "ramp \<le> t" | "Seconds ramp = Seconds t" "t < ramp"
      using Seconds_mono [of t ramp] assms(2,4) by fastforce
    then show ?thesis
    proof cases
      case 1
      then have "t < ramp" using Seconds_mono [of ramp t] False assms(3) by fastforce
      then have "arrivals rate ?r ?s = rate * ?s\<^sup>2 / (2 * ?r)" using r(4) by (simp add: arrivals_def divide_strict_right_mono)
      then show ?thesis using approx_mono [OF expected_in_ramp [OF assms(1) s r(1-3) s0], of 27] 1 False
        by (simp add: ExpectedRequests_def Let_def)
    next
      case 2
      then have rs: "?r \<le> ?s" by (intro divide_right_mono) simp_all
      then have "arrivals rate ?r ?s = rate * ?r / 2 + rate * (?s - ?r)" using r(4) by (simp only: arrivals_def) simp
      then show ?thesis using expected_after_ramp [OF assms(1) s r(1,2) rs 2(1)] 2 False by (simp add: ExpectedRequests_def Let_def)
    next
      case 3
      then have rs: "?s \<le> ?r" by (intro divide_right_mono) simp_all
      have a: "arrivals rate ?r ?s = rate * ?s\<^sup>2 / (2 * ?r)" using r(4) 3(2) by (simp add: arrivals_def divide_strict_right_mono)
      have "0 < ?s"
      proof (rule ccontr)
        assume "\<not> 0 < ?s"
        then have "?s = 0" using s0 by force
        then have "Seconds t = 0" using s by (simp add: approx_def)
        then show False using approxD(5) [OF r(1)] r(4) 3(1) by simp
      qed
      from expected_at_ramp [OF assms(1) s _ r(2) rs this]
      have "approx 22 (f64 (f64 (f64 (rate * Seconds t) / 2))) (rate * ?s\<^sup>2 / (2 * ?r))" using r(1) 3(1) by simp
      from approx_mono [OF this, of 27] show ?thesis unfolding a using 3(1) False by (simp add: ExpectedRequests_def Let_def)
    qed
  qed
qed

section \<open>How accurate the open model is\<close>

lemma schedule_near:
  assumes "rate_ok rate" "ramp < 2 ^ 63" "unat n \<le> 2 ^ 53"
    and "due rate (of_int ramp / 10 ^ 9) (of_nat (unat n)) \<le> 200000"
  shows "\<bar>of_int (ScheduleOffset rate ramp n) - due rate (of_int ramp / 10 ^ 9) (of_nat (unat n)) * 10 ^ 9\<bar> < 2"
proof -
  let ?y = "due rate (of_int ramp / 10 ^ 9) (of_nat (unat n)) * 10 ^ 9"
  obtain v where v: "ScheduleOffset rate ramp n = trunc_float v" "approx 17 v ?y" using offset_approx [OF assms(1-3)] by blast
  have "17 * unit_err * ?y \<le> 17 * unit_err * (200000 * 10 ^ 9)" using assms(4) by (intro mult_left_mono) simp_all
  also have "\<dots> \<le> 1" by (simp add: unit_err_def)
  finally show ?thesis using trunc_near [OF v(2)] v(1) by simp
qed

text \<open>C12: The send times are right: in the open model, with a rate from \<open>2 ^ -50\<close> to \<open>2 ^ 50\<close> per second and any ramp,
  the \<open>k\<close>-th send time that a goroutine receives lies within two nanoseconds of the instant \<open>due\<close> at which the
  integral of the arrival rate reaches \<open>k\<close>, in every interleaving, for runs of up to 200000 seconds.\<close>

theorem schedule_accurate:
  fixes e0 :: engine
  defines "ramp \<equiv> of_int (Ramp (cfg e0)) / 10 ^ 9 :: real" and "rate \<equiv> Rate (cfg e0)"
  assumes "started e0" "exec run_step e0 es = Some e" "k < length (received es)" "k \<le> 2 ^ 53"
    and "rate_ok rate" "Ramp (cfg e0) < 2 ^ 63" "due rate ramp k \<le> 200000"
  shows "\<bar>of_int (received es ! k - startNs e0) - due rate ramp k * 10 ^ 9\<bar> < 2 \<and> arrivals rate ramp (due rate ramp k) = k"
proof -
  have p: "0 < rate" by (rule rate_pos [OF assms(7)])
  obtain ts where "received es @ ts = schedule e0 (unat (sent e))"
    using run_tokens [OF assms(3) _ assms(4)] p by (auto simp: rate_def)
  then have "received es ! k = schedule e0 (unat (sent e)) ! k" "k < length (schedule e0 (unat (sent e)))"
    using assms(5) by (metis nth_append, metis length_append trans_less_add1)
  then have "received es ! k - startNs e0 = ScheduleOffset rate (Ramp (cfg e0)) (of_nat k)"
    by (simp add: schedule_def rate_def)
  moreover have u: "unat (of_nat k :: u64) = k" using assms(6) by (simp add: unat_of_nat)
  ultimately show ?thesis
    using schedule_near [OF assms(7,8), of "of_nat k"] assms(6,9) arrivals_due [OF p, of "of_nat k"]
    by (simp add: ramp_def u)
qed

theorem schedule_accurate_witness:
  "\<bar>of_int (received paced_run ! 0 - startNs paced_engine) - due 2 0 0 * 10 ^ 9\<bar> < 2 \<and> received paced_run ! 0 = 1000"
proof -
  obtain e where e: "exec run_step paced_engine paced_run = Some e" using paced_exec by blast
  have "received paced_run = [1000]" by (simp add: received_def paced_run_def)
  moreover have "Rate (cfg paced_engine) = 2" "Ramp (cfg paced_engine) = 0" by (simp_all add: paced_engine_def demo_simps)
  ultimately show ?thesis using schedule_accurate [OF started_paced e, of 0] by (simp add: rate_ok_def due_def)
qed

text \<open>C37: The pace is right: at any time the number of requests the pacer has to have sent differs by less than
  two from the integral of the arrival rate, as long as that stays below \<open>10 ^ 14\<close> requests.\<close>

theorem pace_accurate:
  assumes "rate_ok rate" "0 \<le> t" "t < 2 ^ 63" "ramp < 2 ^ 63"
    and "arrivals rate (of_int ramp / 10 ^ 9) (of_int t / 10 ^ 9) \<le> 10 ^ 14"
  shows "\<bar>of_nat (unat (u64_of_float (ExpectedRequests rate ramp t))) - arrivals rate (of_int ramp / 10 ^ 9) (of_int t / 10 ^ 9)\<bar> < 2"
proof -
  let ?v = "ExpectedRequests rate ramp t" and ?y = "arrivals rate (of_int ramp / 10 ^ 9) (of_int t / 10 ^ 9)"
  have a: "approx 27 ?v ?y" by (rule expected_approx [OF assms(1-4)])
  have "27 * unit_err * ?y \<le> 27 * unit_err * 10 ^ 14" using assms(5) by (intro mult_left_mono) simp_all
  also have "\<dots> \<le> 1" by (simp add: unit_err_def)
  finally have "\<bar>of_int (trunc_float ?v) - ?y\<bar> < 2" using trunc_near [OF a] by simp
  moreover have "of_nat (unat (u64_of_float ?v)) = (of_int (trunc_float ?v) :: real)"
  proof -
    have v: "0 \<le> ?v" "?v \<le> 2 * ?y" using approxD [OF a] by auto
    then have t: "0 \<le> trunc_float ?v" "trunc_float ?v \<le> 2 * 10 ^ 14"
      using assms(5) trunc_float_nonneg by (auto simp: trunc_float_def floor_le_iff)
    then have "u64_of_float ?v = of_nat (nat (trunc_float ?v))" "nat (trunc_float ?v) < 2 ^ 64" by (simp_all add: u64_of_float_def)
    then have "unat (u64_of_float ?v) = nat (trunc_float ?v)" by (simp add: unat_of_nat)
    then show ?thesis using t(1) by simp
  qed
  ultimately show ?thesis by simp
qed

theorem pace_accurate_witness:
  "\<bar>of_nat (unat (u64_of_float (ExpectedRequests 100 1000000000 3000000000))) - arrivals 100 1 3\<bar> < 2 \<and> arrivals 100 1 3 = 250"
proof -
  have "rate_ok 100" by (simp add: rate_ok_def)
  moreover have "arrivals 100 1 3 = 250" by (simp add: arrivals_def)
  ultimately show ?thesis using pace_accurate [of 100 3000000000 1000000000] by simp
qed

end
