(* ===== verification/Go_Strconv.thy ===== *)
theory Go_Strconv
  imports Go_Prelude
begin

text \<open>
  Decimal conversion as the sources use it: \<open>strconv.Itoa\<close>, \<open>FormatInt(_, 10)\<close> and \<open>%d\<close>
  (\<open>itoa\<close>), the zero-padded \<open>%03d\<close> of the worker ids, and \<open>ParseInt(_, 10, 64)\<close> / \<open>Atoi\<close>, whose
  syntax and range errors are both \<open>None\<close>. Printing is injective and parsing undoes it.
\<close>

definition digit :: "nat \<Rightarrow> char" where
  "digit d = char_of (48 + d)"

definition digit_value :: "char \<Rightarrow> nat option" where
  "digit_value c = (let n = of_char c :: nat in if 48 \<le> n \<and> n \<le> 57 then Some (n - 48) else None)"

fun digits_of :: "nat \<Rightarrow> string" where
  "digits_of n = (if n < 10 then [digit n] else digits_of (n div 10) @ [digit (n mod 10)])"

declare digits_of.simps [simp del]

definition itoa :: "int \<Rightarrow> string" where
  "itoa n = (if n < 0 then ''-'' @ digits_of (nat (- n)) else digits_of (nat n))"

text \<open>Zero padding to a width, and \<open>fmt.Sprintf("%03d", n)\<close> for a non-negative \<open>n\<close>.\<close>

definition zero_pad :: "nat \<Rightarrow> nat \<Rightarrow> string" where
  "zero_pad w n = replicate (w - length (digits_of n)) (digit 0) @ digits_of n"

definition pad3 :: "nat \<Rightarrow> string" where
  "pad3 n = zero_pad 3 n"

fun parse_digits :: "nat \<Rightarrow> string \<Rightarrow> nat option" where
  "parse_digits acc [] = Some acc"
| "parse_digits acc (c # cs) =
     (case digit_value c of None \<Rightarrow> None | Some d \<Rightarrow> parse_digits (10 * acc + d) cs)"

definition parse_magnitude :: "bool \<Rightarrow> string \<Rightarrow> int option" where
  "parse_magnitude neg s =
     (if s = [] then None
      else case parse_digits 0 s of None \<Rightarrow> None
        | Some n \<Rightarrow> let v = (if neg then - int n else int n) in if in_i64 v then Some v else None)"

definition ParseInt :: "string \<Rightarrow> int option" where
  "ParseInt s =
     (case s of [] \<Rightarrow> None
      | c # cs \<Rightarrow> if c = CHR ''+'' then parse_magnitude False cs
                  else if c = CHR ''-'' then parse_magnitude True cs
                  else parse_magnitude False s)"

lemma digit_value_digit [simp]: "d < 10 \<Longrightarrow> digit_value (digit d) = Some d"
  by (simp add: digit_value_def digit_def)

lemma digits_of_nonempty [simp]: "digits_of n \<noteq> []"
  by (subst digits_of.simps) simp

lemma parse_digits_append:
  "parse_digits a (xs @ ys) = (case parse_digits a xs of None \<Rightarrow> None | Some b \<Rightarrow> parse_digits b ys)"
  by (induction a xs rule: parse_digits.induct) (simp_all split: option.splits)

lemma parse_digits_of: "parse_digits 0 (digits_of n) = Some n"
proof (induction n rule: digits_of.induct)
  case (1 n)
  show ?case
  proof (cases "n < 10")
    case True
    then show ?thesis by (subst digits_of.simps) simp
  next
    case False
    with "1.IH" show ?thesis by (subst digits_of.simps) (simp add: parse_digits_append)
  qed
qed

lemma digits_of_inject [simp]: "digits_of m = digits_of n \<longleftrightarrow> m = n"
  by (metis option.inject parse_digits_of)

lemma parse_digits_zeros: "parse_digits 0 (replicate k (digit 0) @ s) = parse_digits 0 s"
  by (induction k) simp_all

lemma zero_pad_inject [simp]: "zero_pad w m = zero_pad w n \<longleftrightarrow> m = n"
proof
  assume "zero_pad w m = zero_pad w n"
  then have "parse_digits 0 (zero_pad w m) = parse_digits 0 (zero_pad w n)" by simp
  then show "m = n" by (simp add: zero_pad_def parse_digits_zeros parse_digits_of)
qed simp

lemma length_digits_of: "n < 10 ^ w \<Longrightarrow> 0 < w \<Longrightarrow> length (digits_of n) \<le> w"
proof (induction n arbitrary: w rule: digits_of.induct)
  case (1 n)
  show ?case
  proof (cases "n < 10")
    case False
    with 1(2,3) obtain v where w: "w = Suc v" "0 < v" by (cases w; cases "w - 1") auto
    then have "n div 10 < 10 ^ v" using 1(2) by (simp add: less_mult_imp_div_less mult.commute)
    then have "length (digits_of (n div 10)) \<le> v" using 1(1) [OF False _ w(2)] by simp
    then show ?thesis using False w(1) by (subst digits_of.simps) simp
  qed (use 1(3) in \<open>subst digits_of.simps, simp\<close>)
qed

lemma length_zero_pad: "n < 10 ^ w \<Longrightarrow> 0 < w \<Longrightarrow> length (zero_pad w n) = w"
  using length_digits_of [of n w] by (simp add: zero_pad_def)

lemma pad3_inject [simp]: "pad3 m = pad3 n \<longleftrightarrow> m = n"
  by (simp add: pad3_def)

lemma hd_digits_of: "\<exists>d<10. hd (digits_of n) = digit d"
proof (induction n rule: digits_of.induct)
  case (1 n)
  show ?case
  proof (cases "n < 10")
    case True
    then show ?thesis by (subst digits_of.simps) auto
  next
    case False
    with "1.IH" show ?thesis by (subst digits_of.simps) simp
  qed
qed

lemma digit_not_sign: "d < 10 \<Longrightarrow> digit d \<noteq> CHR ''+'' \<and> digit d \<noteq> CHR ''-''"
proof -
  assume "d < 10"
  then have "digit_value (digit d) = Some d" by simp
  moreover have "digit_value (CHR ''+'') = None" "digit_value (CHR ''-'') = None"
    by (simp_all add: digit_value_def)
  ultimately show ?thesis by force
qed

lemma ParseInt_itoa: "in_i64 n \<Longrightarrow> ParseInt (itoa n) = Some n"
proof (cases "n < 0")
  case True
  moreover assume "in_i64 n"
  ultimately show ?thesis
    by (simp add: itoa_def ParseInt_def parse_magnitude_def parse_digits_of)
next
  case False
  assume n: "in_i64 n"
  obtain c cs where s: "digits_of (nat n) = c # cs" by (cases "digits_of (nat n)") auto
  then have "c \<noteq> CHR ''+''" "c \<noteq> CHR ''-''"
    using hd_digits_of [of "nat n"] digit_not_sign by force+
  with False n show ?thesis
    using parse_digits_of [of "nat n"] by (simp add: itoa_def ParseInt_def parse_magnitude_def s)
qed

lemma itoa_inject: "in_i64 m \<Longrightarrow> in_i64 n \<Longrightarrow> itoa m = itoa n \<longleftrightarrow> m = n"
  by (metis ParseInt_itoa option.inject)

end
