(* ===== verification/Coordinator.thy ===== *)
theory Coordinator
  imports Go_Strconv Stats_Quantile Engine
begin

text \<open>
  The coordinator of \<open>internal/titanload/distributed/distributed.go\<close>. Its handlers run under one
  mutex, so each is one function on the coordinator's state; the main loop \<open>Run\<close> contributes the
  release of the job, the deadline, the tick that marks silent workers lost, and cancellation. Times
  are passed in. A request body is what decoding it gives (\<open>None\<close> for malformed JSON). Every id in
  \<open>order\<close> has an entry in \<open>workers\<close> (\<open>coord_inv\<close>), so the \<open>None\<close> branches of the loops over \<open>order\<close>,
  where the source would dereference nil, are never taken.
\<close>

section \<open>Data\<close>

record Job =
  RunID :: string
  job_Config :: config
  StartDelay :: duration

record registerRequest =
  reg_Name :: string
  reg_Host :: string
  reg_CPUs :: int

record reportRequest =
  rep_ID :: string
  rep_Snapshot :: "snapshot option"
  rep_Done :: bool
  rep_Error :: string

record workerState =
  ws_id :: string
  ws_name :: string
  ws_host :: string
  ws_cpus :: int
  ws_snap :: "snapshot option"
  ws_state :: string
  lastSeen :: gotime
  ws_err :: string

datatype run_state = Waiting | Monitoring "gotime option" | RunReturned bool

record coordinator =
  token :: string
  expect :: int
  c_cfg :: config
  c_runID :: string
  c_delay :: duration
  workers :: "string \<Rightarrow> workerState option"
  order :: "string list"
  job :: "Job option"
  c_released :: bool
  c_started :: gotime
  c_done :: bool
  running :: run_state

record CoordinatorOptions =
  opt_Expect :: int
  opt_Token :: string
  opt_RunID :: string
  opt_StartDelay :: duration

datatype coord_error = CoordConfig config_error | BadExpect

definition NewCoordinator :: "config \<Rightarrow> CoordinatorOptions \<Rightarrow> coord_error + coordinator" where
  "NewCoordinator cf opts =
     (case Validate cf of
        (_, Some e) \<Rightarrow> Inl (CoordConfig e)
      | (cf', None) \<Rightarrow>
          if opt_Expect opts < 1 then Inl BadExpect
          else Inr \<lparr>token = opt_Token opts, expect = opt_Expect opts, c_cfg = cf', c_runID = opt_RunID opts,
            c_delay = (if opt_StartDelay opts \<le> 0 then 3 * Second else opt_StartDelay opts),
            workers = (\<lambda>_. None), order = [], job = None, c_released = False, c_started = 0, c_done = False,
            running = Waiting\<rparr>)"

section \<open>Handlers\<close>

datatype response =
    Unauthorized | BadRequest | Conflict | NotFound | NoContent | NoReply
  | Registered string | JobReply Job

definition auth :: "string \<Rightarrow> (coordinator \<Rightarrow> coordinator \<times> response) \<Rightarrow> coordinator \<Rightarrow> coordinator \<times> response" where
  "auth tok h c = (if token c \<noteq> [] \<and> tok \<noteq> token c then (c, Unauthorized) else h c)"

definition worker_id :: "nat \<Rightarrow> string" where
  "worker_id n = ''w'' @ pad3 n"

definition handleRegister :: "gotime \<Rightarrow> registerRequest option \<Rightarrow> coordinator \<Rightarrow> coordinator \<times> response" where
  "handleRegister now body c =
     (case body of None \<Rightarrow> (c, BadRequest)
      | Some req \<Rightarrow>
          if job c \<noteq> None then (c, Conflict)
          else let id = worker_id (length (order c) + 1);
                   name = (if reg_Name req = [] then id else reg_Name req);
                   w = \<lparr>ws_id = id, ws_name = name, ws_host = reg_Host req, ws_cpus = reg_CPUs req, ws_snap = None,
                        ws_state = ''ready'', lastSeen = now, ws_err = []\<rparr> in
            (c\<lparr>workers := (workers c)(id \<mapsto> w), order := order c @ [id]\<rparr>, Registered id))"

text \<open>The long poll ends when the job is released, after 25 seconds, or when the client goes away.\<close>

datatype poll_end = PollReleased | PollTimeout | PollGone

definition handleJob :: "gotime \<Rightarrow> poll_end \<Rightarrow> string \<Rightarrow> coordinator \<Rightarrow> coordinator \<times> response" where
  "handleJob now poll wid c =
     (case workers c wid of None \<Rightarrow> (c, NotFound)
      | Some w \<Rightarrow>
          (case poll of
             PollReleased \<Rightarrow>
               (case job c of None \<Rightarrow> (c, NoReply)
                | Some j \<Rightarrow> (c\<lparr>workers := (workers c)(wid \<mapsto> w\<lparr>ws_state := ''running''\<rparr>)\<rparr>,
                            JobReply (j\<lparr>StartDelay := max 0 (c_started c - now)\<rparr>)))
           | PollTimeout \<Rightarrow> (c, NoContent)
           | PollGone \<Rightarrow> (c, NoReply)))"

definition final_state :: "string \<Rightarrow> bool" where
  "final_state s \<longleftrightarrow> s = ''done'' \<or> s = ''failed'' \<or> s = ''lost''"

definition allFinishedLocked :: "coordinator \<Rightarrow> bool" where
  "allFinishedLocked c \<longleftrightarrow> job c \<noteq> None \<and> order c \<noteq> [] \<and>
     list_all (\<lambda>id. case workers c id of None \<Rightarrow> False | Some w \<Rightarrow> final_state (ws_state w)) (order c)"

definition finish :: "coordinator \<Rightarrow> coordinator" where
  "finish c = c\<lparr>c_done := True\<rparr>"

definition apply_report :: "gotime \<Rightarrow> reportRequest \<Rightarrow> workerState \<Rightarrow> workerState" where
  "apply_report now req w =
     (let w = (case rep_Snapshot req of None \<Rightarrow> w | Some s \<Rightarrow> w\<lparr>ws_snap := Some s\<rparr>);
          w = w\<lparr>lastSeen := now\<rparr> in
      if rep_Error req \<noteq> [] then w\<lparr>ws_state := ''failed'', ws_err := rep_Error req\<rparr>
      else if rep_Done req then w\<lparr>ws_state := ''done''\<rparr>
      else w)"

definition handleReport :: "gotime \<Rightarrow> reportRequest option \<Rightarrow> coordinator \<Rightarrow> coordinator \<times> response" where
  "handleReport now body c =
     (case body of None \<Rightarrow> (c, BadRequest)
      | Some req \<Rightarrow>
          (case workers c (rep_ID req) of None \<Rightarrow> (c, NotFound)
           | Some w \<Rightarrow>
               (let c' = c\<lparr>workers := (workers c)(rep_ID req \<mapsto> apply_report now req w)\<rparr> in
                (if allFinishedLocked c' then finish c' else c', NoContent))))"

section \<open>Aggregation and views\<close>

definition coord_Snapshot :: "coordinator \<Rightarrow> snapshot" where
  "coord_Snapshot c =
     fold (\<lambda>id acc. case workers c id of None \<Rightarrow> acc | Some w \<Rightarrow> Merge acc (ws_snap w)) (order c) NewSnapshot"

record WorkerView =
  wv_Name :: string
  wv_State :: string
  wv_Snapshot :: "snapshot option"

definition view_before :: "WorkerView \<Rightarrow> WorkerView \<Rightarrow> bool" where
  "view_before a b \<longleftrightarrow> wv_Name a < wv_Name b"

definition Workers :: "coordinator \<Rightarrow> WorkerView list" where
  "Workers c = sort_by view_before
     (List.map_filter (\<lambda>id. map_option
        (\<lambda>w. \<lparr>wv_Name = ws_name w, wv_State = ws_state w, wv_Snapshot = ws_snap w\<rparr>) (workers c id)) (order c))"

definition WorkerCount :: "coordinator \<Rightarrow> int" where
  "WorkerCount c = int (length (order c))"

definition p99_ms :: "snapshot \<Rightarrow> real" where
  "p99_ms sn = f64 (float_of_int (Microseconds (Percentile sn (f64 (99 / 100)))) / 1000)"

record status_worker =
  sw_Name :: string
  sw_Host :: string
  sw_State :: string
  sw_Requests :: u64
  sw_Error :: string
  sw_P99Ms :: real

record status_view =
  st_run_id :: string
  st_expected :: int
  st_workers :: "status_worker list"
  st_requests :: u64
  st_failures :: u64
  st_rps :: real
  st_p99_ms :: real

definition handleStatus :: "coordinator \<Rightarrow> status_view" where
  "handleStatus c =
     (let sn = coord_Snapshot c in
      \<lparr>st_run_id = c_runID c, st_expected = expect c,
       st_workers = List.map_filter (\<lambda>id. map_option
         (\<lambda>w. \<lparr>sw_Name = ws_name w, sw_Host = ws_host w, sw_State = ws_state w,
            sw_Requests = (case ws_snap w of None \<Rightarrow> 0 | Some s \<Rightarrow> Requests s), sw_Error = ws_err w,
            sw_P99Ms = (case ws_snap w of None \<Rightarrow> 0 | Some s \<Rightarrow> p99_ms s)\<rparr>) (workers c id)) (order c),
       st_requests = Requests sn, st_failures = Failures sn, st_rps = RPS sn, st_p99_ms = p99_ms sn\<rparr>)"

section \<open>The main loop\<close>

text \<open>The share of one of \<open>n\<close> workers: the rate is divided, the request budget rounded up.\<close>

definition split_config :: "nat \<Rightarrow> config \<Rightarrow> config" where
  "split_config n cf =
     (let cf = (if 0 < Rate cf then cf\<lparr>Rate := f64 (Rate cf / float_of_int (int n))\<rparr> else cf) in
      if 0 < MaxRequests cf
      then cf\<lparr>MaxRequests := (MaxRequests cf + of_nat n - 1) div of_nat n\<rparr> else cf)"

definition run_deadline :: "coordinator \<Rightarrow> config \<Rightarrow> duration" where
  "run_deadline c cf =
     (if 0 < Duration cf then i64 (i64 (i64 (c_delay c + Duration cf) + Timeout cf) + 30 * Second) else 0)"

definition release :: "gotime \<Rightarrow> coordinator \<Rightarrow> coordinator" where
  "release now c =
     (let cf = split_config (length (order c)) (c_cfg c); dl = run_deadline c cf in
      c\<lparr>job := Some \<lparr>RunID = c_runID c, job_Config = cf, StartDelay = c_delay c\<rparr>,
        c_started := now + c_delay c, c_released := True,
        running := Monitoring (if 0 < dl then Some (now + dl) else None)\<rparr>)"

definition each_worker :: "(workerState \<Rightarrow> workerState) \<Rightarrow> coordinator \<Rightarrow> coordinator" where
  "each_worker f c = c\<lparr>workers := fold (\<lambda>id ws. ws(id := map_option f (ws id))) (order c) (workers c)\<rparr>"

definition lose_unfinished :: "workerState \<Rightarrow> workerState" where
  "lose_unfinished w =
     (if ws_state w = ''running'' \<or> ws_state w = ''ready'' then w\<lparr>ws_state := ''lost''\<rparr> else w)"

definition lose_silent :: "gotime \<Rightarrow> workerState \<Rightarrow> workerState" where
  "lose_silent now w =
     (if ws_state w = ''running'' \<and> ws_snap w \<noteq> None \<and> 15 * Second < now - lastSeen w
      then w\<lparr>ws_state := ''lost''\<rparr> else w)"

definition markLost :: "gotime \<Rightarrow> coordinator \<Rightarrow> coordinator" where
  "markLost now c =
     (let c' = each_worker (lose_silent now) c in if allFinishedLocked c' then finish c' else c')"

definition deadline_reached :: "coordinator \<Rightarrow> coordinator" where
  "deadline_reached c = (finish (each_worker lose_unfinished c))\<lparr>running := RunReturned True\<rparr>"

datatype (discs_sels) cevent =
    Register gotime string "registerRequest option"
  | PollJob gotime string poll_end string
  | Report gotime string "reportRequest option"
  | WaitCancelled
  | Release gotime
  | RunCancelled
  | RunDone
  | DeadlineReached gotime
  | Tick gotime

text \<open>A long poll can only end with the job once it is released; the events of \<open>Run\<close> follow its
  control flow, with the result \<open>True\<close> for a nil error.\<close>

fun coord_step :: "coordinator \<Rightarrow> cevent \<Rightarrow> coordinator option" where
  "coord_step c (Register now tok body) = Some (fst (auth tok (handleRegister now body) c))"
| "coord_step c (PollJob now tok poll wid) =
     guard (poll = PollReleased \<longrightarrow> c_released c) (fst (auth tok (handleJob now poll wid) c))"
| "coord_step c (Report now tok body) = Some (fst (auth tok (handleReport now body) c))"
| "coord_step c WaitCancelled =
     guard (running c = Waiting \<and> WorkerCount c < expect c) (c\<lparr>running := RunReturned False\<rparr>)"
| "coord_step c (Release now) = guard (running c = Waiting \<and> expect c \<le> WorkerCount c) (release now c)"
| "coord_step c RunCancelled =
     guard (case running c of Monitoring d \<Rightarrow> True | _ \<Rightarrow> False) ((finish c)\<lparr>running := RunReturned False\<rparr>)"
| "coord_step c RunDone =
     guard (case running c of Monitoring d \<Rightarrow> c_done c | _ \<Rightarrow> False) (c\<lparr>running := RunReturned True\<rparr>)"
| "coord_step c (DeadlineReached now) =
     guard (case running c of Monitoring (Some d) \<Rightarrow> d \<le> now | _ \<Rightarrow> False) (deadline_reached c)"
| "coord_step c (Tick now) =
     guard (case running c of Monitoring d \<Rightarrow> True | _ \<Rightarrow> False) (markLost now c)"

definition fresh_coordinator :: "coordinator \<Rightarrow> bool" where
  "fresh_coordinator c \<longleftrightarrow> (\<exists>cf opts. NewCoordinator cf opts = Inr c)"

end
