(* ===== verification/Coordinator_Run.thy ===== *)
theory Coordinator_Run
  imports Coordinator Engine_Run
begin

text \<open>
  What the coordinator guarantees over any sequence of worker requests and events of its own loop:
  worker ids are unique and every list and map agrees, the job is frozen once released, the merged
  snapshot is exact and independent of the order of the workers, the split of the budget covers it,
  and the run is over only for a reason.
\<close>

section \<open>The invariant of the coordinator\<close>

definition worker_states :: "string list" where
  "worker_states = [''ready'', ''running'', ''done'', ''failed'', ''lost'']"

text \<open>Worker records are filed under their id, in a known state, and run only after the release.\<close>

definition workers_ok :: "(string \<Rightarrow> workerState option) \<Rightarrow> bool \<Rightarrow> bool" where
  "workers_ok ws rel \<longleftrightarrow> (\<forall>wid w. ws wid = Some w \<longrightarrow> ws_id w = wid \<and> ws_state w \<in> set worker_states \<and>
     (ws_state w = ''running'' \<longrightarrow> rel))"

lemma workers_okD:
  "workers_ok ws rel \<Longrightarrow> ws wid = Some w \<Longrightarrow> ws_id w = wid \<and> ws_state w \<in> set worker_states \<and> (ws_state w = ''running'' \<longrightarrow> rel)"
  by (simp add: workers_ok_def)

definition coord_inv :: "coordinator \<Rightarrow> bool" where
  "coord_inv c \<longleftrightarrow>
     map (\<lambda>i. worker_id (Suc i)) [0..<length (order c)] = order c \<and>
     dom (workers c) = set (order c) \<and>
     workers_ok (workers c) (job c \<noteq> None) \<and>
     1 \<le> expect c \<and> valid_config (c_cfg c) \<and> 0 < c_delay c \<and>
     (c_released c \<longleftrightarrow> job c \<noteq> None) \<and> (c_done c \<longrightarrow> job c \<noteq> None) \<and>
     (running c = Waiting \<longrightarrow> job c = None) \<and> (\<forall>d. running c = Monitoring d \<longrightarrow> job c \<noteq> None) \<and>
     (\<forall>j. job c = Some j \<longrightarrow> job_Config j = split_config (length (order c)) (c_cfg c) \<and> expect c \<le> WorkerCount c)"

lemma worker_id_inject [simp]: "worker_id m = worker_id n \<longleftrightarrow> m = n"
  by (simp add: worker_id_def)

lemma each_worker_lookup:
  assumes "\<And>w. f (f w) = f w"
  shows "workers (each_worker f c) wid = (if wid \<in> set (order c) then map_option f (workers c wid) else workers c wid)"
proof -
  have "fold (\<lambda>id ws. ws(id := map_option f (ws id))) ids ws wid =
      (if wid \<in> set ids then map_option f (ws wid) else ws wid)" for ids ws
    using assms by (induction ids arbitrary: ws) (auto simp: option.map_comp o_def)
  then show ?thesis by (simp add: each_worker_def)
qed

lemma each_worker_frame [simp]:
  "order (each_worker f c) = order c" "job (each_worker f c) = job c" "c_done (each_worker f c) = c_done c"
  "running (each_worker f c) = running c" "expect (each_worker f c) = expect c" "c_cfg (each_worker f c) = c_cfg c"
  "c_released (each_worker f c) = c_released c" "c_delay (each_worker f c) = c_delay c"
  "token (each_worker f c) = token c" "c_started (each_worker f c) = c_started c"
  by (simp_all add: each_worker_def)

lemma finish_frame [simp]:
  "order (finish c) = order c" "job (finish c) = job c" "workers (finish c) = workers c" "c_done (finish c)"
  "running (finish c) = running c" "expect (finish c) = expect c" "c_cfg (finish c) = c_cfg c"
  "c_released (finish c) = c_released c" "c_delay (finish c) = c_delay c"
  "token (finish c) = token c" "c_started (finish c) = c_started c"
  by (simp_all add: finish_def)

lemma lose_idem: "lose_silent now (lose_silent now w) = lose_silent now w" "lose_unfinished (lose_unfinished w) = lose_unfinished w"
  by (auto simp: lose_silent_def lose_unfinished_def)

lemma lose_frame:
  "ws_id (lose_silent now w) = ws_id w" "ws_id (lose_unfinished w) = ws_id w"
  "ws_state (lose_silent now w) = ws_state w \<or> ws_state (lose_silent now w) = ''lost''"
  "ws_state (lose_unfinished w) = ws_state w \<or> ws_state (lose_unfinished w) = ''lost''"
  "ws_snap (lose_silent now w) = ws_snap w" "ws_snap (lose_unfinished w) = ws_snap w"
  by (auto simp: lose_silent_def lose_unfinished_def)

lemma apply_report_frame:
  "ws_id (apply_report now req w) = ws_id w"
  "ws_state (apply_report now req w) = ws_state w \<or> ws_state (apply_report now req w) \<in> set [''done'', ''failed'']"
  "ws_snap (apply_report now req w) = (case rep_Snapshot req of None \<Rightarrow> ws_snap w | s \<Rightarrow> s)"
  by (auto simp: apply_report_def Let_def split: option.splits)

lemma allFinished_job: "allFinishedLocked c \<Longrightarrow> job c \<noteq> None"
  by (simp add: allFinishedLocked_def)

text \<open>Changing the records of registered workers, one by one, keeps the invariant.\<close>

lemma coord_inv_workers:
  assumes "coord_inv c" "dom ws = dom (workers c)" "workers_ok ws (job c \<noteq> None)" "d \<longrightarrow> job c \<noteq> None"
  shows "coord_inv (c\<lparr>workers := ws, c_done := d\<rparr>)"
  using assms unfolding coord_inv_def WorkerCount_def by auto

lemma coord_inv_okD: "coord_inv c \<Longrightarrow> workers_ok (workers c) (job c \<noteq> None)"
  by (simp add: coord_inv_def)

lemma each_worker_dom: "dom (workers (each_worker f c)) = dom (workers c)"
proof -
  have "dom (fold (\<lambda>id ws. ws(id := map_option f (ws id))) ids ws) = dom ws" for ids ws
    by (induction ids arbitrary: ws) (auto simp: dom_def)
  then show ?thesis by (simp add: each_worker_def)
qed

lemma coord_inv_each:
  assumes inv: "coord_inv c" and idem: "\<And>w. f (f w) = f w" and id: "\<And>w. ws_id (f w) = ws_id w"
    and st: "\<And>w. ws_state (f w) = ws_state w \<or> ws_state (f w) = ''lost''"
  shows "coord_inv (each_worker f c)"
proof -
  have lost: "''lost'' \<in> set worker_states" by (simp add: worker_states_def)
  have "workers_ok (workers (each_worker f c)) (job c \<noteq> None)"
    unfolding workers_ok_def
  proof (intro allI impI)
    fix wid w'
    assume "workers (each_worker f c) wid = Some w'"
    then obtain w where w: "workers c wid = Some w" and f: "w' = w \<or> w' = f w"
      by (auto simp: each_worker_lookup [of f, OF idem] split: if_splits)
    then show "ws_id w' = wid \<and> ws_state w' \<in> set worker_states \<and> (ws_state w' = ''running'' \<longrightarrow> job c \<noteq> None)"
      using workers_okD [OF coord_inv_okD [OF inv] w] id [of w] st [of w] lost by auto
  qed
  moreover have "each_worker f c = c\<lparr>workers := workers (each_worker f c), c_done := c_done c\<rparr>"
    by (simp add: each_worker_def)
  moreover have "c_done c \<longrightarrow> job c \<noteq> None" using inv by (simp add: coord_inv_def)
  ultimately show ?thesis using coord_inv_workers [OF inv each_worker_dom] by metis
qed

lemma coord_inv_finish: "coord_inv c \<Longrightarrow> job c \<noteq> None \<Longrightarrow> coord_inv (finish c)"
  unfolding coord_inv_def WorkerCount_def by auto

lemma workers_ok_update:
  "workers_ok ws rel \<Longrightarrow> ws_id w = wid \<Longrightarrow> ws_state w \<in> set worker_states \<Longrightarrow> ws_state w = ''running'' \<longrightarrow> rel \<Longrightarrow>
     workers_ok (ws(wid \<mapsto> w)) rel"
  by (simp add: workers_ok_def)

lemma coord_inv_update:
  assumes inv: "coord_inv c" and w: "workers c wid = Some w" and id: "ws_id w' = ws_id w"
    and st: "ws_state w' \<in> set worker_states" "ws_state w' = ''running'' \<longrightarrow> job c \<noteq> None"
  shows "coord_inv (c\<lparr>workers := (workers c)(wid \<mapsto> w')\<rparr>)"
proof -
  have "workers_ok ((workers c)(wid \<mapsto> w')) (job c \<noteq> None)"
    using workers_okD [OF coord_inv_okD [OF inv] w] id st coord_inv_okD [OF inv] by (intro workers_ok_update) simp_all
  moreover have "dom ((workers c)(wid \<mapsto> w')) = dom (workers c)" using w by auto
  moreover have "c_done c \<longrightarrow> job c \<noteq> None" using inv by (simp add: coord_inv_def)
  ultimately have "coord_inv (c\<lparr>workers := (workers c)(wid \<mapsto> w'), c_done := c_done c\<rparr>)"
    using inv by (intro coord_inv_workers)
  then show ?thesis by simp
qed

lemma coord_inv_register:
  assumes inv: "coord_inv c" and job: "job c = None" and id: "wid = worker_id (length (order c) + 1)"
    and w: "ws_id w = wid" "ws_state w = ''ready''"
  shows "coord_inv (c\<lparr>workers := (workers c)(wid \<mapsto> w), order := order c @ [wid]\<rparr>)"
proof -
  have "workers_ok ((workers c)(wid \<mapsto> w)) (job c \<noteq> None)"
    using coord_inv_okD [OF inv] w by (intro workers_ok_update) (simp_all add: worker_states_def)
  then show ?thesis using inv job id unfolding coord_inv_def WorkerCount_def by auto
qed

lemma coord_inv_release:
  assumes "coord_inv c" "running c = Waiting" "expect c \<le> WorkerCount c"
  shows "coord_inv (release now c)"
  using assms by (auto simp: coord_inv_def release_def Let_def WorkerCount_def workers_ok_def)

lemma coord_inv_handlers:
  assumes inv: "coord_inv c"
  shows "coord_inv (fst (auth tok (handleRegister now body) c))"
    and "coord_inv (fst (auth tok (handleJob now poll wid) c))"
    and "coord_inv (fst (auth tok (handleReport now rep) c))"
proof -
  show "coord_inv (fst (auth tok (handleRegister now body) c))"
    using inv by (auto simp: auth_def handleRegister_def Let_def intro: coord_inv_register split: option.splits)
  show "coord_inv (fst (auth tok (handleJob now poll wid) c))"
    using inv by (auto simp: auth_def handleJob_def worker_states_def intro!: coord_inv_update split: option.splits poll_end.splits)
  show "coord_inv (fst (auth tok (handleReport now rep) c))"
  proof (cases "\<exists>req w. rep = Some req \<and> workers c (rep_ID req) = Some w")
    case True
    then obtain req w where r: "rep = Some req" "workers c (rep_ID req) = Some w" by blast
    let ?c = "c\<lparr>workers := (workers c)(rep_ID req \<mapsto> apply_report now req w)\<rparr>"
    have "ws_state w \<in> set worker_states" "ws_state w = ''running'' \<longrightarrow> job c \<noteq> None"
      using workers_okD [OF coord_inv_okD [OF inv] r(2)] by simp_all
    then have "coord_inv ?c"
      using inv r(2) apply_report_frame [of now req w]
      by (intro coord_inv_update) (auto simp: worker_states_def)
    then show ?thesis using inv r coord_inv_finish [of ?c] allFinished_job [of ?c]
      by (simp add: auth_def handleReport_def Let_def)
  qed (use inv in \<open>auto simp: auth_def handleReport_def split: option.splits\<close>)
qed

lemma coord_inv_run:
  assumes "coord_inv c" "running c = Monitoring d" "\<And>d. r \<noteq> Monitoring d" "r \<noteq> Waiting"
  shows "coord_inv (c\<lparr>running := r\<rparr>)"
  using assms unfolding coord_inv_def WorkerCount_def by auto

lemma coord_inv_step: "coord_inv c \<Longrightarrow> coord_step c ev = Some c' \<Longrightarrow> coord_inv c'"
proof (cases ev)
  case (Tick now)
  assume inv: "coord_inv c" and step: "coord_step c ev = Some c'"
  let ?c = "each_worker (lose_silent now) c"
  have "coord_inv ?c" using inv by (rule coord_inv_each) (simp_all add: lose_idem lose_frame)
  then show ?thesis using step Tick coord_inv_finish [of ?c] allFinished_job [of ?c]
    by (auto simp: markLost_def Let_def)
next
  case (DeadlineReached now)
  assume inv: "coord_inv c" and step: "coord_step c ev = Some c'"
  then obtain d where m: "running c = Monitoring d" and c': "c' = deadline_reached c"
    using DeadlineReached by (auto split: run_state.splits option.splits)
  have "coord_inv (each_worker lose_unfinished c)"
    using inv by (rule coord_inv_each) (simp_all add: lose_idem lose_frame)
  moreover have "job c \<noteq> None" using inv m by (simp add: coord_inv_def)
  ultimately have "coord_inv (finish (each_worker lose_unfinished c))" by (intro coord_inv_finish) simp_all
  then show ?thesis using m c' unfolding deadline_reached_def by (auto intro!: coord_inv_run)
next
  case RunCancelled
  assume inv: "coord_inv c" and step: "coord_step c ev = Some c'"
  then obtain d where m: "running c = Monitoring d" and c': "c' = (finish c)\<lparr>running := RunReturned False\<rparr>"
    using RunCancelled by (auto split: run_state.splits)
  then have "coord_inv (finish c)" using inv by (intro coord_inv_finish) (auto simp: coord_inv_def)
  then show ?thesis using m c' by (auto intro!: coord_inv_run)
next
  case WaitCancelled
  assume "coord_inv c" and "coord_step c ev = Some c'"
  then show ?thesis using WaitCancelled unfolding coord_inv_def WorkerCount_def by auto
qed (auto simp: coord_inv_handlers coord_inv_release intro!: coord_inv_run split: run_state.splits)

lemma coord_inv_fresh: "fresh_coordinator c \<Longrightarrow> coord_inv c"
proof -
  assume "fresh_coordinator c"
  then obtain cf opts where n: "NewCoordinator cf opts = Inr c" by (auto simp: fresh_coordinator_def)
  then have "valid_config (fst (Validate cf))"
    using Validate_None [of cf] defaulted_valid [of cf] Validate_acceptable [of cf]
    by (auto simp: NewCoordinator_def split: prod.splits option.splits)
  with n show ?thesis
    by (auto simp: NewCoordinator_def coord_inv_def workers_ok_def split: prod.splits option.splits if_splits)
qed


interpretation coordinator: machine coord_step fresh_coordinator
  "\<lambda>c0 es c. coord_inv c \<and> token c = token c0 \<and> c_cfg c = c_cfg c0 \<and> expect c = expect c0"
proof (unfold_locales, goal_cases)
  case (1 c0)
  then show ?case by (simp add: coord_inv_fresh)
next
  case (2 c0 es c ev c')
  then have "token c' = token c" "c_cfg c' = c_cfg c" "expect c' = expect c"
    by (cases ev; auto simp: auth_def handleRegister_def handleJob_def handleReport_def release_def markLost_def
        deadline_reached_def Let_def split: option.splits poll_end.splits if_splits)+
  with 2 show ?case using coord_inv_step [of c ev c'] by simp
qed

section \<open>Identity of workers\<close>

lemma coord_inv_distinct:
  assumes "coord_inv c"
  shows "distinct (order c)"
proof -
  have "order c = map (\<lambda>i. worker_id (Suc i)) [0..<length (order c)]" using assms by (simp add: coord_inv_def)
  moreover have "distinct (map (\<lambda>i. worker_id (Suc i)) [0..<length (order c)])"
    by (simp add: distinct_map inj_on_def)
  ultimately show ?thesis by metis
qed

text \<open>C22: In every reachable state of the coordinator the worker ids are distinct, each listed id has a
  record filed under it and no other record exists, each worker is in one of the five states, no worker
  runs before the release, and the released job is the configured run split by the number of workers,
  of which there are at least as many as expected.\<close>

theorem coordinator_invariant:
  assumes "fresh_coordinator c0" "exec coord_step c0 es = Some c"
  shows "distinct (order c) \<and> dom (workers c) = set (order c) \<and>
    (\<forall>wid w. workers c wid = Some w \<longrightarrow> ws_id w = wid \<and> ws_state w \<in> set worker_states \<and>
       (ws_state w = ''running'' \<longrightarrow> job c \<noteq> None)) \<and>
    (\<forall>j. job c = Some j \<longrightarrow> job_Config j = split_config (length (order c)) (c_cfg c0) \<and> expect c0 \<le> WorkerCount c)"
proof -
  have inv: "coord_inv c" "c_cfg c = c_cfg c0" "expect c = expect c0"
    using coordinator.inv_exec [OF assms] by simp_all
  show ?thesis using inv coord_inv_distinct [OF inv(1)] workers_okD [OF coord_inv_okD [OF inv(1)]] by (auto simp: coord_inv_def)
qed

lemma frozen_step:
  assumes "coord_inv c" "job c = Some j" "coord_step c ev = Some c'"
  shows "job c' = Some j \<and> order c' = order c \<and> c_started c' = c_started c"
  using assms
  by (cases ev; auto simp: coord_inv_def auth_def handleRegister_def handleJob_def handleReport_def markLost_def
        deadline_reached_def Let_def split: option.splits poll_end.splits if_splits)

lemma frozen_exec:
  assumes "coord_inv c" "job c = Some j" "exec coord_step c es = Some c'"
  shows "job c' = Some j \<and> order c' = order c \<and> c_started c' = c_started c"
  using assms
proof (induction es arbitrary: c)
  case (Cons ev es)
  then obtain r where r: "coord_step c ev = Some r" "exec coord_step r es = Some c'" by (auto split: option.splits)
  with Cons.prems frozen_step [OF Cons.prems(1,2) r(1)] coord_inv_step [OF Cons.prems(1) r(1)] Cons.IH [of r]
  show ?case by simp
qed simp


text \<open>Once the job is released the set of workers and the job are final: whatever happens next, no
  worker can join and the job, its start time and its split stay as they are.\<close>

theorem released_job_final:
  assumes "fresh_coordinator c0" "exec coord_step c0 es = Some c" "job c = Some j" "exec coord_step c fs = Some c'"
  shows "job c' = Some j \<and> order c' = order c \<and> c_started c' = c_started c"
  using coordinator.inv_exec [OF assms(1,2)] frozen_exec [OF _ assms(3,4)] by simp

section \<open>Aggregation\<close>

text \<open>The snapshots the workers have reported, in the order of the workers.\<close>

definition reported :: "coordinator \<Rightarrow> snapshot list" where
  "reported c = List.map_filter (\<lambda>wid. Option.bind (workers c wid) ws_snap) (order c)"

lemma Merge_None [simp]: "Merge s None = s"
  by (simp add: Merge_def)

lemma coord_Snapshot_merge_all: "coord_Snapshot c = snapshots.merge_all (reported c) NewSnapshot"
proof -
  have "fold (\<lambda>id acc. case workers c id of None \<Rightarrow> acc | Some w \<Rightarrow> Merge acc (ws_snap w)) ids acc =
      snapshots.merge_all (List.map_filter (\<lambda>wid. Option.bind (workers c wid) ws_snap) ids) acc" for ids acc
  proof (induction ids arbitrary: acc)
    case (Cons wid ids)
    then show ?case
      by (cases "workers c wid"; cases "ws_snap (the (workers c wid))")
        (simp_all add: snapshots.merge_all_def List.map_filter_simps)
  qed (simp add: snapshots.merge_all_def List.map_filter_simps)
  then show ?thesis by (simp add: coord_Snapshot_def reported_def)
qed

lemma merge_all_snapshot_of:
  "\<forall>r\<in>set rs. length (snd r) < 2 ^ 64 \<Longrightarrow>
     snapshots.merge_all (map (\<lambda>r. snapshot_of (fst r) (snd r)) rs) (snapshot_of e xs) =
     snapshot_of (fold max (map fst rs) e) (xs @ concat (map snd rs))"
proof (induction rs arbitrary: e xs)
  case (Cons r rs)
  then show ?case by (simp add: snapshots.merge_all_def Merge_snapshot_of max.commute)
qed (simp add: snapshots.merge_all_def)

lemma merged_snapshot:
  assumes "reported c = map (\<lambda>r. snapshot_of (fst r) (snd r)) rs" "\<forall>r\<in>set rs. length (snd r) < 2 ^ 64"
  shows "coord_Snapshot c = snapshot_of (fold max (map fst rs) 0) (concat (map snd rs))"
  using merge_all_snapshot_of [OF assms(2), of 0 "[]"] assms(1)
  by (simp add: coord_Snapshot_merge_all NewSnapshot_snapshot_of)

text \<open>C4: Aggregation over machines is exact: when the workers have reported the snapshots of their runs,
  the coordinator's snapshot is the one a single machine would have recorded for all their samples,
  with the longest elapsed time; in particular every percentile is the percentile of all samples.\<close>

theorem coordinator_snapshot_exact:
  assumes "reported c = map (\<lambda>r. snapshot_of (fst r) (snd r)) rs" "\<forall>r\<in>set rs. length (snd r) < 2 ^ 64"
  shows "coord_Snapshot c = snapshot_of (fold max (map fst rs) 0) (concat (map snd rs))"
  using assms by (rule merged_snapshot)

lemma mset_map_filter: "mset xs = mset ys \<Longrightarrow> mset (List.map_filter f xs) = mset (List.map_filter f ys)"
  unfolding List.map_filter_def by (metis mset_filter mset_map)

text \<open>The coordinator's snapshot does not depend on the order in which the workers registered, for
  well-formed reports whose requests together stay below the range of the counter.\<close>

theorem coordinator_order_independent:
  assumes "mset (order c) = mset (order c')" "workers c = workers c'"
    and "\<forall>s\<in>set (reported c). wf_snapshot s" "sum_list (map (\<lambda>s. unat (Requests s)) (reported c)) < 2 ^ 64"
  shows "coord_Snapshot c = coord_Snapshot c'"
proof -
  have "mset (reported c) = mset (reported c')"
    unfolding reported_def assms(2) using assms(1) by (rule mset_map_filter)
  moreover have "unat (Requests NewSnapshot) + sum_list (map (\<lambda>s. unat (Requests s)) (reported c)) < 2 ^ 64"
    unfolding snapshots.weight_unit using assms(4) by linarith
  ultimately show ?thesis unfolding coord_Snapshot_merge_all
    using assms(3) snapshots.wf_unit by (intro snapshots.merge_all_mset)
qed


section \<open>The split of the run\<close>

lemma ceil_div_bounds:
  fixes m n :: nat
  assumes "0 < n"
  shows "m \<le> n * ((m + n - 1) div n)" "n * ((m + n - 1) div n) < m + n"
proof -
  have "n * ((m + n - 1) div n) + (m + n - 1) mod n = m + n - 1" by simp
  moreover have "(m + n - 1) mod n < n" using assms by simp
  ultimately show "m \<le> n * ((m + n - 1) div n)" "n * ((m + n - 1) div n) < m + n" using assms by linarith+
qed

lemma split_config_budget:
  assumes "0 < n" "0 < MaxRequests cf" "unat (MaxRequests cf) + n < 2 ^ 64"
  shows "unat (MaxRequests (split_config n cf)) = (unat (MaxRequests cf) + n - 1) div n"
proof -
  let ?m = "MaxRequests cf"
  have n: "unat (of_nat n :: u64) = n" using assms(3) by (simp add: unat_of_nat)
  have "unat (?m + of_nat n) = unat ?m + n" using assms(3) n by (simp add: unat_word_ariths)
  then have "unat (?m + of_nat n - 1) = unat ?m + n - 1"
    using assms(1) by (simp add: unat_sub word_le_nat_alt)
  then show ?thesis using assms(2) n by (simp add: split_config_def Let_def unat_div)
qed

text \<open>C28: The split covers the budget and wastes less than one request per worker: \<open>n\<close> workers that each
  perform their share perform at least \<open>MaxRequests\<close> and fewer than \<open>MaxRequests + n\<close> requests; the
  shares of the rate add up to the configured rate within one rounding.\<close>

theorem split_covers_budget:
  assumes "0 < n" "n \<le> 2 ^ 53" "0 < MaxRequests cf" "unat (MaxRequests cf) + n < 2 ^ 64"
    and "0 < Rate cf" "2 powr - 1022 \<le> Rate cf / n"
  shows "unat (MaxRequests cf) \<le> n * unat (MaxRequests (split_config n cf)) \<and>
    n * unat (MaxRequests (split_config n cf)) < unat (MaxRequests cf) + n \<and>
    \<bar>n * Rate (split_config n cf) - Rate cf\<bar> \<le> 2 powr - 53 * Rate cf"
proof -
  let ?r = "Rate cf / real n"
  define e :: real where "e = 2 powr - 53"
  have "Rate (split_config n cf) = f64 ?r"
    using assms(1,2,5) by (simp add: split_config_def Let_def float_of_int_def f64.fl_nat)
  moreover have "(1 - e) * ?r \<le> f64 ?r" "f64 ?r \<le> (1 + e) * ?r"
    unfolding e_def using f64.fl_lower [OF assms(6)] f64.fl_upper [OF assms(6)] by simp_all
  then have "n * ((1 - e) * ?r) \<le> n * f64 ?r" "n * f64 ?r \<le> n * ((1 + e) * ?r)"
    by (intro mult_left_mono; simp)+
  moreover have "n * ((1 - e) * ?r) = Rate cf - e * Rate cf" "n * ((1 + e) * ?r) = Rate cf + e * Rate cf"
    using assms(1) by (simp_all add: field_simps)
  ultimately have "\<bar>n * Rate (split_config n cf) - Rate cf\<bar> \<le> e * Rate cf" by (simp add: abs_le_iff)
  then show ?thesis unfolding e_def
    using ceil_div_bounds [OF assms(1), of "unat (MaxRequests cf)"] split_config_budget [OF assms(1,3,4)] by simp
qed

section \<open>How a run ends\<close>

lemma allFinished_finish [simp]: "allFinishedLocked (finish c) = allFinishedLocked c"
  by (simp add: allFinishedLocked_def)

lemma fresh_simps:
  assumes "fresh_coordinator c"
  shows "\<not> c_done c" "job c = None" "running c = Waiting" "order c = []"
proof -
  obtain cf opts where n: "NewCoordinator cf opts = Inr c" using assms by (auto simp: fresh_coordinator_def)
  obtain cf' e where v: "Validate cf = (cf', e)" by (cases "Validate cf")
  show "\<not> c_done c" "job c = None" "running c = Waiting" "order c = []"
    using n v by (auto simp: NewCoordinator_def split: option.splits if_splits)
qed

lemma done_step:
  assumes "coord_step c ev = Some c'" "\<not> c_done c" "c_done c'"
  shows "ev = RunCancelled \<or> is_DeadlineReached ev \<or> allFinishedLocked c'"
  using assms
  by (cases ev; auto simp: auth_def handleRegister_def handleJob_def handleReport_def release_def markLost_def
        Let_def split: option.splits poll_end.splits if_splits)

definition done_for_reason :: "coordinator \<Rightarrow> cevent list \<Rightarrow> bool" where
  "done_for_reason c0 es \<longleftrightarrow> RunCancelled \<in> set es \<or> (\<exists>ev\<in>set es. is_DeadlineReached ev) \<or>
     (\<exists>fs gs r. es = fs @ gs \<and> exec coord_step c0 fs = Some r \<and> allFinishedLocked r)"

lemma done_for_reason_mono: "done_for_reason c0 es \<Longrightarrow> done_for_reason c0 (es @ [ev])"
  unfolding done_for_reason_def by fastforce

interpretation ending: machine coord_step fresh_coordinator
  "\<lambda>c0 es c. exec coord_step c0 es = Some c \<and> (c_done c \<longrightarrow> done_for_reason c0 es)"
proof (unfold_locales, goal_cases)
  case (1 c0)
  then show ?case using fresh_simps by simp
next
  case (2 c0 es c ev c')
  then have run: "exec coord_step c0 (es @ [ev]) = Some c'" by (auto simp: exec_snoc)
  moreover have "done_for_reason c0 (es @ [ev])" if d: "c_done c'"
  proof (cases "c_done c")
    case True
    with 2 show ?thesis by (auto intro: done_for_reason_mono)
  next
    case False
    have "coord_step c ev = Some c'" using 2 by blast
    then consider "ev = RunCancelled" | "is_DeadlineReached ev" | "allFinishedLocked c'"
      using done_step [OF _ False d] by blast
    then show ?thesis
    proof cases
      case 3
      with run show ?thesis unfolding done_for_reason_def by (metis append_Nil2)
    qed (simp_all add: done_for_reason_def)
  qed
  ultimately show ?case by blast
qed

text \<open>The coordinator declares the run over only if it was cancelled, its deadline passed, or at some
  moment every registered worker was done, failed or lost.\<close>

theorem coordinator_done_for_reason:
  assumes "fresh_coordinator c0" "exec coord_step c0 es = Some c" "c_done c"
  shows "done_for_reason c0 es"
  using ending.inv_exec [OF assms(1,2)] assms(3) by blast

lemma lose_unfinished_final: "ws_state w \<in> set worker_states \<Longrightarrow> final_state (ws_state (lose_unfinished w))"
  by (auto simp: worker_states_def lose_unfinished_def final_state_def)

lemma run_deadline_exact:
  assumes "0 < Duration cf" "0 < c_delay c" "0 < Timeout cf" "c_delay c + Duration cf + Timeout cf + 30 * Second < 2 ^ 63"
  shows "run_deadline c cf = c_delay c + Duration cf + Timeout cf + 30 * Second"
proof -
  have "in_i64 (c_delay c + Duration cf)" "in_i64 (c_delay c + Duration cf + Timeout cf)"
    "in_i64 (c_delay c + Duration cf + Timeout cf + 30 * Second)"
    using assms by (auto simp: in_i64_def)
  with assms(1) show ?thesis by (simp add: run_deadline_def)
qed

lemma split_config_times [simp]: "Duration (split_config n cf) = Duration cf" "Timeout (split_config n cf) = Timeout cf"
  by (simp_all add: split_config_def Let_def)

lemma monitoring_step:
  "coord_step c ev = Some c' \<Longrightarrow> running c \<noteq> Waiting \<Longrightarrow>
     running c' \<noteq> Waiting \<and> (running c' = Monitoring d \<longrightarrow> running c = Monitoring d)"
  by (cases ev; auto simp: auth_def handleRegister_def handleJob_def handleReport_def markLost_def
        deadline_reached_def Let_def split: option.splits poll_end.splits if_splits)

lemma monitoring_exec:
  "exec coord_step c es = Some c' \<Longrightarrow> running c \<noteq> Waiting \<Longrightarrow> running c' = Monitoring d \<Longrightarrow> running c = Monitoring d"
proof (induction es arbitrary: c)
  case (Cons ev es)
  then obtain r where r: "coord_step c ev = Some r" "exec coord_step r es = Some c'" by (auto split: option.splits)
  with Cons monitoring_step [OF r(1) Cons.prems(2)] show ?case by blast
qed simp

text \<open>C27: A run with a duration ends whatever the workers do: releasing the job arms a deadline of the start
  delay, the duration, the request timeout and 30 seconds, and when it passes \<open>Run\<close> can return with
  every worker in a final state.\<close>

theorem coordinator_deadline:
  assumes "fresh_coordinator c0" "exec coord_step c0 es = Some c" "running c = Waiting" "expect c \<le> WorkerCount c"
    and "0 < Duration (c_cfg c)" "c_delay c + Duration (c_cfg c) + Timeout (c_cfg c) + 30 * Second < 2 ^ 63"
    and "exec coord_step (release t c) fs = Some c'" "running c' = Monitoring d"
    and "t + c_delay c + Duration (c_cfg c) + Timeout (c_cfg c) + 30 * Second \<le> now"
  shows "\<exists>c''. coord_step c' (DeadlineReached now) = Some c'' \<and> running c'' = RunReturned True \<and> c_done c'' \<and>
    (\<forall>wid w. workers c'' wid = Some w \<longrightarrow> final_state (ws_state w))"
proof -
  have "coord_inv c" using coordinator.inv_exec [OF assms(1,2)] by blast
  then have inv: "coord_inv c" "0 < c_delay c" "0 < Timeout (c_cfg c)"
    by (auto simp: coord_inv_def valid_config_def)
  let ?d = "c_delay c + Duration (c_cfg c) + Timeout (c_cfg c) + 30 * Second"
  have "run_deadline c (split_config (length (order c)) (c_cfg c)) = ?d"
    using assms(5,6) inv(2,3) run_deadline_exact [of "split_config (length (order c)) (c_cfg c)" c] by simp
  then have "running (release t c) = Monitoring (Some (t + ?d))"
    using assms(5) inv(2,3) by (simp add: release_def Let_def)
  then have m: "running c' = Monitoring (Some (t + ?d))"
    using monitoring_exec [OF assms(7) _ assms(8)] assms(8) by simp
  have ok: "coord_inv c'"
  proof -
    have "exec coord_step c0 (es @ Release t # fs) = Some c'"
      using assms(2-4,7) by (simp add: exec_append guard_def)
    then show ?thesis using coordinator.inv_exec [OF assms(1)] by blast
  qed
  have "final_state (ws_state w)" if fin: "workers (deadline_reached c') wid = Some w" for wid w
  proof -
    have "dom (workers c') = set (order c')" using ok by (simp add: coord_inv_def)
    then obtain v where "workers c' wid = Some v" "w = lose_unfinished v"
      using fin by (auto simp: deadline_reached_def each_worker_lookup [of lose_unfinished, OF lose_idem(2)] split: if_splits)
    then show ?thesis using workers_okD [OF coord_inv_okD [OF ok]] by (simp add: lose_unfinished_final)
  qed
  with m assms(9) show ?thesis by (auto simp: deadline_reached_def guard_def)
qed

text \<open>A worker that has registered but never reported is never marked lost: neither ticks nor the other
  workers end a run without a duration.\<close>

definition silent :: "workerState \<Rightarrow> bool" where
  "silent w \<longleftrightarrow> ws_snap w = None \<and> (ws_state w = ''ready'' \<or> ws_state w = ''running'')"

definition about_others :: "string \<Rightarrow> cevent \<Rightarrow> bool" where
  "about_others wid ev \<longleftrightarrow> ev \<noteq> RunCancelled \<and> (\<forall>now tok req. ev = Report now tok (Some req) \<longrightarrow> rep_ID req \<noteq> wid)"

definition held_up :: "string \<Rightarrow> coordinator \<Rightarrow> bool" where
  "held_up wid c \<longleftrightarrow> wid \<in> set (order c) \<and> (\<exists>w. workers c wid = Some w \<and> silent w) \<and>
     \<not> c_done c \<and> running c = Monitoring None"

lemma held_up_unfinished: "wid \<in> set (order c) \<Longrightarrow> workers c wid = Some w \<Longrightarrow> silent w \<Longrightarrow> \<not> allFinishedLocked c"
  by (force simp: allFinishedLocked_def silent_def final_state_def list_all_iff)

lemma held_up_step:
  assumes "held_up wid c" "about_others wid ev" "coord_step c ev = Some c'"
  shows "held_up wid c'"
proof -
  obtain w where w: "wid \<in> set (order c)" "workers c wid = Some w" "silent w" "\<not> c_done c" "running c = Monitoring None"
    using assms(1) by (auto simp: held_up_def)
  show ?thesis
  proof (cases ev)
    case (Tick now)
    have "lose_silent now w = w" using w(3) by (simp add: silent_def lose_silent_def)
    then have "workers (each_worker (lose_silent now) c) wid = Some w"
      using w(1,2) by (simp add: each_worker_lookup [of "lose_silent now", OF lose_idem(1)])
    then show ?thesis using assms(3) Tick w held_up_unfinished [of wid "each_worker (lose_silent now) c"]
      by (auto simp: markLost_def held_up_def)
  next
    case (Report now tok body)
    show ?thesis
    proof (cases "\<exists>req v. body = Some req \<and> workers c (rep_ID req) = Some v")
      case True
      then obtain req v where b: "body = Some req" "workers c (rep_ID req) = Some v" by blast
      let ?c = "c\<lparr>workers := (workers c)(rep_ID req \<mapsto> apply_report now req v)\<rparr>"
      have "workers ?c wid = Some w" using assms(2) Report b w(2) by (auto simp: about_others_def)
      then show ?thesis using assms(3) Report b w held_up_unfinished [of wid ?c]
        by (auto simp: auth_def handleReport_def held_up_def Let_def split: if_splits)
    qed (use assms Report in \<open>auto simp: auth_def handleReport_def split: option.splits\<close>)
  qed (use assms w in \<open>auto simp: about_others_def auth_def handleRegister_def handleJob_def held_up_def silent_def
      Let_def split: option.splits poll_end.splits if_splits\<close>)
qed

text \<open>C29: A worker that stops before its first report holds up a run without a duration for ever: as long as
  nothing is reported under its id and the run is not cancelled, no number of ticks and no reports of
  the other workers make the coordinator finish.\<close>

theorem silent_worker_blocks_run:
  assumes "held_up wid c" "list_all (about_others wid) es" "exec coord_step c es = Some c'"
  shows "\<not> c_done c' \<and> running c' = Monitoring None"
proof -
  have "held_up wid c'" using assms
  proof (induction es arbitrary: c)
    case (Cons ev es)
    then obtain r where r: "coord_step c ev = Some r" "exec coord_step r es = Some c'" by (auto split: option.splits)
    with Cons.prems have "held_up wid r" by (intro held_up_step [OF Cons.prems(1) _ r(1)]) simp
    with Cons r show ?case by simp
  qed simp
  then show ?thesis by (simp add: held_up_def)
qed


section \<open>A small coordinator\<close>

definition demo_coord :: "duration \<Rightarrow> coordinator" where
  "demo_coord d = \<lparr>token = [], expect = 1, c_cfg = demo_config\<lparr>Duration := d\<rparr>, c_runID = ''r'', c_delay = 3 * Second,
     workers = (\<lambda>_. None), order = [], job = None, c_released = False, c_started = 0, c_done = False, running = Waiting\<rparr>"

definition demo_worker :: "string \<Rightarrow> workerState" where
  "demo_worker st = \<lparr>ws_id = ''w001'', ws_name = ''a'', ws_host = ''h'', ws_cpus = 4, ws_snap = None, ws_state = st,
     lastSeen = 10, ws_err = []\<rparr>"

definition demo_register :: cevent where
  "demo_register = Register 10 [] (Some \<lparr>reg_Name = ''a'', reg_Host = ''h'', reg_CPUs = 4\<rparr>)"

definition demo_joined :: "duration \<Rightarrow> coordinator" where
  "demo_joined d = (demo_coord d)\<lparr>workers := [''w001'' \<mapsto> demo_worker ''ready''], order := [''w001'']\<rparr>"

definition demo_running :: "duration \<Rightarrow> coordinator" where
  "demo_running d = (release 20 (demo_joined d))\<lparr>workers := [''w001'' \<mapsto> demo_worker ''running'']\<rparr>"

lemma valid_demo_timed: "valid_config (demo_config\<lparr>Duration := d\<rparr>)"
  using valid_demo by (simp add: valid_config_def demo_config_def)

lemma fresh_demo: "fresh_coordinator (demo_coord d)"
proof -
  have "Validate (demo_config\<lparr>Duration := d\<rparr>) = (demo_config\<lparr>Duration := d\<rparr>, None)"
    using defaulted_id [OF valid_demo_timed] Validate_acceptable by metis
  then have "NewCoordinator (demo_config\<lparr>Duration := d\<rparr>)
      \<lparr>opt_Expect = 1, opt_Token = [], opt_RunID = ''r'', opt_StartDelay = 0\<rparr> = Inr (demo_coord d)"
    by (simp add: NewCoordinator_def demo_coord_def)
  then show ?thesis by (auto simp: fresh_coordinator_def)
qed

lemma worker_id_1: "worker_id (Suc 0) = ''w001''"
  by code_simp

lemma demo_join: "coord_step (demo_coord d) demo_register = Some (demo_joined d)"
  by (simp add: demo_register_def demo_coord_def demo_joined_def auth_def handleRegister_def worker_id_1 demo_worker_def Let_def)

lemma demo_release: "coord_step (demo_joined d) (Release 20) = Some (release 20 (demo_joined d))"
  by (simp add: demo_joined_def demo_coord_def guard_def WorkerCount_def)

lemma demo_poll:
  "coord_step (release 20 (demo_joined d)) (PollJob 30 [] PollReleased ''w001'') = Some (demo_running d)"
  by (simp add: guard_def release_def auth_def handleJob_def demo_running_def demo_joined_def demo_coord_def demo_worker_def Let_def)

lemma demo_coord_exec:
  "exec coord_step (demo_coord d) [demo_register, Release 20, PollJob 30 [] PollReleased ''w001''] = Some (demo_running d)"
  by (simp add: demo_join demo_release demo_poll del: coord_step.simps)

lemma demo_running_simps [simp]:
  "order (demo_running d) = [''w001'']" "workers (demo_running d) = [''w001'' \<mapsto> demo_worker ''running'']"
  "\<not> c_done (demo_running d)" "job (demo_running d) \<noteq> None"
  "d \<le> 0 \<Longrightarrow> running (demo_running d) = Monitoring None"
  by (simp_all add: demo_running_def release_def demo_joined_def demo_coord_def Let_def run_deadline_def)

theorem coordinator_invariant_witness:
  "order (demo_running 0) = [''w001''] \<and> dom (workers (demo_running 0)) = {''w001''} \<and> distinct (order (demo_running 0))"
  using coordinator_invariant [OF fresh_demo demo_coord_exec [of 0]] by simp

theorem released_job_final_witness:
  "order (the (exec coord_step (demo_running 0) [Tick 40])) = [''w001'']"
proof -
  obtain j where j: "job (demo_running 0) = Some j" using demo_running_simps(4) by blast
  obtain c' where c': "exec coord_step (demo_running 0) [Tick 40] = Some c'" by (simp add: guard_def)
  show ?thesis using released_job_final [OF fresh_demo demo_coord_exec [of 0] j c'] c' by simp
qed

theorem silent_worker_blocks_run_witness:
  "\<exists>c'. exec coord_step (demo_running 0) [Tick (60 * Second), Tick (3600 * Second)] = Some c' \<and> \<not> c_done c'"
proof -
  have "held_up ''w001'' (demo_running 0)" by (simp add: held_up_def silent_def demo_worker_def)
  moreover have "list_all (about_others ''w001'') [Tick (60 * Second), Tick (3600 * Second)]"
    by (simp add: about_others_def)
  moreover have "exec coord_step (demo_running 0) [Tick (60 * Second), Tick (3600 * Second)] \<noteq> None"
    by (simp add: guard_def markLost_def Let_def)
  ultimately show ?thesis using silent_worker_blocks_run by blast
qed


definition demo_sample :: sample where
  "demo_sample = \<lparr>smp_latency = 1000000, smp_status = 200, smp_bytes = 1, smp_kind = []\<rparr>"

definition demo_two :: "string list \<Rightarrow> coordinator" where
  "demo_two ids = (demo_coord 0)\<lparr>order := ids, workers :=
     [''w001'' \<mapsto> (demo_worker ''done'')\<lparr>ws_snap := Some (snapshot_of 5 [demo_sample])\<rparr>,
      ''w002'' \<mapsto> (demo_worker ''done'')\<lparr>ws_snap := Some (snapshot_of 7 [demo_sample])\<rparr>]\<rparr>"

lemma demo_two_reported:
  "reported (demo_two [''w001'', ''w002'']) = map (\<lambda>r. snapshot_of (fst r) (snd r)) [(5, [demo_sample]), (7, [demo_sample])]"
  by (simp add: reported_def demo_two_def List.map_filter_simps)

theorem coordinator_snapshot_exact_witness:
  "coord_Snapshot (demo_two [''w001'', ''w002'']) = snapshot_of 7 [demo_sample, demo_sample]"
  using coordinator_snapshot_exact [OF demo_two_reported] by simp

lemma demo_wf: "0 \<le> e \<Longrightarrow> wf_snapshot (snapshot_of e [demo_sample]) \<and> unat (Requests (snapshot_of e [demo_sample])) = 1"
  by (simp add: wf_snapshot_def snapshot_of_def)

theorem coordinator_order_independent_witness:
  "coord_Snapshot (demo_two [''w001'', ''w002'']) = coord_Snapshot (demo_two [''w002'', ''w001''])"
proof (rule coordinator_order_independent)
  show "\<forall>s\<in>set (reported (demo_two [''w001'', ''w002''])). wf_snapshot s"
    using demo_wf [of 5] demo_wf [of 7] by (simp add: demo_two_reported)
  show "sum_list (map (\<lambda>s. unat (Requests s)) (reported (demo_two [''w001'', ''w002'']))) < 2 ^ 64"
    using demo_wf [of 5] demo_wf [of 7] by (simp add: demo_two_reported)
qed (simp_all add: demo_two_def)

theorem split_covers_budget_witness:
  "10 \<le> 3 * unat (MaxRequests (split_config 3 (demo_config\<lparr>MaxRequests := 10, Rate := 9\<rparr>)))"
proof -
  have "(2 :: real) powr - 1022 \<le> 2 powr 0" by (intro powr_mono) simp_all
  then show ?thesis using split_covers_budget [of 3 "demo_config\<lparr>MaxRequests := 10, Rate := 9\<rparr>"] by simp
qed

definition demo_report :: cevent where
  "demo_report = Report 50 [] (Some \<lparr>rep_ID = ''w001'', rep_Snapshot = None, rep_Done = True, rep_Error = []\<rparr>)"

lemma demo_reported:
  "\<exists>c. exec coord_step (demo_coord 0) [demo_register, Release 20, PollJob 30 [] PollReleased ''w001'', demo_report] = Some c \<and> c_done c"
proof -
  have "\<exists>c. coord_step (demo_running 0) demo_report = Some c \<and> c_done c"
    using demo_running_simps(4) [of 0]
    by (simp add: demo_report_def auth_def handleReport_def apply_report_def Let_def allFinishedLocked_def final_state_def
        demo_worker_def demo_running_def release_def demo_joined_def demo_coord_def)
  then show ?thesis using exec_append [of coord_step "demo_coord 0" "[demo_register, Release 20, PollJob 30 [] PollReleased ''w001'']" "[demo_report]"]
    demo_coord_exec [of 0] by auto
qed

theorem coordinator_done_for_reason_witness:
  "done_for_reason (demo_coord 0) [demo_register, Release 20, PollJob 30 [] PollReleased ''w001'', demo_report]"
  using coordinator_done_for_reason [OF fresh_demo] demo_reported by blast

theorem coordinator_deadline_witness:
  "\<exists>c''. coord_step (release 20 (demo_joined Second)) (DeadlineReached (60 * Second)) = Some c'' \<and> c_done c''"
proof -
  have "exec coord_step (demo_coord Second) [demo_register] = Some (demo_joined Second)"
    using demo_join [of Second] by simp
  moreover have "running (demo_joined Second) = Waiting" "expect (demo_joined Second) \<le> WorkerCount (demo_joined Second)"
    "Duration (c_cfg (demo_joined Second)) = Second" "c_delay (demo_joined Second) = 3 * Second"
    "Timeout (c_cfg (demo_joined Second)) = Second"
    by (simp_all add: demo_joined_def demo_coord_def WorkerCount_def demo_config_def)
  moreover obtain d where "running (release 20 (demo_joined Second)) = Monitoring d" by (simp add: release_def Let_def)
  ultimately show ?thesis
    using coordinator_deadline [OF fresh_demo, of Second "[demo_register]" "demo_joined Second" 20 "[]"
      "release 20 (demo_joined Second)" d "60 * Second"] by auto
qed


section \<open>Requests of workers\<close>

text \<open>With a token configured, a request that does not carry it changes nothing and is answered 401,
  whatever it asks for.\<close>

theorem coordinator_requires_token:
  assumes "token c \<noteq> []" "tok \<noteq> token c"
  shows "auth tok (handleRegister now body) c = (c, Unauthorized) \<and>
    auth tok (handleJob now poll wid) c = (c, Unauthorized) \<and> auth tok (handleReport now rep) c = (c, Unauthorized)"
  using assms by (simp add: auth_def)

text \<open>All workers aim at the same start: a registered worker whose poll ends with the job is told to
  wait until the common start time, or not at all when it is late, and counts as running.\<close>

theorem workers_start_together:
  assumes "job c = Some j" "workers c wid = Some w"
  shows "\<exists>c' j'. handleJob now PollReleased wid c = (c', JobReply j') \<and> now + StartDelay j' = max now (c_started c) \<and>
    job_Config j' = job_Config j \<and> workers c' wid = Some (w\<lparr>ws_state := ''running''\<rparr>)"
  using assms by (auto simp: handleJob_def)

theorem workers_start_together_witness:
  "\<exists>c' j'. handleJob 30 PollReleased ''w001'' (release 20 (demo_joined 0)) = (c', JobReply j') \<and>
     30 + StartDelay j' = 20 + 3 * Second"
  using workers_start_together [of "release 20 (demo_joined 0)" _ "''w001''" "demo_worker ''ready''" 30]
  by (auto simp: release_def Let_def demo_joined_def demo_coord_def)

theorem coordinator_requires_token_witness:
  "auth ''bad'' (handleRegister 10 None) ((demo_coord 0)\<lparr>token := ''t''\<rparr>) = ((demo_coord 0)\<lparr>token := ''t''\<rparr>, Unauthorized)"
  using coordinator_requires_token [of "(demo_coord 0)\<lparr>token := ''t''\<rparr>" "''bad''"] by simp

text \<open>A report that arrives after the final one, such as a delayed interval report whose client gave up
  waiting, replaces the final snapshot: the stored snapshot is the last to arrive, not the latest.\<close>

lemma late_report_overwrites:
  assumes "workers c wid = Some w" "ws_state w = ''done''"
  shows "\<exists>w'. workers (fst (handleReport now (Some \<lparr>rep_ID = wid, rep_Snapshot = Some s, rep_Done = False, rep_Error = []\<rparr>) c)) wid
     = Some w' \<and> ws_snap w' = Some s \<and> ws_state w' = ''done''"
  using assms by (auto simp: handleReport_def apply_report_def Let_def)

text \<open>A worker that polls for the job again after it finished counts as running again.\<close>

lemma poll_after_done_runs_again:
  assumes "job c = Some j" "workers c wid = Some w" "ws_state w = ''done''"
  shows "\<not> allFinishedLocked (fst (handleJob now PollReleased wid c)) \<or> wid \<notin> set (order c)"
  using assms by (auto simp: handleJob_def allFinishedLocked_def list_all_iff final_state_def)

interpretation view: less_order view_before
  by unfold_locales (auto simp: view_before_def)

lemma Workers_sorted: "sorted_wrt (\<lambda>a b. \<not> view_before b a) (Workers c)"
  unfolding Workers_def by (rule view.sort_by_sorted)

end
