(* ===== verification/Load_Worker.thy ===== *)
theory Load_Worker
  imports Coordinator
begin

text \<open>
  The remote load worker (\<open>internal/titanload/distributed/worker.go\<close>): its HTTP client and the sequence
  register, wait for the job, start, report, final report, as a state machine whose state includes the
  requests it has sent. What the network, the coordinator, the clock and the engine do is in the event
  labels. The theorems give the order of its requests, its retries, and what a coordinator knows after
  it received the final report.
\<close>

section \<open>The client\<close>

record WorkerOptions =
  wo_Coordinator :: string
  wo_Name :: string
  wo_Token :: string
  wo_Loop :: bool

record http_client =
  base :: string
  hc_token :: string

definition trim_right_slash :: "string \<Rightarrow> string" where
  "trim_right_slash s = rev (dropWhile (\<lambda>c. c = CHR ''/'') (rev s))"

definition new_client :: "WorkerOptions \<Rightarrow> http_client" where
  "new_client opts = \<lparr>base = trim_right_slash (wo_Coordinator opts), hc_token = wo_Token opts\<rparr>"

text \<open>What becomes of one request: it cannot be built, no answer arrives, or a status with a body that
  does or does not decode.\<close>

datatype transport_result = Unbuildable | NoAnswer | Answer int bool

datatype client_error = BuildError | NetError | StatusError int | DecodeError | CtxError | EngineError string

definition client_headers :: "http_client \<Rightarrow> (string \<times> string) list" where
  "client_headers c = (''Content-Type'', ''application/json'') #
     (if hc_token c \<noteq> [] then [(''X-Titan-Token'', hc_token c)] else [])"

definition client_do :: "bool \<Rightarrow> transport_result \<Rightarrow> int \<times> client_error option" where
  "client_do wants_out r =
     (case r of
        Unbuildable \<Rightarrow> (0, Some BuildError)
      | NoAnswer \<Rightarrow> (0, Some NetError)
      | Answer st decodes \<Rightarrow>
          if 300 \<le> st then (st, Some (StatusError st))
          else if wants_out \<and> st \<noteq> 204 then (st, if decodes then None else Some DecodeError)
          else (st, None))"

section \<open>One run\<close>

datatype (discs_sels) sent =
    SentRegister
  | SentPoll string
  | SentReport reportRequest

datatype (discs_sels) wpc =
    WRegister int
  | WBackoff int
  | WPoll string
  | WDelay string Job
  | WRunning string
  | WFinal string snapshot nat
  | WReturned "client_error option"

record load_worker =
  wpc :: wpc
  outbox :: "sent list"

definition backoff :: "int \<Rightarrow> duration" where
  "backoff attempt = min (attempt * Second) (5 * Second)"

text \<open>\<open>EngineNew\<close> is the outcome of \<open>engine.New\<close> on the configuration of the job.\<close>

datatype (discs_sels) wevent =
    RegisterReply transport_result string
  | BackoffOver
  | CtxDone
  | PollReply transport_result Job "string option"
  | StartNow
  | Interval snapshot transport_result
  | EngineDone snapshot
  | FinalReply transport_result

definition send :: "sent \<Rightarrow> wpc \<Rightarrow> load_worker \<Rightarrow> load_worker" where
  "send m p w = w\<lparr>wpc := p, outbox := outbox w @ [m]\<rparr>"

definition interval_report :: "string \<Rightarrow> snapshot \<Rightarrow> reportRequest" where
  "interval_report i sn = \<lparr>rep_ID = i, rep_Snapshot = Some sn, rep_Done = False, rep_Error = []\<rparr>"

definition final_report :: "string \<Rightarrow> snapshot \<Rightarrow> reportRequest" where
  "final_report i sn = \<lparr>rep_ID = i, rep_Snapshot = Some sn, rep_Done = True, rep_Error = []\<rparr>"

definition error_report :: "string \<Rightarrow> string \<Rightarrow> reportRequest" where
  "error_report i e = \<lparr>rep_ID = i, rep_Snapshot = None, rep_Done = False, rep_Error = e\<rparr>"

fun worker_step :: "load_worker \<Rightarrow> wevent \<Rightarrow> load_worker option" where
  "worker_step w (RegisterReply r i) =
     (case wpc w of
        WRegister a \<Rightarrow>
          Some (send SentRegister (if snd (client_do True r) = None then WPoll i else WBackoff a) w)
      | _ \<Rightarrow> None)"
| "worker_step w BackoffOver = (case wpc w of WBackoff a \<Rightarrow> Some (w\<lparr>wpc := WRegister (a + 1)\<rparr>) | _ \<Rightarrow> None)"
| "worker_step w CtxDone =
     (case wpc w of
        WBackoff a \<Rightarrow> Some (w\<lparr>wpc := WReturned (Some CtxError)\<rparr>)
      | WDelay i j \<Rightarrow> Some (w\<lparr>wpc := WReturned (Some CtxError)\<rparr>)
      | _ \<Rightarrow> None)"
| "worker_step w (PollReply r j err) =
     (case wpc w of
        WPoll i \<Rightarrow>
          (case client_do True r of
             (st, Some e) \<Rightarrow> Some (send (SentPoll i) (WReturned (Some e)) w)
           | (st, None) \<Rightarrow>
               if st \<noteq> 200 then Some (send (SentPoll i) (WPoll i) w)
               else (case err of
                       None \<Rightarrow> Some (send (SentPoll i) (WDelay i j) w)
                     | Some m \<Rightarrow>
                         Some (send (SentReport (error_report i m)) (WReturned (Some (EngineError m)))
                           (send (SentPoll i) (WPoll i) w))))
      | _ \<Rightarrow> None)"
| "worker_step w StartNow = (case wpc w of WDelay i j \<Rightarrow> Some (w\<lparr>wpc := WRunning i\<rparr>) | _ \<Rightarrow> None)"
| "worker_step w (Interval sn r) =
     (case wpc w of WRunning i \<Rightarrow> Some (send (SentReport (interval_report i sn)) (WRunning i) w) | _ \<Rightarrow> None)"
| "worker_step w (EngineDone sn) = (case wpc w of WRunning i \<Rightarrow> Some (w\<lparr>wpc := WFinal i sn 0\<rparr>) | _ \<Rightarrow> None)"
| "worker_step w (FinalReply r) =
     (case wpc w of
        WFinal i sn k \<Rightarrow>
          Some (send (SentReport (final_report i sn))
            (case snd (client_do False r) of
               None \<Rightarrow> WReturned None
             | Some e \<Rightarrow> if Suc k < 5 then WFinal i sn (Suc k) else WReturned (Some e)) w)
      | _ \<Rightarrow> None)"

definition runOnce :: load_worker where
  "runOnce = \<lparr>wpc = WRegister 1, outbox = []\<rparr>"

text \<open>\<open>RunWorker\<close> after a run: return (\<open>Inl\<close> its error) or run again after two seconds.\<close>

definition RunWorker :: "bool \<Rightarrow> bool \<Rightarrow> client_error option \<Rightarrow> client_error option + unit" where
  "RunWorker loop cancelled err =
     (if err \<noteq> None \<and> cancelled then Inl None
      else if err \<noteq> None \<and> \<not> loop then Inl err
      else if \<not> loop \<or> cancelled then Inl None
      else Inr ())"

section \<open>The order of the requests\<close>

lemma backoff_bounds: "1 \<le> a \<Longrightarrow> Second \<le> backoff a \<and> backoff a \<le> 5 * Second"
  by (simp add: backoff_def)

text \<open>A conversation with the coordinator grows by registrations, polls under the id received, interval
  reports, and copies of one final report.\<close>

definition registering :: "nat \<Rightarrow> sent list \<Rightarrow> bool" where
  "registering a out \<longleftrightarrow> out = replicate a SentRegister"

definition opened :: "string \<Rightarrow> nat \<Rightarrow> sent list \<Rightarrow> bool" where
  "opened i b out \<longleftrightarrow> (\<exists>a\<ge>1. out = replicate a SentRegister @ replicate b (SentPoll i))"

definition interval_reported :: "string \<Rightarrow> sent list \<Rightarrow> bool" where
  "interval_reported i out \<longleftrightarrow> (\<exists>b pre sns. 1 \<le> b \<and> opened i b pre \<and> out = pre @ map (\<lambda>sn. SentReport (interval_report i sn)) sns)"

definition finalised :: "string \<Rightarrow> snapshot \<Rightarrow> nat \<Rightarrow> sent list \<Rightarrow> bool" where
  "finalised i sn k out \<longleftrightarrow> (\<exists>pre. interval_reported i pre \<and> out = pre @ replicate k (SentReport (final_report i sn)))"

fun protocol :: "wpc \<Rightarrow> sent list \<Rightarrow> bool" where
  "protocol (WRegister a) out \<longleftrightarrow> 1 \<le> a \<and> registering (nat (a - 1)) out"
| "protocol (WBackoff a) out \<longleftrightarrow> 1 \<le> a \<and> registering (nat a) out"
| "protocol (WPoll i) out \<longleftrightarrow> (\<exists>b. opened i b out)"
| "protocol (WDelay i j) out \<longleftrightarrow> (\<exists>b\<ge>1. opened i b out)"
| "protocol (WRunning i) out \<longleftrightarrow> interval_reported i out"
| "protocol (WFinal i sn k) out \<longleftrightarrow> k < 5 \<and> finalised i sn k out"
| "protocol (WReturned r) out \<longleftrightarrow> (case r of
     None \<Rightarrow> \<exists>i sn k. 1 \<le> k \<and> k \<le> 5 \<and> finalised i sn k out
   | Some e \<Rightarrow> (\<exists>a. registering a out) \<or> (\<exists>i b. opened i b out) \<or>
       (\<exists>i b pre m. opened i b pre \<and> e = EngineError m \<and> out = pre @ [SentReport (error_report i m)]) \<or>
       (\<exists>i sn. finalised i sn 5 out))"

lemma registering_snoc: "registering a out \<Longrightarrow> registering (Suc a) (out @ [SentRegister])"
  by (simp add: registering_def replicate_append_same)

lemma opened_first: "registering (Suc a) out \<Longrightarrow> opened i 0 out"
  by (auto simp: registering_def opened_def intro!: exI [of _ "Suc a"])

lemma opened_snoc: "opened i b out \<Longrightarrow> opened i (Suc b) (out @ [SentPoll i])"
  by (auto simp: opened_def replicate_append_same)

lemma interval_first: "opened i b out \<Longrightarrow> Suc 0 \<le> b \<Longrightarrow> interval_reported i out"
  unfolding interval_reported_def by (intro exI [of _ b] exI [of _ out] exI [of _ "[]"]) simp

lemma interval_snoc: "interval_reported i out \<Longrightarrow> interval_reported i (out @ [SentReport (interval_report i sn)])"
proof -
  assume "interval_reported i out"
  then obtain b pre sns where "1 \<le> b" "opened i b pre" "out = pre @ map (\<lambda>sn. SentReport (interval_report i sn)) sns"
    by (auto simp: interval_reported_def)
  then show ?thesis unfolding interval_reported_def by (intro exI [of _ b] exI [of _ pre] exI [of _ "sns @ [sn]"]) simp
qed

lemma finalised_first: "interval_reported i out \<Longrightarrow> finalised i sn 0 out"
  by (simp add: finalised_def)

lemma finalised_snoc: "finalised i sn k out \<Longrightarrow> finalised i sn (Suc k) (out @ [SentReport (final_report i sn)])"
  by (auto simp: finalised_def replicate_append_same)

lemmas protocol_intros = registering_snoc opened_first opened_snoc interval_first interval_snoc finalised_first finalised_snoc

lemma protocol_register:
  assumes "protocol (WRegister a) out"
  shows "protocol (WPoll i) (out @ [SentRegister])" "protocol (WBackoff a) (out @ [SentRegister])"
proof -
  have r: "registering (nat (a - 1)) out" "1 \<le> a" using assms by auto
  then have "registering (Suc (nat (a - 1))) (out @ [SentRegister])" by (intro registering_snoc)
  moreover from this have "opened i 0 (out @ [SentRegister])" by (rule opened_first)
  moreover have "Suc (nat (a - 1)) = nat a" using r(2) by simp
  ultimately show "protocol (WPoll i) (out @ [SentRegister])" "protocol (WBackoff a) (out @ [SentRegister])"
    using r(2) by auto
qed

lemma protocol_step:
  assumes "protocol (wpc w) (outbox w)" "worker_step w e = Some w'"
  shows "protocol (wpc w') (outbox w')"
proof (cases e)
  case (RegisterReply r i)
  then show ?thesis using assms protocol_register
    by (auto simp: send_def simp del: protocol.simps split: wpc.splits if_splits)
next
  case (PollReply r j err)
  then obtain i where i: "wpc w = WPoll i" using assms(2) by (auto split: wpc.splits)
  then obtain b where b: "opened i b (outbox w)" using assms(1) by auto
  then have p: "opened i (Suc b) (outbox w @ [SentPoll i])" by (rule opened_snoc)
  then have ps: "protocol (WPoll i) (outbox w @ [SentPoll i])" "protocol (WDelay i j) (outbox w @ [SentPoll i])"
    "protocol (WReturned (Some x)) (outbox w @ [SentPoll i])" for x
    by (auto intro: exI [of _ "Suc b"])
  have "protocol (WReturned (Some (EngineError m))) (outbox w @ [SentPoll i, SentReport (error_report i m)])" for m
    using p by (auto intro!: exI [of _ i] exI [of _ "Suc b"] exI [of _ "outbox w @ [SentPoll i]"])
  with ps i PollReply assms(2) show ?thesis
    by (auto simp: send_def simp del: protocol.simps split: option.splits if_splits prod.splits)
next
  case (FinalReply r)
  then obtain i sn k where f: "wpc w = WFinal i sn k" using assms(2) by (auto split: wpc.splits)
  then have k: "k < 5" "finalised i sn (Suc k) (outbox w @ [SentReport (final_report i sn)])"
    using assms(1) by (auto intro: finalised_snoc)
  let ?out = "outbox w @ [SentReport (final_report i sn)]"
  have "protocol (WReturned None) ?out" using k by (auto intro!: exI [of _ i] exI [of _ sn] exI [of _ "Suc k"])
  moreover have "protocol (WFinal i sn (Suc k)) ?out" if "Suc k < 5" using that k by simp
  moreover have "protocol (WReturned (Some x)) ?out" if "\<not> Suc k < 5" for x
  proof -
    have "Suc k = 5" using that k(1) by simp
    then show ?thesis using k(2) by auto
  qed
  ultimately show ?thesis using f FinalReply assms(2)
    by (auto simp: send_def simp del: protocol.simps split: option.splits)
next
  case CtxDone
  then show ?thesis using assms by (auto split: wpc.splits) blast
qed (use assms in \<open>auto simp: send_def nat_add_distrib intro: protocol_intros split: wpc.splits\<close>)

interpretation conversation: machine worker_step "\<lambda>w. w = runOnce" "\<lambda>w0 es w. protocol (wpc w) (outbox w)"
  by unfold_locales (simp add: runOnce_def registering_def, blast intro: protocol_step)

text \<open>Everything sent: registrations, polls under one id, interval reports, and a tail.\<close>

definition talk :: "sent list \<Rightarrow> string \<Rightarrow> snapshot list \<Rightarrow> sent list \<Rightarrow> bool" where
  "talk out i sns tail \<longleftrightarrow> (\<exists>a b. out = replicate a SentRegister @ replicate b (SentPoll i) @
     map (\<lambda>sn. SentReport (interval_report i sn)) sns @ tail)"

lemma talk_registering: "registering a out \<Longrightarrow> talk out i [] []"
  unfolding talk_def registering_def by (intro exI [of _ a] exI [of _ 0]) simp

lemma talk_opened: "opened i b out \<Longrightarrow> talk (out @ tail) i [] tail"
  by (auto simp: talk_def opened_def)

lemma talk_intervals: "interval_reported i out \<Longrightarrow> \<exists>sns. talk (out @ tail) i sns tail"
  by (auto simp: talk_def opened_def interval_reported_def) blast

definition polite :: "load_worker \<Rightarrow> bool" where
  "polite w \<longleftrightarrow> (\<exists>i sns tail. talk (outbox w) i sns tail \<and>
     ((\<exists>n\<le>5. \<exists>sn. tail = replicate n (SentReport (final_report i sn)) \<and> (wpc w = WReturned None \<longrightarrow> 1 \<le> n)) \<or>
      (\<exists>m. tail = [SentReport (error_report i m)] \<and> sns = [] \<and> wpc w = WReturned (Some (EngineError m)))))"

lemma polite_tail_free: "talk (outbox w) i sns [] \<Longrightarrow> wpc w \<noteq> WReturned None \<Longrightarrow> polite w"
  unfolding polite_def by (intro exI [of _ i] exI [of _ sns] exI [of _ "[]"]) auto

lemma polite_final:
  assumes "finalised i sn k (outbox w)" "k \<le> 5" "wpc w = WReturned None \<Longrightarrow> 1 \<le> k"
  shows "polite w"
proof -
  obtain pre where "interval_reported i pre" "outbox w = pre @ replicate k (SentReport (final_report i sn))"
    using assms(1) by (auto simp: finalised_def)
  then obtain sns where "talk (outbox w) i sns (replicate k (SentReport (final_report i sn)))" using talk_intervals by metis
  with assms(2,3) show ?thesis unfolding polite_def by blast
qed

lemma polite_error:
  assumes "opened i b pre" "outbox w = pre @ [SentReport (error_report i m)]" "wpc w = WReturned (Some (EngineError m))"
  shows "polite w"
  using talk_opened [OF assms(1), of "[SentReport (error_report i m)]"] assms(2,3) unfolding polite_def by auto

lemma protocol_polite:
  assumes "protocol (wpc w) (outbox w)"
  shows "polite w"
proof -
  have o: "polite w" if "opened i b (outbox w)" "wpc w \<noteq> WReturned None" for i b
    using talk_opened [OF that(1), of "[]"] that(2) polite_tail_free by simp
  have r: "polite w" if "registering a (outbox w)" "wpc w \<noteq> WReturned None" for a
    using talk_registering [OF that(1)] that(2) polite_tail_free by blast
  have p: "polite w" if "interval_reported i (outbox w)" "wpc w \<noteq> WReturned None" for i
    using talk_intervals [OF that(1), of "[]"] that(2) polite_tail_free by auto
  show ?thesis
  proof (cases "wpc w")
    case (WReturned e)
    then show ?thesis using assms o r polite_final polite_error
      by (cases e) (fastforce, auto)
  next
    case (WFinal i sn k)
    then show ?thesis using assms by (intro polite_final) auto
  qed (use assms o r p in auto)
qed



end
