(* ===== verification/Distributed_Run.thy ===== *)
theory Distributed_Run
  imports Coordinator_Run Load_Worker
begin

text \<open>
  A distributed run as a whole: engines on several machines, the worker clients that report for them, and
  the coordinator that merges. The reports a coordinator has processed determine its table; with the
  theorems on the engine and on merging this gives the result of the whole run.
\<close>

section \<open>Completed requests\<close>

lemma complete_in_range:
  assumes "started e0" "exec run_step e0 es = Some e"
  shows "\<forall>ev \<in> set es. \<forall>i lat st n err. ev = Complete i lat st n err \<longrightarrow> i < length (goroutines e0)"
  using assms(2)
proof (induction es arbitrary: e rule: rev_induct)
  case (snoc ev es)
  then obtain r where r: "exec run_step e0 es = Some r" "run_step r ev = Some e" by (auto simp: exec_snoc)
  have "length (goroutines r) = length (goroutines e0)"
    using engine.inv_exec [OF assms(1) r(1)] by (simp add: engine_inv_def run_inv_def)
  then have "\<forall>i lat st n err. ev = Complete i lat st n err \<longrightarrow> i < length (goroutines e0)"
    using r(2) pc_at_active'(2) [of r] by (auto simp: run_step_Some)
  with snoc.IH [OF r(1)] show ?case by auto
qed simp

lemma length_samples:
  assumes "\<forall>ev \<in> set es. \<forall>i lat st n err. ev = Complete i lat st n err \<longrightarrow> i < m"
  shows "length (concat (map (\<lambda>i. samples_at i es) [0..<m])) = count_ev is_Complete es"
  using assms
proof (induction es rule: rev_induct)
  case Nil
  show ?case by (induction m) simp_all
next
  case (snoc ev es)
  have one: "sum_list (map (\<lambda>i. length (sample_of i ev)) [0..<m]) = (if is_Complete ev then 1 else 0)"
  proof (cases ev)
    case (Complete j lat st n err)
    then have "j < m" using snoc.prems by auto
    have "sum_list (map (\<lambda>i. if i = j then 1 else 0 :: nat) [0..<m]) = (if j < m then 1 else 0)" by (induction m) auto
    with \<open>j < m\<close> Complete show ?thesis by (simp add: if_distrib cong: if_cong)
  qed simp_all
  have "length (concat (map (\<lambda>i. samples_at i (es @ [ev])) [0..<m])) =
      length (concat (map (\<lambda>i. samples_at i es) [0..<m])) + sum_list (map (\<lambda>i. length (sample_of i ev)) [0..<m])"
    by (simp add: length_concat comp_def sum_list_addf)
  with one snoc show ?case by simp
qed

section \<open>Delivering the final reports\<close>

definition deliver :: "(gotime \<times> string \<times> snapshot) list \<Rightarrow> coordinator \<Rightarrow> coordinator" where
  "deliver ds c = fold (\<lambda>(now, i, sn) c. fst (handleReport now (Some (final_report i sn)) c)) ds c"

lemma handleReport_final:
  assumes "workers c i = Some w"
  shows "workers (fst (handleReport now (Some (final_report i sn)) c)) = (workers c)(i \<mapsto> apply_report now (final_report i sn) w)"
    "order (fst (handleReport now (Some (final_report i sn)) c)) = order c"
    "job (fst (handleReport now (Some (final_report i sn)) c)) = job c"
    "allFinishedLocked (fst (handleReport now (Some (final_report i sn)) c)) \<Longrightarrow>
       c_done (fst (handleReport now (Some (final_report i sn)) c))"
  using assms by (auto simp: handleReport_def final_report_def finish_def Let_def split: if_splits)

lemma apply_final: "ws_snap (apply_report now (final_report i sn) w) = Some sn \<and> ws_state (apply_report now (final_report i sn) w) = ''done''"
  by (simp add: apply_report_def final_report_def)

lemma deliver_snoc: "deliver (ds @ [(now, i, sn)]) c = fst (handleReport now (Some (final_report i sn)) (deliver ds c))"
  by (simp add: deliver_def)

lemma deliver_frame:
  assumes "\<forall>(now, i, sn) \<in> set ds. workers c i \<noteq> None"
  shows "order (deliver ds c) = order c \<and> job (deliver ds c) = job c \<and> dom (workers (deliver ds c)) = dom (workers c)"
  using assms
proof (induction ds rule: rev_induct)
  case (snoc d ds)
  obtain now i sn where d: "d = (now, i, sn)" by (cases d)
  have ih: "order (deliver ds c) = order c \<and> job (deliver ds c) = job c \<and> dom (workers (deliver ds c)) = dom (workers c)"
    using snoc by simp
  have "i \<in> dom (workers c)" using snoc.prems d by auto
  then obtain w where w: "workers (deliver ds c) i = Some w" using ih by (metis domD)
  have "dom ((workers (deliver ds c))(i \<mapsto> x)) = dom (workers c)" for x
    using ih \<open>i \<in> dom (workers c)\<close> by (simp add: insert_absorb del: fun_upd_apply)
  then show ?case using ih by (simp only: d deliver_snoc handleReport_final [OF w])
qed (simp add: deliver_def)

lemma deliver_done:
  assumes "\<forall>(now, i, sn) \<in> set ds. workers c i \<noteq> None" "distinct (map (fst \<circ> snd) ds)" "(now, i, sn) \<in> set ds"
  shows "\<exists>w. workers (deliver ds c) i = Some w \<and> ws_snap w = Some sn \<and> ws_state w = ''done''"
  using assms
proof (induction ds rule: rev_induct)
  case (snoc d ds)
  obtain t j sm where d: "d = (t, j, sm)" by (cases d)
  have pre: "\<forall>(now, i, sn) \<in> set ds. workers c i \<noteq> None" and "j \<in> dom (workers c)" using snoc.prems(1) d by auto
  then obtain w where w: "workers (deliver ds c) j = Some w" using deliver_frame [OF pre] by (metis domD)
  note step = handleReport_final [OF w, of t sm]
  show ?case
  proof (cases "(now, i, sn) = d")
    case True
    then show ?thesis using step(1) apply_final by (simp add: d deliver_snoc)
  next
    case False
    then have mem: "(now, i, sn) \<in> set ds" using snoc.prems(3) by auto
    then have "i \<noteq> j" using snoc.prems(2) d by force
    then show ?thesis using snoc.IH [OF pre _ mem] snoc.prems(2) step(1) by (simp add: d deliver_snoc)
  qed
qed simp

lemma map_filter_all: "(\<And>x. x \<in> set xs \<Longrightarrow> f (g x) = Some (h x)) \<Longrightarrow> List.map_filter f (map g xs) = map h xs"
  by (induction xs) (simp_all add: List.map_filter_simps)

lemma deliver_reported:
  assumes "\<forall>(now, i, sn) \<in> set ds. workers c i \<noteq> None" "distinct (order c)" "map (fst \<circ> snd) ds = order c"
  shows "reported (deliver ds c) = map (snd \<circ> snd) ds"
proof -
  have "Option.bind (workers (deliver ds c) ((fst \<circ> snd) d)) ws_snap = Some ((snd \<circ> snd) d)" if "d \<in> set ds" for d
    using deliver_done [OF assms(1), of "fst d" "fst (snd d)" "snd (snd d)"] assms(2,3) that by auto
  then show ?thesis using deliver_frame [OF assms(1)] map_filter_all [of ds _ "fst \<circ> snd" "snd \<circ> snd"]
    unfolding reported_def assms(3) [symmetric] by (metis (no_types, lifting) assms(3))
qed

lemma deliver_ends_run:
  assumes "\<forall>(now, i, sn) \<in> set ds. workers c i \<noteq> None" "distinct (order c)" "map (fst \<circ> snd) ds = order c"
    and "job c \<noteq> None" "ds \<noteq> []"
  shows "c_done (deliver ds c)"
proof -
  obtain ds' t j sm where ds: "ds = ds' @ [(t, j, sm)]" using assms(5) by (cases ds rule: rev_cases) auto
  have "final_state ''done''" by (simp add: final_state_def)
  then have "list_all (\<lambda>i. case workers (deliver ds c) i of None \<Rightarrow> False | Some w \<Rightarrow> final_state (ws_state w)) (order c)"
    using deliver_done [OF assms(1)] assms(2) unfolding assms(3) [symmetric] list_all_iff by fastforce
  moreover have "order c \<noteq> []" using assms(3,5) by auto
  ultimately have "allFinishedLocked (deliver ds c)"
    using deliver_frame [OF assms(1)] assms(4) by (simp add: allFinishedLocked_def)
  moreover have "\<exists>w. workers (deliver ds' c) j = Some w"
  proof -
    have "j \<in> dom (workers c)" "\<forall>(now, i, sn) \<in> set ds'. workers c i \<noteq> None" using assms(1) ds by auto
    then show ?thesis using deliver_frame [of ds' c] by (metis domD)
  qed
  ultimately show ?thesis using handleReport_final(4) unfolding ds deliver_snoc by blast
qed

section \<open>The result of a distributed run\<close>

type_synonym engine_run = "engine \<times> event list \<times> engine"

definition run_samples :: "engine_run \<Rightarrow> sample list" where
  "run_samples r = (case r of (e0, es, e) \<Rightarrow> concat (map (\<lambda>i. samples_at i es) [0..<length (goroutines e0)]))"

text \<open>An engine that was started with a share of \<open>m\<close> requests and has finished it.\<close>

definition finished_share :: "u64 \<Rightarrow> engine_run \<Rightarrow> bool" where
  "finished_share m r = (case r of (e0, es, e) \<Rightarrow> started e0 \<and> fits_budget e0 \<and> MaxRequests (cfg e0) = m \<and>
     exec run_step e0 es = Some e \<and> done_closed e \<and> CtxCancel \<notin> set es \<and> Deadline \<notin> set es)"

lemma finished_share_length:
  assumes "finished_share m r" "0 < m"
  shows "length (run_samples r) = unat m"
proof -
  obtain e0 es e where r: "r = (e0, es, e)" by (cases r)
  then have st: "started e0" and ex: "exec run_step e0 es = Some e" using assms(1) by (auto simp: finished_share_def)
  have "count_ev is_Complete es = unat m"
    using run_budget [OF st _ _ ex] assms r by (auto simp: finished_share_def)
  then show ?thesis using length_samples [OF complete_in_range [OF st ex]] by (simp add: r run_samples_def)
qed

lemma finished_share_snapshot:
  assumes "finished_share m (e0, es, e)"
  shows "eng_Snapshot e = Inr (snapshot_of (eng_Elapsed e) (run_samples (e0, es, e)))"
  using run_snapshot [of e0 es e] assms by (simp add: finished_share_def run_samples_def)

lemma finished_reports:
  assumes "\<forall>r \<in> set rs. finished_share m r" "map Inr sns = map (\<lambda>(e0, es, e). eng_Snapshot e) rs"
  shows "sns = map (\<lambda>r. snapshot_of (fst r) (snd r)) (map (\<lambda>(e0, es, e). (eng_Elapsed e, run_samples (e0, es, e))) rs)"
proof -
  have "map (\<lambda>(e0, es, e). eng_Snapshot e) rs =
      map Inr (map (\<lambda>r. snapshot_of (fst r) (snd r)) (map (\<lambda>(e0, es, e). (eng_Elapsed e, run_samples (e0, es, e))) rs))"
    using assms(1) finished_share_snapshot by (auto simp: split_beta)
  then show ?thesis using assms(2) by (metis (no_types, lifting) inj_map_eq_map inj_on_def sum.inject(2))
qed

lemma concat_const_length: "(\<And>x. x \<in> set xs \<Longrightarrow> length (f x) = k) \<Longrightarrow> length (concat (map f xs)) = length xs * k"
  by (induction xs) auto

text \<open>C5: A distributed run measures what it should: take any history of a coordinator up to the release of
  a job with a request budget, an engine run of the released share on every worker, and the delivery of
  their final reports. Then the coordinator declares the run over, its snapshot is exactly the snapshot
  of all samples of all machines, and the number of requests is the budget or exceeds it by fewer than
  one per worker.\<close>

theorem distributed_run_exact:
  assumes "fresh_coordinator c0" "exec coord_step c0 ces = Some c" "job c = Some j"
    and "0 < MaxRequests (c_cfg c0)" "unat (MaxRequests (c_cfg c0)) + length (order c) < 2 ^ 64"
    and "length rs = length (order c)" "\<forall>r \<in> set rs. finished_share (MaxRequests (job_Config j)) r"
    and "map (fst \<circ> snd) ds = order c" "map (Inr \<circ> (snd \<circ> snd)) ds = map (\<lambda>(e0, es, e). eng_Snapshot e) rs"
  shows "c_done (deliver ds c) \<and>
    coord_Snapshot (deliver ds c) = snapshot_of (fold max (map (\<lambda>(e0, es, e). eng_Elapsed e) rs) 0) (concat (map run_samples rs)) \<and>
    unat (MaxRequests (c_cfg c0)) \<le> unat (Requests (coord_Snapshot (deliver ds c))) \<and>
    unat (Requests (coord_Snapshot (deliver ds c))) < unat (MaxRequests (c_cfg c0)) + length (order c)"
proof -
  let ?n = "length (order c)" and ?m = "MaxRequests (job_Config j)"
  have inv: "coord_inv c" "c_cfg c = c_cfg c0" using coordinator.inv_exec [OF assms(1,2)] by simp_all
  then have jc: "job_Config j = split_config ?n (c_cfg c0)" and n: "0 < ?n" and dm: "dom (workers c) = set (order c)"
    using assms(3) by (auto simp: coord_inv_def WorkerCount_def)
  have dist: "distinct (order c)" using inv(1) by (rule coord_inv_distinct)
  have m: "?n * unat ?m < unat (MaxRequests (c_cfg c0)) + ?n" "unat (MaxRequests (c_cfg c0)) \<le> ?n * unat ?m"
    using ceil_div_bounds [OF n, of "unat (MaxRequests (c_cfg c0))"] split_config_budget [OF n assms(4,5)] jc by simp_all
  then have m0: "0 < ?m" using assms(4) by (metis le_zero_eq mult_0_right unat_eq_zero word_gt_0)
  have reg: "\<forall>(now, i, sn) \<in> set ds. workers c i \<noteq> None"
  proof -
    have "fst (snd d) \<in> set (order c)" if "d \<in> set ds" for d using that assms(8) [symmetric] by auto
    then show ?thesis using dm by (fastforce simp: domIff)
  qed
  have ds0: "ds \<noteq> []" using n assms(8) by auto
  let ?rs = "map (\<lambda>(e0, es, e). (eng_Elapsed e, run_samples (e0, es, e))) rs"
  have "reported (deliver ds c) = map (\<lambda>r. snapshot_of (fst r) (snd r)) ?rs"
    using deliver_reported [OF reg dist assms(8)] finished_reports [OF assms(7), of "map (snd \<circ> snd) ds"] assms(9) by simp
  moreover have len: "length (run_samples r) = unat ?m" if "r \<in> set rs" for r
    using finished_share_length [OF _ m0] assms(7) that by blast
  moreover have "\<forall>r \<in> set ?rs. length (snd r) < 2 ^ 64" using len unsigned_less [of ?m] by (auto simp: split_beta)
  ultimately have "coord_Snapshot (deliver ds c) = snapshot_of (fold max (map fst ?rs) 0) (concat (map snd ?rs))"
    by (intro merged_snapshot)
  moreover have "map fst ?rs = map (\<lambda>(e0, es, e). eng_Elapsed e) rs" "map snd ?rs = map run_samples rs" by auto
  ultimately have snap: "coord_Snapshot (deliver ds c) = snapshot_of (fold max (map (\<lambda>(e0, es, e). eng_Elapsed e) rs) 0) (concat (map run_samples rs))"
    by (simp only:)
  have "length (concat (map run_samples rs)) = ?n * unat ?m" 
    using concat_const_length [of rs run_samples, OF len] assms(6) by metis
  moreover have "unat (of_nat (?n * unat ?m) :: u64) = ?n * unat ?m" 
    using m(1) assms(5) by (simp only: unat_of_nat) simp
  ultimately have "unat (Requests (coord_Snapshot (deliver ds c))) = ?n * unat ?m"
    unfolding snap by (simp only: snapshot_of_def snapshot.simps)
  then show ?thesis using deliver_ends_run [OF reg dist assms(8) _ ds0] assms(3) m snap by simp
qed

theorem distributed_run_exact_witness:
  "\<exists>sn. eng_Snapshot demo_final = Inr sn \<and> c_done (deliver [(50, ''w001'', sn)] (demo_running 0)) \<and>
     unat (Requests (coord_Snapshot (deliver [(50, ''w001'', sn)] (demo_running 0)))) = 1"
proof -
  obtain j where j: "job (demo_running 0) = Some j" using demo_running_simps(4) by blast
  then have m: "MaxRequests (job_Config j) = 1"
    by (auto simp: demo_running_def demo_joined_def demo_coord_def release_def Let_def split_config_def demo_config_def)
  have c: "MaxRequests (c_cfg (demo_coord 0)) = 1" by (simp add: demo_coord_def demo_config_def)
  obtain sn where sn: "eng_Snapshot demo_final = Inr sn" using run_snapshot [OF started_demo demo_exec] by blast
  have "finished_share 1 (demo_engine, demo_run, demo_final)"
    using started_demo demo_exec by (simp add: finished_share_def fits_budget_def demo_simps demo_final_simps)
  then show ?thesis
    using distributed_run_exact [OF fresh_demo demo_coord_exec [of 0] j, of "[(demo_engine, demo_run, demo_final)]" "[(50, ''w001'', sn)]"] m c sn
    by (intro exI [of _ sn]) force
qed

end
