(* ===== verification/Cluster.thy ===== *)
theory Cluster
  imports Distributed_Run
begin

text \<open>
  The coordinator's HTTP interface (\<open>Handler\<close> of \<open>distributed.go\<close>) and the workers that talk to it
  (\<open>worker.go\<close>), composed: any number of worker sessions exchange requests with one coordinator over a
  network that loses requests, loses replies or cuts them short, while the main loop of the coordinator
  runs. A request is handled before its sender goes on, or not at all. The bodies of requests decode to what
  was encoded. The theorems show that a worker that reports success has been counted, whatever the network
  did, and what a lost reply to a registration costs.
\<close>

section \<open>The interface\<close>

record wire_request =
  wr_method :: string
  wr_path :: string
  wr_id :: string
  wr_token :: string
  wr_register :: "registerRequest option"
  wr_report :: "reportRequest option"

datatype coord_reply = Handled response | StatusPage status_view | Healthy | CoordMetrics | NoRoute int

definition allowed :: "string \<Rightarrow> string \<Rightarrow> bool" where
  "allowed m r \<longleftrightarrow> m = r \<or> m = ''HEAD'' \<and> r = ''GET''"

text \<open>\<open>Handler\<close>; \<open>metrics\<close> tells whether a metrics handler was configured. A known path with another method
  is answered with 405, an unknown path with 404.\<close>

definition coord_Handler :: "bool \<Rightarrow> gotime \<Rightarrow> poll_end \<Rightarrow> wire_request \<Rightarrow> coordinator \<Rightarrow> coordinator \<times> coord_reply" where
  "coord_Handler metrics now poll r c =
     (let m = wr_method r; p = wr_path r; handled = apsnd Handled in
      if p = ''/v1/register'' then
        (if m = ''POST'' then handled (auth (wr_token r) (handleRegister now (wr_register r)) c) else (c, NoRoute 405))
      else if p = ''/v1/job'' then
        (if allowed m ''GET'' then handled (auth (wr_token r) (handleJob now poll (wr_id r)) c) else (c, NoRoute 405))
      else if p = ''/v1/report'' then
        (if m = ''POST'' then handled (auth (wr_token r) (handleReport now (wr_report r)) c) else (c, NoRoute 405))
      else if p = ''/v1/status'' then
        (if allowed m ''GET'' then (c, StatusPage (handleStatus c)) else (c, NoRoute 405))
      else if p = ''/healthz'' then
        (if allowed m ''GET'' then (c, Healthy) else (c, NoRoute 405))
      else if p = ''/metrics'' \<and> metrics then
        (if allowed m ''GET'' then (c, CoordMetrics) else (c, NoRoute 405))
      else (c, NoRoute 404))"

text \<open>\<open>Listen\<close>: the server on the bound address, or none when binding fails.\<close>

definition coord_Listen ::
  "bool \<Rightarrow> bool \<Rightarrow> ((gotime \<Rightarrow> poll_end \<Rightarrow> wire_request \<Rightarrow> coordinator \<Rightarrow> coordinator \<times> coord_reply) \<times> duration) option" where
  "coord_Listen bound_ok metrics = (if bound_ok then Some (coord_Handler metrics, 5 * Second) else None)"

fun reply_code :: "response \<Rightarrow> int option" where
  "reply_code Unauthorized = Some 401"
| "reply_code BadRequest = Some 400"
| "reply_code Conflict = Some 409"
| "reply_code NotFound = Some 404"
| "reply_code NoContent = Some 204"
| "reply_code NoReply = None"
| "reply_code (Registered i) = Some 200"
| "reply_code (JobReply j) = Some 200"

section \<open>One exchange\<close>

datatype fate = Unsent | RequestLost | ReplyLost | ReplyCut | Arrived

definition answer :: "bool \<Rightarrow> coord_reply \<Rightarrow> transport_result" where
  "answer whole r =
     (case r of
        Handled x \<Rightarrow> (case reply_code x of None \<Rightarrow> NoAnswer | Some st \<Rightarrow> Answer st whole)
      | NoRoute st \<Rightarrow> Answer st whole
      | _ \<Rightarrow> Answer 200 whole)"

text \<open>The coordinator after the exchange, what the client's transport reports, and the reply.\<close>

definition exchange ::
  "fate \<Rightarrow> gotime \<Rightarrow> poll_end \<Rightarrow> wire_request \<Rightarrow> coordinator \<Rightarrow> coordinator \<times> transport_result \<times> coord_reply" where
  "exchange f now poll r c =
     (let (c', x) = coord_Handler False now poll r c in
      case f of
        Unsent \<Rightarrow> (c, Unbuildable, x)
      | RequestLost \<Rightarrow> (c, NoAnswer, x)
      | ReplyLost \<Rightarrow> (c', NoAnswer, x)
      | ReplyCut \<Rightarrow> (c', answer False x, x)
      | Arrived \<Rightarrow> (c', answer True x, x))"

definition wire :: "http_client \<Rightarrow> string \<Rightarrow> string \<Rightarrow> wire_request" where
  "wire cl m p = \<lparr>wr_method = m, wr_path = p, wr_id = [],
     wr_token = (case map_of (client_headers cl) ''X-Titan-Token'' of None \<Rightarrow> [] | Some t \<Rightarrow> t), wr_register = None, wr_report = None\<rparr>"

definition register_request :: "http_client \<Rightarrow> registerRequest \<Rightarrow> wire_request" where
  "register_request cl req = (wire cl ''POST'' ''/v1/register'')\<lparr>wr_register := Some req\<rparr>"

definition job_request :: "http_client \<Rightarrow> string \<Rightarrow> wire_request" where
  "job_request cl i = (wire cl ''GET'' ''/v1/job'')\<lparr>wr_id := i\<rparr>"

definition report_request :: "http_client \<Rightarrow> reportRequest \<Rightarrow> wire_request" where
  "report_request cl req = (wire cl ''POST'' ''/v1/report'')\<lparr>wr_report := Some req\<rparr>"

section \<open>The cluster\<close>

record session =
  se_client :: http_client
  se_reg :: registerRequest
  se_worker :: load_worker

record cluster =
  coord :: coordinator
  sessions :: "session list"

text \<open>A session is one call of \<open>runOnce\<close>; a worker in loop mode joins again. The label of a
  poll carries the job the reply decodes to, the outcome of \<open>engine.New\<close> on it and, when that is an error, the
  fate of the error report.\<close>

datatype (discs_sels) cluster_event =
    Joins http_client registerRequest
  | Main cevent
  | Own nat wevent
  | Registers nat gotime fate
  | Polls nat gotime poll_end fate Job "string option" fate
  | Reports nat snapshot gotime fate
  | Finals nat gotime fate

definition main_event :: "cevent \<Rightarrow> bool" where
  "main_event ev \<longleftrightarrow> \<not> is_Register ev \<and> \<not> is_PollJob ev \<and> \<not> is_Report ev"

definition own_event :: "wevent \<Rightarrow> bool" where
  "own_event ev \<longleftrightarrow> ev = BackoffOver \<or> ev = CtxDone \<or> ev = StartNow \<or> is_EngineDone ev"

definition registered_id :: "coord_reply \<Rightarrow> string" where
  "registered_id x = (case x of Handled (Registered i) \<Rightarrow> i | _ \<Rightarrow> [])"

definition replied_job :: "coord_reply \<Rightarrow> Job option" where
  "replied_job x = (case x of Handled (JobReply j) \<Rightarrow> Some j | _ \<Rightarrow> None)"

definition update :: "nat \<Rightarrow> coordinator \<Rightarrow> load_worker option \<Rightarrow> cluster \<Rightarrow> cluster option" where
  "update k c w st = map_option (\<lambda>w. st\<lparr>coord := c, sessions := (sessions st)[k := (sessions st ! k)\<lparr>se_worker := w\<rparr>]\<rparr>) w"

definition worker_at :: "cluster \<Rightarrow> nat \<Rightarrow> load_worker" where
  "worker_at st k = se_worker (sessions st ! k)"

definition client_at :: "cluster \<Rightarrow> nat \<Rightarrow> http_client" where
  "client_at st k = se_client (sessions st ! k)"

fun cluster_step :: "cluster \<Rightarrow> cluster_event \<Rightarrow> cluster option" where
  "cluster_step st (Joins cl req) = Some (st\<lparr>sessions := sessions st @ [\<lparr>se_client = cl, se_reg = req, se_worker = runOnce\<rparr>]\<rparr>)"
| "cluster_step st (Main ev) =
     (if main_event ev then map_option (\<lambda>c. st\<lparr>coord := c\<rparr>) (coord_step (coord st) ev) else None)"
| "cluster_step st (Own k ev) =
     (if k < length (sessions st) \<and> own_event ev then update k (coord st) (worker_step (worker_at st k) ev) st else None)"
| "cluster_step st (Registers k now f) =
     (if k < length (sessions st) \<and> is_WRegister (wpc (worker_at st k))
      then case exchange f now PollGone (register_request (client_at st k) (se_reg (sessions st ! k))) (coord st) of
        (c, r, x) \<Rightarrow> update k c (worker_step (worker_at st k) (RegisterReply r (registered_id x))) st
      else None)"
| "cluster_step st (Polls k now poll f j err f') =
     (if k < length (sessions st) \<and> (poll = PollReleased \<longrightarrow> c_released (coord st))
      then case wpc (worker_at st k) of
        WPoll i \<Rightarrow>
          (case exchange f now poll (job_request (client_at st k) i) (coord st) of
             (c, r, x) \<Rightarrow>
               if replied_job x \<noteq> None \<and> replied_job x \<noteq> Some j then None
               else case worker_step (worker_at st k) (PollReply r j err) of
                 None \<Rightarrow> None
               | Some w \<Rightarrow> update k (case last (outbox w) of
                     SentReport rep \<Rightarrow> fst (exchange f' now PollGone (report_request (client_at st k) rep) c)
                   | _ \<Rightarrow> c) (Some w) st)
      | _ \<Rightarrow> None
      else None)"
| "cluster_step st (Reports k sn now f) =
     (if k < length (sessions st)
      then case wpc (worker_at st k) of
        WRunning i \<Rightarrow>
          (case exchange f now PollGone (report_request (client_at st k) (interval_report i sn)) (coord st) of
             (c, r, x) \<Rightarrow> update k c (worker_step (worker_at st k) (Interval sn r)) st)
      | _ \<Rightarrow> None
      else None)"
| "cluster_step st (Finals k now f) =
     (if k < length (sessions st)
      then case wpc (worker_at st k) of
        WFinal i sn n \<Rightarrow>
          (case exchange f now PollGone (report_request (client_at st k) (final_report i sn)) (coord st) of
             (c, r, x) \<Rightarrow> update k c (worker_step (worker_at st k) (FinalReply r)) st)
      | _ \<Rightarrow> None
      else None)"

section \<open>What an exchange changes\<close>

text \<open>A change of the coordinator that leaves the records outside \<open>A\<close> as they are, as far as they are final.\<close>

definition all_ready :: "coordinator \<Rightarrow> bool" where
  "all_ready c \<longleftrightarrow> (\<forall>i v. workers c i = Some v \<longrightarrow> ws_state v = ''ready'')"

definition settled :: "coordinator \<Rightarrow> string \<Rightarrow> snapshot \<Rightarrow> bool" where
  "settled c i sn \<longleftrightarrow> (\<exists>v. workers c i = Some v \<and> ws_state v = ''done'' \<and> ws_snap v = Some sn)"

definition spares :: "string set \<Rightarrow> coordinator \<Rightarrow> coordinator \<Rightarrow> bool" where
  "spares A c c' \<longleftrightarrow> coord_inv c' \<and> dom (workers c) \<subseteq> dom (workers c') \<and>
     (\<forall>i sn. i \<notin> A \<longrightarrow> settled c i sn \<longrightarrow> settled c' i sn) \<and>
     (job c' = None \<longrightarrow> job c = None) \<and> (job c' = None \<longrightarrow> all_ready c \<longrightarrow> all_ready c') \<and>
     ((allFinishedLocked c \<longrightarrow> c_done c) \<longrightarrow> job c \<noteq> None \<or> all_ready c \<longrightarrow> allFinishedLocked c' \<longrightarrow> c_done c')"

lemma spares_refl: "coord_inv c \<Longrightarrow> spares A c c"
  by (simp add: spares_def)

lemma spares_mono: "spares A c c' \<Longrightarrow> A \<subseteq> B \<Longrightarrow> spares B c c'"
  unfolding spares_def by blast

lemma spares_trans: "spares A c c' \<Longrightarrow> spares A c' c'' \<Longrightarrow> job c \<noteq> None \<Longrightarrow> spares A c c''"
  unfolding spares_def by (auto dest: subsetD)

lemma new_id_fresh: "coord_inv c \<Longrightarrow> worker_id (length (order c) + 1) \<notin> dom (workers c)"
proof -
  assume "coord_inv c"
  then have "order c = map (\<lambda>i. worker_id (Suc i)) [0..<length (order c)]" "dom (workers c) = set (order c)"
    by (simp_all add: coord_inv_def)
  moreover have "worker_id (length (order c) + 1) \<notin> set (map (\<lambda>i. worker_id (Suc i)) [0..<length (order c)])" by auto
  ultimately show ?thesis by metis
qed

lemma spares_register:
  assumes "coord_inv c"
  shows "spares {} c (fst (auth tok (handleRegister now body) c))"
  using assms coord_inv_handlers(1) [OF assms, of tok now body] new_id_fresh [OF assms]
  by (auto simp: spares_def settled_def all_ready_def auth_def handleRegister_def Let_def allFinishedLocked_def split: option.splits)

lemma spares_job:
  assumes "coord_inv c"
  shows "spares {i} c (fst (auth tok (handleJob now poll i) c))"
proof -
  have "dom (workers c) = set (order c)" using assms by (simp add: coord_inv_def)
  then have "i \<in> set (order c)" if "workers c i = Some v" for v using that by blast
  then show ?thesis using assms coord_inv_handlers(2) [OF assms, of tok now poll i]
    by (auto simp: spares_def settled_def all_ready_def auth_def handleJob_def allFinishedLocked_def list_all_iff final_state_def
        split: option.splits poll_end.splits if_splits)
qed

lemma spares_report:
  assumes "coord_inv c" "job c \<noteq> None"
  shows "spares {rep_ID req} c (fst (auth tok (handleReport now (Some req)) c))"
  using assms coord_inv_handlers(3) [OF assms(1), of tok now "Some req"]
  by (auto simp: spares_def settled_def auth_def handleReport_def Let_def split: option.splits if_splits)

text \<open>The requests of a worker reach the handlers they are meant for.\<close>

lemma routed:
  "coord_Handler mt now p (register_request cl req) c = apsnd Handled (auth (wr_token (register_request cl req)) (handleRegister now (Some req)) c)"
  "coord_Handler mt now p (job_request cl i) c = apsnd Handled (auth (wr_token (job_request cl i)) (handleJob now p i) c)"
  "coord_Handler mt now p (report_request cl rep) c = apsnd Handled (auth (wr_token (report_request cl rep)) (handleReport now (Some rep)) c)"
  by (simp_all add: coord_Handler_def register_request_def job_request_def report_request_def wire_def allowed_def)

lemma token_sent [simp]:
  "wr_token (register_request cl req) = hc_token cl" "wr_token (job_request cl i) = hc_token cl" "wr_token (report_request cl rep) = hc_token cl"
  by (simp_all add: register_request_def job_request_def report_request_def wire_def client_headers_def)

lemma exchange_coord: "fst (exchange f now p r c) = c \<or> fst (exchange f now p r c) = fst (coord_Handler False now p r c)"
  by (cases f) (simp_all add: exchange_def split: prod.splits)

lemma spares_exchange:
  assumes "coord_inv c"
  shows "spares {} c (fst (exchange f now p (register_request cl req) c))"
    and "spares {i} c (fst (exchange f now p (job_request cl i) c))"
    and "job c \<noteq> None \<Longrightarrow> spares {rep_ID rep} c (fst (exchange f now p (report_request cl rep) c))"
  using exchange_coord [of f now p "register_request cl req" c] exchange_coord [of f now p "job_request cl i" c]
    exchange_coord [of f now p "report_request cl rep" c] spares_refl [OF assms] spares_register [OF assms] spares_job [OF assms]
    spares_report [OF assms]
  by (auto simp: routed)

text \<open>A reply the client accepts proves that the request was handled.\<close>

lemma accepted:
  assumes "exchange f now p r c = (c', t, x)" "snd (client_do out t) = None"
  shows "coord_Handler False now p r c = (c', x)" "f = ReplyCut \<or> f = Arrived" "t = answer (f = Arrived) x"
  using assms by (cases f; auto simp: exchange_def client_do_def split: prod.splits)+

lemma accepted_register:
  assumes "coord_inv c" "exchange f now p (register_request cl req) c = (c', t, x)" "snd (client_do True t) = None"
  shows "registered_id x \<notin> dom (workers c) \<and> registered_id x \<in> dom (workers c')"
  using accepted [OF assms(2,3)] new_id_fresh [OF assms(1)] assms(3)
  by (auto simp: routed auth_def handleRegister_def answer_def client_do_def registered_id_def Let_def split: if_splits)

lemma accepted_job:
  assumes "exchange f now p (job_request cl i) c = (c', t, x)" "snd (client_do True t) = None" "fst (client_do True t) = 200"
  shows "job c \<noteq> None"
  using accepted [OF assms(1,2)] assms(2,3)
  by (auto simp: routed auth_def handleJob_def answer_def client_do_def split: if_splits option.splits poll_end.splits)

lemma accepted_final:
  assumes "exchange f now p (report_request cl (final_report i sn)) c = (c', t, x)" "snd (client_do False t) = None"
  shows "settled c' i sn"
proof -
  have h: "coord_Handler False now p (report_request cl (final_report i sn)) c = (c', x)" and t: "t = answer (f = Arrived) x"
    using accepted [OF assms] by simp_all
  then have "\<exists>w. workers c i = Some w \<and> c' = fst (handleReport now (Some (final_report i sn)) c)"
    using assms(2)
    by (auto simp: routed auth_def handleReport_def answer_def client_do_def final_report_def Let_def split: if_splits option.splits)
  then obtain w where "workers c i = Some w" "c' = fst (handleReport now (Some (final_report i sn)) c)" by blast
  then show ?thesis using handleReport_final(1) [of c i w now sn] apply_final [of now i sn w] by (simp add: settled_def)
qed

text \<open>The main loop changes no final record, and releases the job only to workers that are ready.\<close>

lemma spares_frame:
  assumes "coord_inv c'" "\<And>i sn. settled c i sn \<Longrightarrow> settled c' i sn" "dom (workers c) \<subseteq> dom (workers c')"
    and "job c' = job c" "job c' = None \<Longrightarrow> workers c' = workers c"
    and "(allFinishedLocked c \<longrightarrow> c_done c) \<Longrightarrow> allFinishedLocked c' \<Longrightarrow> c_done c'"
  shows "spares {} c c'"
  using assms by (auto simp: spares_def all_ready_def)

lemma settled_each:
  assumes "settled c i sn" "\<And>v. f (f v) = f v" "\<And>v. ws_state v = ''done'' \<Longrightarrow> f v = v"
  shows "settled (each_worker f c) i sn"
  using assms by (auto simp: settled_def each_worker_lookup)

lemma spares_each:
  assumes "coord_inv c" "job c \<noteq> None" "coord_inv c'" "workers c' = workers (each_worker f c)" "job c' = job c"
    and "\<And>v. f (f v) = f v" "\<And>v. ws_state v = ''done'' \<Longrightarrow> f v = v" "allFinishedLocked c' \<Longrightarrow> c_done c'"
  shows "spares {} c c'"
proof (rule spares_frame)
  show "settled c' i sn" if "settled c i sn" for i sn
    using settled_each [OF that assms(6,7)] assms(4) by (simp add: settled_def)
qed (use assms each_worker_dom [of f c] in auto)

lemma spares_release:
  assumes "coord_inv c" "running c = Waiting" "expect c \<le> WorkerCount c"
  shows "spares {} c (release now c)"
proof -
  have "\<not> allFinishedLocked (release now c)" if "all_ready c"
  proof -
    have "final_state ''ready'' = False" by (simp add: final_state_def)
    then show ?thesis using that by (cases "order c") (auto simp: allFinishedLocked_def release_def Let_def all_ready_def split: option.splits)
  qed
  moreover have "job c = None" using assms(1,2) by (simp add: coord_inv_def)
  ultimately show ?thesis using coord_inv_release [OF assms, of now]
    by (auto simp: spares_def settled_def release_def Let_def)
qed

lemma spares_main:
  assumes inv: "coord_inv c" and step: "coord_step c ev = Some c'" and main: "main_event ev"
  shows "spares {} c c'"
proof -
  have inv': "coord_inv c'" using coord_inv_step [OF inv step] .
  have same: "spares {} c c'" if "workers c' = workers c" "order c' = order c" "job c' = job c" "c_done c \<Longrightarrow> c_done c'"
    using inv' by (rule spares_frame) (use that in \<open>auto simp: settled_def allFinishedLocked_def\<close>)
  have job: "job c \<noteq> None" if "running c = Monitoring d" for d using inv that by (simp add: coord_inv_def)
  have keep: "lose_silent now v = v" "lose_unfinished v = v" if "ws_state v = ''done''" for v now
    using that by (simp_all add: lose_silent_def lose_unfinished_def)
  show ?thesis
  proof (cases ev)
    case (Tick now)
    then obtain d where d: "running c = Monitoring d" "c' = markLost now c" using step by (auto split: run_state.splits)
    have w: "workers c' = workers (each_worker (lose_silent now) c)" "job c' = job c" "allFinishedLocked c' \<Longrightarrow> c_done c'"
      unfolding d(2) markLost_def Let_def by (auto split: if_splits)
    show ?thesis by (rule spares_each [OF inv job [OF d(1)] inv' w(1,2) _ _ w(3)]) (simp_all add: lose_idem keep)
  next
    case (DeadlineReached now)
    then obtain d where d: "running c = Monitoring d" "c' = deadline_reached c" using step by (auto split: run_state.splits option.splits)
    have w: "workers c' = workers (each_worker lose_unfinished c)" "job c' = job c" "c_done c'"
      unfolding d(2) deadline_reached_def by simp_all
    show ?thesis by (rule spares_each [OF inv job [OF d(1)] inv' w(1,2)]) (simp_all add: lose_idem keep w(3))
  next
    case (Release now)
    then show ?thesis using step spares_release [OF inv] by auto
  qed (use main step same in \<open>auto simp: main_event_def split: run_state.splits\<close>)
qed

section \<open>The invariant of the cluster\<close>

text \<open>The id under which a session is known, as long as it is not given up.\<close>

definition ident :: "load_worker \<Rightarrow> string option" where
  "ident w = (case wpc w of
      WPoll i \<Rightarrow> Some i | WDelay i j \<Rightarrow> Some i | WRunning i \<Rightarrow> Some i | WFinal i sn k \<Rightarrow> Some i
    | WReturned None \<Rightarrow> (case last (outbox w) of SentReport rep \<Rightarrow> Some (rep_ID rep) | _ \<Rightarrow> None)
    | _ \<Rightarrow> None)"

definition has_job :: "load_worker \<Rightarrow> bool" where
  "has_job w \<longleftrightarrow> (case wpc w of WDelay i j \<Rightarrow> True | WRunning i \<Rightarrow> True | WFinal i sn k \<Rightarrow> True | WReturned r \<Rightarrow> r = None | _ \<Rightarrow> False)"

definition counted :: "coordinator \<Rightarrow> load_worker \<Rightarrow> bool" where
  "counted c w \<longleftrightarrow> wpc w = WReturned None \<longrightarrow>
     (\<exists>i sn. outbox w \<noteq> [] \<and> last (outbox w) = SentReport (final_report i sn) \<and> settled c i sn)"

definition cluster_inv :: "cluster \<Rightarrow> bool" where
  "cluster_inv st \<longleftrightarrow> coord_inv (coord st) \<and> (allFinishedLocked (coord st) \<longrightarrow> c_done (coord st)) \<and>
     (job (coord st) = None \<longrightarrow> all_ready (coord st)) \<and>
     (\<forall>k < length (sessions st). counted (coord st) (worker_at st k) \<and>
        (has_job (worker_at st k) \<longrightarrow> job (coord st) \<noteq> None) \<and>
        (\<forall>i. ident (worker_at st k) = Some i \<longrightarrow> i \<in> dom (workers (coord st)) \<and>
           (\<forall>j < length (sessions st). ident (worker_at st j) = Some i \<longrightarrow> j = k)))"

lemma sparesD:
  assumes "spares A c c'" "allFinishedLocked c \<longrightarrow> c_done c" "job c = None \<longrightarrow> all_ready c"
  shows "job c' = None \<longrightarrow> all_ready c'" "allFinishedLocked c' \<longrightarrow> c_done c'" "coord_inv c'"
  using assms by (auto simp: spares_def)

lemma counted_spares:
  assumes "counted c w" "spares A c c'" "\<And>i. i \<in> A \<Longrightarrow> ident w \<noteq> Some i"
  shows "counted c' w"
proof (unfold counted_def, intro impI)
  assume r: "wpc w = WReturned None"
  then obtain i sn where o: "outbox w \<noteq> []" "last (outbox w) = SentReport (final_report i sn)" "settled c i sn"
    using assms(1) by (auto simp: counted_def)
  then have "ident w = Some i" using r by (simp add: ident_def final_report_def)
  then have "settled c' i sn" using assms(2,3) o(3) unfolding spares_def by blast
  with o show "\<exists>i sn. outbox w \<noteq> [] \<and> last (outbox w) = SentReport (final_report i sn) \<and> settled c' i sn" by blast
qed

lemma cluster_inv_update:
  assumes inv: "cluster_inv st" and k: "k < length (sessions st)"
    and up: "update k c' (Some w) st = Some st'"
    and sp: "spares (set_option (ident (worker_at st k))) (coord st) c'"
    and id: "\<And>i. ident w = Some i \<Longrightarrow> ident (worker_at st k) = Some i \<or> i \<notin> dom (workers (coord st)) \<and> i \<in> dom (workers c')"
    and cw: "counted c' w" and jw: "has_job w \<Longrightarrow> job c' \<noteq> None"
  shows "cluster_inv st'"
proof -
  have st': "coord st' = c'" "length (sessions st') = length (sessions st)"
    "worker_at st' j = (if j = k then w else worker_at st j)" if "j < length (sessions st)" for j
    using up k that by (auto simp: update_def worker_at_def)
  have dm: "dom (workers (coord st)) \<subseteq> dom (workers c')" using sp by (simp add: spares_def)
  have old: "i \<in> dom (workers (coord st))" "ident (worker_at st j') = Some i \<Longrightarrow> j' < length (sessions st) \<Longrightarrow> j' = j"
    if "ident (worker_at st j) = Some i" "j < length (sessions st)" for i j j'
    using inv that unfolding cluster_inv_def by blast+
  have each: "counted c' (worker_at st' j) \<and> (has_job (worker_at st' j) \<longrightarrow> job c' \<noteq> None) \<and>
      (\<forall>i. ident (worker_at st' j) = Some i \<longrightarrow> i \<in> dom (workers c') \<and>
        (\<forall>j' < length (sessions st). ident (worker_at st' j') = Some i \<longrightarrow> j' = j))" if j: "j < length (sessions st)" for j
  proof (intro conjI allI impI)
    have "counted c' (worker_at st j)" if "j \<noteq> k"
    proof (rule counted_spares [OF _ sp])
      show "counted (coord st) (worker_at st j)" using inv j by (simp add: cluster_inv_def)
    qed (use old that j k in auto)
    then show "counted c' (worker_at st' j)" using cw st'(3) [OF j] by simp
    show "job c' \<noteq> None" if "has_job (worker_at st' j)"
      using that inv j sp jw st'(3) [OF j] by (auto simp: cluster_inv_def spares_def split: if_splits)
    fix i assume i: "ident (worker_at st' j) = Some i"
    then show "i \<in> dom (workers c')" using old(1) [of j i] old(1) [of k i] id [of i] dm j k st'(3) [OF j] by (auto split: if_splits)
    fix j' assume j': "j' < length (sessions st)" "ident (worker_at st' j') = Some i"
    then show "j' = j" using i st'(3) [OF j] st'(3) [OF j'(1)] id [of i] old [of _ i] j k by (auto split: if_splits)
  qed
  have "job c' = None \<longrightarrow> all_ready c'" "allFinishedLocked c' \<longrightarrow> c_done c'" "coord_inv c'"
    using sparesD [OF sp] inv by (simp_all add: cluster_inv_def)
  then show ?thesis using each st' k by (auto simp: cluster_inv_def)
qed

lemma own_step:
  assumes "worker_step w ev = Some w'" "own_event ev"
  shows "ident w' = None \<or> ident w' = ident w" "has_job w' \<Longrightarrow> has_job w" "wpc w' \<noteq> WReturned None"
  using assms by (cases ev; auto simp: own_event_def ident_def has_job_def split: wpc.splits)+

lemma register_step:
  assumes "worker_step w (RegisterReply t i) = Some w'"
  shows "ident w' = None \<or> ident w' = Some i \<and> snd (client_do True t) = None" "\<not> has_job w'" "wpc w' \<noteq> WReturned None"
  using assms by (auto simp: ident_def has_job_def send_def split: wpc.splits if_splits)

lemma poll_step:
  assumes "worker_step w (PollReply t j err) = Some w'" "wpc w = WPoll i"
  shows "ident w' = None \<or> ident w' = Some i" "wpc w' \<noteq> WReturned None"
    and "has_job w' \<or> last (outbox w') = SentReport rep \<Longrightarrow> snd (client_do True t) = None \<and> fst (client_do True t) = 200"
    and "last (outbox w') = SentReport rep \<Longrightarrow> rep_ID rep = i"
  using assms by (auto simp: ident_def has_job_def send_def error_report_def split: wpc.splits if_splits prod.splits option.splits)

lemma report_step:
  assumes "worker_step w (Interval sn t) = Some w'" "wpc w = WRunning i"
  shows "ident w' = Some i" "has_job w'" "wpc w' \<noteq> WReturned None"
  using assms by (auto simp: ident_def has_job_def send_def)

lemma final_step:
  assumes "worker_step w (FinalReply t) = Some w'" "wpc w = WFinal i sn n"
  shows "ident w' = None \<or> ident w' = Some i" "wpc w' = WReturned None \<Longrightarrow> snd (client_do False t) = None"
    "last (outbox w') = SentReport (final_report i sn)" "outbox w' \<noteq> []"
  using assms by (auto simp: ident_def has_job_def send_def final_report_def split: option.splits if_splits)

lemma cluster_inv_at:
  assumes "cluster_inv st" "k < length (sessions st)"
  shows "coord_inv (coord st)" "has_job (worker_at st k) \<Longrightarrow> job (coord st) \<noteq> None"
  using assms by (simp_all add: cluster_inv_def)

lemma update_Some: "update k c (Some w) st \<noteq> None" "update k c r st = Some st' \<Longrightarrow> \<exists>w. r = Some w \<and> update k c (Some w) st = Some st'"
  by (auto simp: update_def)

lemma cluster_inv_register:
  assumes inv: "cluster_inv st" and k: "k < length (sessions st)"
    and x: "exchange f now p (register_request cl req) (coord st) = (c', t, x)"
    and w: "worker_step (worker_at st k) (RegisterReply t (registered_id x)) = Some w" and up: "update k c' (Some w) st = Some st'"
  shows "cluster_inv st'"
proof (rule cluster_inv_update [OF inv k up])
  have "spares {} (coord st) c'" using spares_exchange(1) [OF cluster_inv_at(1) [OF inv k], of f now p cl req] x by simp
  then show "spares (set_option (ident (worker_at st k))) (coord st) c'" by (rule spares_mono) simp
  show "ident (worker_at st k) = Some i \<or> i \<notin> dom (workers (coord st)) \<and> i \<in> dom (workers c')" if "ident w = Some i" for i
    using register_step(1) [OF w] that accepted_register [OF cluster_inv_at(1) [OF inv k] x] by auto
qed (use register_step [OF w] in \<open>simp_all add: counted_def\<close>)

lemma cluster_inv_poll:
  assumes inv: "cluster_inv st" and k: "k < length (sessions st)" and i: "wpc (worker_at st k) = WPoll i"
    and x: "exchange f now p (job_request cl i) (coord st) = (c, t, x)"
    and w: "worker_step (worker_at st k) (PollReply t j err) = Some w"
    and c': "c' = (case last (outbox w) of SentReport rep \<Rightarrow> fst (exchange f' now PollGone (report_request cl rep) c) | _ \<Rightarrow> c)"
    and up: "update k c' (Some w) st = Some st'"
  shows "cluster_inv st'"
proof (rule cluster_inv_update [OF inv k up])
  note step = poll_step [OF w i]
  have id: "ident (worker_at st k) = Some i" using i by (simp add: ident_def)
  have sp: "spares {i} (coord st) c" using spares_exchange(2) [OF cluster_inv_at(1) [OF inv k], of i f now p cl] x by simp
  have job: "job (coord st) \<noteq> None" if "has_job w \<or> last (outbox w) = SentReport rep" for rep
    using accepted_job [OF x] step(3) [OF that] by simp
  have sp': "spares {i} (coord st) c'"
  proof (cases "last (outbox w)")
    case (SentReport rep)
    then have "job (coord st) \<noteq> None" using job by blast
    with sp have j: "job (coord st) \<noteq> None" "job c \<noteq> None" "coord_inv c" by (simp_all add: spares_def)
    have "spares {i} c c'" using spares_exchange(3) [OF j(3,2), of rep f' now PollGone cl] step(4) [OF SentReport] SentReport c' by simp
    then show ?thesis using spares_trans [OF sp] j by blast
  qed (use sp c' in simp_all)
  then show "spares (set_option (ident (worker_at st k))) (coord st) c'" using id by simp
  show "job c' \<noteq> None" if "has_job w" using job that sp' by (auto simp: spares_def)
  show "ident (worker_at st k) = Some i' \<or> i' \<notin> dom (workers (coord st)) \<and> i' \<in> dom (workers c')" if "ident w = Some i'" for i'
    using step(1) id that by auto
qed (use poll_step(2) [OF w i] in \<open>simp add: counted_def\<close>)

lemma cluster_inv_report:
  assumes inv: "cluster_inv st" and k: "k < length (sessions st)" and id: "ident (worker_at st k) = Some (rep_ID rep)"
    and j: "has_job (worker_at st k)" and x: "exchange f now p (report_request cl rep) (coord st) = (c', t, x)"
    and w: "ident w = None \<or> ident w = Some (rep_ID rep)" "counted c' w"
    and up: "update k c' (Some w) st = Some st'"
  shows "cluster_inv st'"
proof (rule cluster_inv_update [OF inv k up _ _ w(2)])
  have job: "job (coord st) \<noteq> None" using cluster_inv_at(2) [OF inv k j] .
  have sp: "spares {rep_ID rep} (coord st) c'"
    using spares_exchange(3) [OF cluster_inv_at(1) [OF inv k] job, of rep f now p cl] x by simp
  then show "spares (set_option (ident (worker_at st k))) (coord st) c'" using id by simp
  show "job c' \<noteq> None" using sp job by (auto simp: spares_def)
qed (use w(1) id in auto)

lemma cluster_inv_joins:
  assumes "cluster_inv st" "cluster_step st (Joins cl req) = Some st'"
  shows "cluster_inv st'"
proof -
  let ?n = "length (sessions st)"
  have st': "coord st' = coord st" "length (sessions st') = Suc ?n" using assms(2) by auto
  have old: "worker_at st' k = worker_at st k" if "k < ?n" for k using assms(2) that by (auto simp: worker_at_def nth_append)
  have new: "worker_at st' ?n = runOnce" using assms(2) by (auto simp: worker_at_def)
  have "ident runOnce = None" "\<not> has_job runOnce" "counted c runOnce" for c
    by (simp_all add: ident_def has_job_def counted_def runOnce_def)
  then show ?thesis using assms(1) st' old new by (auto simp: cluster_inv_def less_Suc_eq)
qed

lemma cluster_inv_main:
  assumes inv: "cluster_inv st" and step: "coord_step (coord st) ev = Some c" "main_event ev"
  shows "cluster_inv (st\<lparr>coord := c\<rparr>)"
proof -
  have "coord_inv (coord st)" using inv by (simp add: cluster_inv_def)
  then have sp: "spares {} (coord st) c" using step by (rule spares_main)
  have w: "worker_at (st\<lparr>coord := c\<rparr>) k = worker_at st k" for k by (simp add: worker_at_def)
  have "counted c (worker_at st k)" if "k < length (sessions st)" for k
    using counted_spares [OF _ sp, of "worker_at st k"] inv that by (simp add: cluster_inv_def)
  moreover have "job c \<noteq> None" if "job (coord st) \<noteq> None" using sp that by (auto simp: spares_def)
  moreover have "dom (workers (coord st)) \<subseteq> dom (workers c)" using sp by (simp add: spares_def)
  moreover have "job c = None \<longrightarrow> all_ready c" "allFinishedLocked c \<longrightarrow> c_done c" "coord_inv c"
    using sparesD [OF sp] inv by (simp_all add: cluster_inv_def)
  ultimately show ?thesis using inv by (simp add: cluster_inv_def w subset_iff)
qed

text \<open>Inversion of a step of the cluster: who acted, and what the exchange and the worker made of it.\<close>

lemma cluster_step_cases:
  assumes step: "cluster_step st ev = Some st'"
  obtains (joins) cl req where "ev = Joins cl req"
  | (main) e c where "ev = Main e" "main_event e" "coord_step (coord st) e = Some c" "st' = st\<lparr>coord := c\<rparr>"
  | (own) k e w where "k < length (sessions st)" "own_event e" "worker_step (worker_at st k) e = Some w" "update k (coord st) (Some w) st = Some st'"
  | (registers) k now f cl req c t x w where "k < length (sessions st)" "exchange f now PollGone (register_request cl req) (coord st) = (c, t, x)"
      "is_WRegister (wpc (worker_at st k))"
      "worker_step (worker_at st k) (RegisterReply t (registered_id x)) = Some w" "update k c (Some w) st = Some st'"
  | (polls) k now p f j err f' i cl c t x w where "k < length (sessions st)" "wpc (worker_at st k) = WPoll i"
      "exchange f now p (job_request cl i) (coord st) = (c, t, x)" "worker_step (worker_at st k) (PollReply t j err) = Some w"
      "update k (case last (outbox w) of SentReport rep \<Rightarrow> fst (exchange f' now PollGone (report_request cl rep) c) | _ \<Rightarrow> c) (Some w) st = Some st'"
  | (reports) k sn now f i cl c t x w where "k < length (sessions st)" "wpc (worker_at st k) = WRunning i"
      "exchange f now PollGone (report_request cl (interval_report i sn)) (coord st) = (c, t, x)"
      "worker_step (worker_at st k) (Interval sn t) = Some w" "update k c (Some w) st = Some st'"
  | (finals) k now f i sn n cl c t x w where "k < length (sessions st)" "wpc (worker_at st k) = WFinal i sn n"
      "exchange f now PollGone (report_request cl (final_report i sn)) (coord st) = (c, t, x)"
      "worker_step (worker_at st k) (FinalReply t) = Some w" "update k c (Some w) st = Some st'"
proof (cases ev)
  case (Own k e)
  then have k: "k < length (sessions st)" "own_event e" "update k (coord st) (worker_step (worker_at st k) e) st = Some st'"
    using step by (auto split: if_splits)
  show thesis using that(3) [OF k(1,2)] update_Some(2) [OF k(3)] by blast
next
  case (Registers k now f)
  obtain c t x where x: "exchange f now PollGone (register_request (client_at st k) (se_reg (sessions st ! k))) (coord st) = (c, t, x)"
    by (rule prod_cases3)
  then have k: "k < length (sessions st)" "is_WRegister (wpc (worker_at st k))"
    "update k c (worker_step (worker_at st k) (RegisterReply t (registered_id x))) st = Some st'"
    using step Registers by (auto split: if_splits)
  show thesis using that(4) [OF k(1) x k(2)] update_Some(2) [OF k(3)] by blast
next
  case (Polls k now p f j err f')
  then obtain i where k: "k < length (sessions st)" "wpc (worker_at st k) = WPoll i" using step by (auto split: if_splits wpc.splits)
  obtain c t x where x: "exchange f now p (job_request (client_at st k) i) (coord st) = (c, t, x)" by (rule prod_cases3)
  then show thesis using step Polls k that(5) [OF k x] by (auto simp del: worker_step.simps split: if_splits option.splits)
next
  case (Reports k sn now f)
  then obtain i where k: "k < length (sessions st)" "wpc (worker_at st k) = WRunning i" using step by (auto split: if_splits wpc.splits)
  obtain c t x where x: "exchange f now PollGone (report_request (client_at st k) (interval_report i sn)) (coord st) = (c, t, x)" by (rule prod_cases3)
  then have "update k c (worker_step (worker_at st k) (Interval sn t)) st = Some st'" using step Reports k by (simp del: worker_step.simps)
  then show thesis using that(6) [OF k x] update_Some(2) by blast
next
  case (Finals k now f)
  then obtain i sn n where k: "k < length (sessions st)" "wpc (worker_at st k) = WFinal i sn n" using step by (auto split: if_splits wpc.splits)
  obtain c t x where x: "exchange f now PollGone (report_request (client_at st k) (final_report i sn)) (coord st) = (c, t, x)" by (rule prod_cases3)
  then have "update k c (worker_step (worker_at st k) (FinalReply t)) st = Some st'" using step Finals k by (simp del: worker_step.simps)
  then show thesis using that(7) [OF k x] update_Some(2) by blast
qed (use step that(1,2) in \<open>auto split: if_splits\<close>)

lemma cluster_inv_step:
  assumes inv: "cluster_inv st" and step: "cluster_step st ev = Some st'"
  shows "cluster_inv st'"
  using step
proof (cases rule: cluster_step_cases)
  case (joins cl req)
  then show ?thesis using cluster_inv_joins inv step by blast
next
  case (main e c)
  then show ?thesis using cluster_inv_main [OF inv] by simp
next
  case (own k e w)
  then show ?thesis using own_step [OF own(3,2)] cluster_inv_at [OF inv own(1)]
    by (intro cluster_inv_update [OF inv own(1,4)]) (auto simp: spares_refl counted_def)
next
  case (registers k now f cl req c t x w)
  then show ?thesis using cluster_inv_register [OF inv registers(1,2,4,5)] by blast
next
  case (polls k now p f j err f' i cl c t x w)
  show ?thesis by (rule cluster_inv_poll [OF inv polls(1-4) refl polls(5)])
next
  case (reports k sn now f i cl c t x w)
  then show ?thesis using report_step [OF reports(4,2)]
    by (intro cluster_inv_report [OF inv reports(1) _ _ reports(3) _ _ reports(5)]) (auto simp: counted_def ident_def has_job_def interval_report_def)
next
  case (finals k now f i sn n cl c t x w)
  then show ?thesis using final_step [OF finals(4,2)] accepted_final [OF finals(3)]
    by (intro cluster_inv_report [OF inv finals(1) _ _ finals(3) _ _ finals(5)]) (auto simp: counted_def ident_def has_job_def final_report_def)
qed

section \<open>Whoever succeeds is counted\<close>

definition final_of :: "load_worker \<Rightarrow> (string \<times> snapshot) option" where
  "final_of w = (if wpc w \<noteq> WReturned None then None
     else case last (outbox w) of SentReport rep \<Rightarrow> map_option (Pair (rep_ID rep)) (rep_Snapshot rep) | _ \<Rightarrow> None)"

text \<open>The id and the final snapshot of every session that returned without error.\<close>

definition finals :: "cluster \<Rightarrow> (string \<times> snapshot) list" where
  "finals st = List.map_filter final_of (map se_worker (sessions st))"

definition idle_cluster :: "coordinator \<Rightarrow> cluster" where
  "idle_cluster c = \<lparr>coord = c, sessions = []\<rparr>"

interpretation network: machine cluster_step "\<lambda>st. \<exists>c. fresh_coordinator c \<and> st = idle_cluster c" "\<lambda>st0 es st. cluster_inv st"
proof (unfold_locales, goal_cases)
  case (1 st)
  then obtain c where c: "fresh_coordinator c" "st = idle_cluster c" by blast
  then have "coord_inv c" "\<not> allFinishedLocked c" "dom (workers c) = {}"
    using coord_inv_fresh [of c] fresh_simps [of c] by (auto simp: allFinishedLocked_def coord_inv_def)
  moreover from this have "all_ready c" by (auto simp: all_ready_def)
  ultimately show ?case by (simp add: cluster_inv_def c idle_cluster_def)
qed (rule cluster_inv_step)

lemma distinct_map_filter_nth:
  assumes "\<And>j k y. j < length xs \<Longrightarrow> k < length xs \<Longrightarrow> f (xs ! j) = Some y \<Longrightarrow> f (xs ! k) = Some y \<Longrightarrow> j = k"
  shows "distinct (List.map_filter f xs)"
  using assms
proof (induction xs)
  case (Cons x xs)
  have "distinct (List.map_filter f xs)" using Cons.prems [of "Suc _" "Suc _"] by (intro Cons.IH) force
  moreover have "y \<notin> set (List.map_filter f xs)" if "f x = Some y" for y
    using Cons.prems [of 0 "Suc _" y] that by (fastforce simp: List.map_filter_def in_set_conv_nth)
  ultimately show ?case by (auto simp: List.map_filter_simps split: option.splits)
qed (simp add: List.map_filter_simps)

lemma final_of_counted:
  assumes "cluster_inv st" "k < length (sessions st)" "final_of (worker_at st k) = Some (i, sn)"
  shows "settled (coord st) i sn" "ident (worker_at st k) = Some i" "job (coord st) \<noteq> None"
proof -
  have r: "wpc (worker_at st k) = WReturned None" using assms(3) by (auto simp: final_of_def split: if_splits)
  have "counted (coord st) (worker_at st k)" using assms(1,2) by (simp add: cluster_inv_def)
  then obtain i' sn' where "last (outbox (worker_at st k)) = SentReport (final_report i' sn')" "settled (coord st) i' sn'"
    using r by (auto simp: counted_def)
  then show "settled (coord st) i sn" "ident (worker_at st k) = Some i"
    using assms(3) r by (simp_all add: final_of_def final_report_def ident_def)
  show "job (coord st) \<noteq> None" using cluster_inv_at(2) [OF assms(1,2)] r by (simp add: has_job_def)
qed

lemma finals_at:
  assumes "cluster_inv st" "(i, sn) \<in> set (finals st)"
  obtains k where "k < length (sessions st)" "final_of (worker_at st k) = Some (i, sn)"
  using assms(2) by (auto simp: finals_def List.map_filter_def in_set_conv_nth worker_at_def)

lemma finals_distinct:
  assumes inv: "cluster_inv st"
  shows "distinct (map fst (finals st))"
proof -
  have "map fst (finals st) = List.map_filter (map_option fst \<circ> final_of) (map se_worker (sessions st))"
    unfolding finals_def by (induction "map se_worker (sessions st)" arbitrary: st) (auto simp: List.map_filter_def)
  moreover have "distinct (List.map_filter (map_option fst \<circ> final_of) (map se_worker (sessions st)))"
  proof (rule distinct_map_filter_nth)
    fix j k y
    assume "j < length (map se_worker (sessions st))" "k < length (map se_worker (sessions st))"
      "(map_option fst \<circ> final_of) (map se_worker (sessions st) ! j) = Some y" "(map_option fst \<circ> final_of) (map se_worker (sessions st) ! k) = Some y"
    then have "j < length (sessions st)" "k < length (sessions st)" "ident (worker_at st j) = Some y" "ident (worker_at st k) = Some y"
      using final_of_counted(2) [OF inv] by (auto simp: worker_at_def)
    then show "j = k" using inv unfolding cluster_inv_def by blast
  qed
  ultimately show ?thesis by simp
qed

lemma finals_length:
  assumes inv: "cluster_inv st"
  shows "length (finals st) = length (filter (\<lambda>s. wpc (se_worker s) = WReturned None) (sessions st))"
proof -
  have "final_of (se_worker s) \<noteq> None \<longleftrightarrow> wpc (se_worker s) = WReturned None" if s: "s \<in> set (sessions st)" for s
  proof -
    obtain k where k: "k < length (sessions st)" "s = sessions st ! k" using s by (metis in_set_conv_nth)
    then have "counted (coord st) (se_worker s)" using inv by (simp add: cluster_inv_def worker_at_def)
    then show ?thesis by (auto simp: counted_def final_of_def final_report_def)
  qed
  then have "filter (\<lambda>s. final_of (se_worker s) \<noteq> None) (sessions st) = filter (\<lambda>s. wpc (se_worker s) = WReturned None) (sessions st)"
    by (intro filter_cong) auto
  then show ?thesis by (simp add: finals_def List.map_filter_def filter_map comp_def)
qed

lemma all_counted:
  assumes inv: "cluster_inv st" and all: "length (finals st) = length (order (coord st))" "finals st \<noteq> []"
  shows "c_done (coord st) \<and> mset (reported (coord st)) = mset (map snd (finals st))"
proof
  let ?c = "coord st"
  have cinv: "coord_inv ?c" using inv by (simp add: cluster_inv_def)
  have final: "settled ?c i sn" if "(i, sn) \<in> set (finals st)" for i sn
    using finals_at [OF inv that] final_of_counted(1) [OF inv] by blast
  have "set (map fst (finals st)) \<subseteq> set (order ?c)"
    using final cinv by (fastforce simp: settled_def coord_inv_def)
  then have same: "set (map fst (finals st)) = set (order ?c)"
    using finals_distinct [OF inv] coord_inv_distinct [OF cinv] all(1)
    by (intro card_subset_eq) (simp_all add: distinct_card [symmetric] del: set_map, metis distinct_card length_map)
  have "job ?c \<noteq> None"
  proof -
    obtain i sn where "(i, sn) \<in> set (finals st)" using all(2) by (cases "finals st") auto
    then show ?thesis using finals_at [OF inv] final_of_counted(3) [OF inv] by metis
  qed
  moreover have "\<exists>v. workers ?c i = Some v \<and> ws_state v = ''done''" if "i \<in> set (order ?c)" for i
    using that final unfolding same [symmetric] by (fastforce simp: settled_def)
  moreover have "order ?c \<noteq> []" using all by auto
  ultimately have "allFinishedLocked ?c" by (fastforce simp: allFinishedLocked_def list_all_iff final_state_def)
  then show "c_done ?c" using inv by (simp add: cluster_inv_def)
  let ?g = "\<lambda>i. Option.bind (workers ?c i) ws_snap"
  have "mset (order ?c) = mset (map fst (finals st))"
    using same finals_distinct [OF inv] coord_inv_distinct [OF cinv] set_eq_iff_mset_eq_distinct by metis
  then have "mset (reported ?c) = mset (List.map_filter ?g (map fst (finals st)))"
    unfolding reported_def by (rule mset_map_filter)
  also have "List.map_filter ?g (map fst (finals st)) = map snd (finals st)"
    using final by (intro map_filter_all) (fastforce simp: settled_def)
  finally show "mset (reported ?c) = mset (map snd (finals st))" .
qed



section \<open>A small cluster\<close>

definition demo_client :: http_client where
  "demo_client = new_client \<lparr>wo_Coordinator = ''http://c:7070/'', wo_Name = ''a'', wo_Token = [], wo_Loop = False\<rparr>"

definition demo_reg :: registerRequest where
  "demo_reg = \<lparr>reg_Name = ''a'', reg_Host = ''h'', reg_CPUs = 4\<rparr>"

text \<open>From the registration on: the job is released and polled, the engine finishes, the first reply to the
  final report is lost and the second arrives.\<close>

definition demo_job :: "nat \<Rightarrow> Job" where
  "demo_job n = \<lparr>RunID = ''r'', job_Config = split_config n (demo_config\<lparr>Duration := 0\<rparr>), StartDelay = 3 * Second\<rparr>"

definition demo_tail :: "nat \<Rightarrow> cluster_event list" where
  "demo_tail n = [Main (Release 20), Polls 0 20 PollReleased Arrived (demo_job n) None Arrived, Own 0 StartNow,
     Own 0 (EngineDone NewSnapshot), Finals 0 30 ReplyLost, Finals 0 31 Arrived]"

lemmas demo_cluster_eval = demo_tail_def demo_job_def idle_cluster_def demo_client_def new_client_def demo_reg_def demo_coord_def update_def
  worker_at_def client_at_def runOnce_def exchange_def routed auth_def handleRegister_def handleJob_def handleReport_def apply_report_def
  final_report_def answer_def client_do_def registered_id_def replied_job_def send_def own_event_def main_event_def
  worker_id_1 release_def WorkerCount_def guard_def run_deadline_def finish_def

lemma demo_cluster:
  "\<exists>st. exec cluster_step (idle_cluster (demo_coord 0)) ([Joins demo_client demo_reg, Registers 0 10 Arrived] @ demo_tail 1) = Some st \<and>
     finals st = [(''w001'', NewSnapshot)] \<and> order (coord st) = [''w001''] \<and> running (coord st) = Monitoring None"
  by (simp add: demo_cluster_eval Let_def split_config_def finals_def final_of_def List.map_filter_simps)


text \<open>What a lost reply to a registration costs: the worker registers again under a new id, the first id
  stays in the table as a worker that is ready, counts as one of the expected workers and takes a share of the
  load; when the only real worker has finished successfully, the run is still not over.\<close>

lemma lost_registration_leaves_ghost:
  "\<exists>st v. exec cluster_step (idle_cluster (demo_coord 0))
       ([Joins demo_client demo_reg, Registers 0 10 ReplyLost, Own 0 BackoffOver, Registers 0 11 Arrived] @ demo_tail 2) = Some st \<and>
     finals st = [(''w002'', NewSnapshot)] \<and> order (coord st) = [''w001'', ''w002''] \<and>
     workers (coord st) ''w001'' = Some v \<and> ws_state v = ''ready'' \<and> \<not> c_done (coord st)"
proof -
  have "worker_id (Suc (Suc 0)) = ''w002''" by code_simp
  then show ?thesis
    by (simp add: demo_cluster_eval Let_def split_config_def finals_def final_of_def List.map_filter_simps allFinishedLocked_def final_state_def
        demo_config_def)
qed

end
