(* ===== verification/Ledger.thy ===== *)
theory Ledger
  imports Cluster
begin

text \<open>
  An abstract specification of a distributed run: a ledger with one entry per participant, which is undecided
  until the participant's result is written into it, once and for all. The cluster of \<open>Cluster\<close>, with its
  handlers, retries, lost messages, deadline and lost workers, is shown to refine it: every step either leaves
  the ledger alone, opens one entry, or writes one result.
\<close>

section \<open>The ledger\<close>

datatype entry = Undecided | Counted "snapshot option"

type_synonym ledger = "string \<Rightarrow> entry option"

inductive ledger_step :: "ledger \<Rightarrow> ledger \<Rightarrow> bool" where
  joins: "L i = None \<Longrightarrow> ledger_step L (L(i \<mapsto> Undecided))"
| counts: "L i = Some Undecided \<Longrightarrow> ledger_step L (L(i \<mapsto> Counted (Some sn)))"

inductive_cases ledger_stepE: "ledger_step L L'"

lemma ledger_step_final: "ledger_step L L' \<Longrightarrow> L i = Some (Counted r) \<Longrightarrow> L' i = Some (Counted r)"
  by (erule ledger_stepE) auto

lemma ledger_final: "ledger_step\<^sup>*\<^sup>* L L' \<Longrightarrow> L i = Some (Counted r) \<Longrightarrow> L' i = Some (Counted r)"
  by (induction rule: rtranclp_induct) (auto intro: ledger_step_final)

section \<open>The table of the coordinator as a ledger\<close>

definition entry_of :: "workerState \<Rightarrow> entry" where
  "entry_of v = (if ws_state v = ''done'' then Counted (ws_snap v) else Undecided)"

definition ledger_of :: "coordinator \<Rightarrow> ledger" where
  "ledger_of c = (\<lambda>i. map_option entry_of (workers c i))"

lemma ledger_None: "ledger_of c i = None \<longleftrightarrow> workers c i = None"
  by (simp add: ledger_of_def)

lemma entry_not_done: "ws_state v \<noteq> ''done'' \<Longrightarrow> entry_of v = Undecided"
  by (simp add: entry_of_def)

lemma ledger_of_upd: "ledger_of (c\<lparr>workers := (workers c)(i \<mapsto> v)\<rparr>) = (ledger_of c)(i \<mapsto> entry_of v)"
  by (auto simp: ledger_of_def)

lemma ledger_of_workers: "workers c' = workers c \<Longrightarrow> ledger_of c' = ledger_of c"
  by (simp add: ledger_of_def)

lemma ledger_settled: "ledger_of c i = Some (Counted (Some sn)) \<longleftrightarrow> settled c i sn"
  by (auto simp: ledger_of_def entry_of_def settled_def)

text \<open>What each request does to the ledger.\<close>

lemma ledger_register:
  assumes "coord_inv c"
  shows "ledger_of (fst (exchange f now p (register_request cl req) c)) = ledger_of c \<or>
    (\<exists>i. ledger_of c i = None \<and> ledger_of (fst (exchange f now p (register_request cl req) c)) = (ledger_of c)(i \<mapsto> Undecided))"
proof -
  let ?c' = "fst (auth (hc_token cl) (handleRegister now (Some req)) c)"
  have "ledger_of ?c' = ledger_of c \<or> (\<exists>i. ledger_of c i = None \<and> ledger_of ?c' = (ledger_of c)(i \<mapsto> Undecided))"
  proof (cases "token c \<noteq> [] \<and> hc_token cl \<noteq> token c \<or> job c \<noteq> None")
    case False
    let ?i = "worker_id (length (order c) + 1)"
    have "ledger_of c ?i = None" using new_id_fresh [OF assms] by (simp add: ledger_of_def domIff)
    moreover have "ledger_of ?c' = (ledger_of c)(?i \<mapsto> Undecided)"
      using False by (auto simp: auth_def handleRegister_def Let_def ledger_of_def entry_of_def)
    ultimately show ?thesis by blast
  qed (auto simp: auth_def handleRegister_def)
  then show ?thesis using exchange_coord [of f now p "register_request cl req" c] by (auto simp: routed)
qed

lemma ledger_job:
  assumes "ledger_of c i = Some Undecided"
  shows "ledger_of (fst (exchange f now p (job_request cl i) c)) = ledger_of c"
proof -
  have "ledger_of (fst (handleJob now p i c)) = ledger_of c"
    using assms by (auto simp: handleJob_def ledger_of_def entry_not_done fun_eq_iff split: option.splits poll_end.splits)
  then show ?thesis using exchange_coord [of f now p "job_request cl i" c] by (auto simp: routed auth_def)
qed

lemma ledger_handleReport:
  assumes "workers c (rep_ID rep) = Some v"
  shows "ledger_of (fst (handleReport now (Some rep) c)) = (ledger_of c)(rep_ID rep \<mapsto> entry_of (apply_report now rep v))"
  using assms ledger_of_upd [of c "rep_ID rep" "apply_report now rep v"]
  by (simp add: handleReport_def Let_def ledger_of_workers [OF finish_frame(3)])

lemma ledger_report:
  assumes "ledger_of c (rep_ID rep) = Some Undecided" "\<not> rep_Done rep"
  shows "ledger_of (fst (exchange f now p (report_request cl rep) c)) = ledger_of c"
proof -
  obtain v where v: "workers c (rep_ID rep) = Some v" "ws_state v \<noteq> ''done''"
    using assms(1) by (auto simp: ledger_of_def entry_of_def split: if_splits)
  then have "entry_of (apply_report now rep v) = Undecided"
    using assms(2) by (intro entry_not_done) (simp add: apply_report_def Let_def split: option.splits)
  then have "ledger_of (fst (handleReport now (Some rep) c)) = ledger_of c"
    using ledger_handleReport [OF v(1), of now] assms(1) by (simp add: fun_upd_idem)
  then show ?thesis using exchange_coord [of f now p "report_request cl rep" c] by (auto simp: routed auth_def)
qed

lemma ledger_final_report:
  shows "ledger_of (fst (exchange f now p (report_request cl (final_report i sn)) c)) \<in> {ledger_of c, (ledger_of c)(i \<mapsto> Counted (Some sn))}"
proof -
  have "ledger_of (fst (handleReport now (Some (final_report i sn)) c)) \<in> {ledger_of c, (ledger_of c)(i \<mapsto> Counted (Some sn))}"
  proof (cases "workers c i")
    case (Some v)
    then have "workers c (rep_ID (final_report i sn)) = Some v" by (simp add: final_report_def)
    note ledger_handleReport [OF this, of now]
    moreover have "entry_of (apply_report now (final_report i sn) v) = Counted (Some sn)" using apply_final by (simp add: entry_of_def)
    ultimately show ?thesis by (simp add: final_report_def)
  qed (simp add: handleReport_def final_report_def)
  then show ?thesis using exchange_coord [of f now p "report_request cl (final_report i sn)" c] by (auto simp: routed auth_def)
qed

lemma ledger_each:
  assumes "\<And>v. f (f v) = f v" "\<And>v. entry_of (f v) = entry_of v"
  shows "ledger_of (each_worker f c) = ledger_of c"
  using assms by (auto simp: ledger_of_def each_worker_lookup option.map_comp comp_def fun_eq_iff)

lemma entry_lose: "entry_of (lose_silent now v) = entry_of v" "entry_of (lose_unfinished v) = entry_of v"
  by (auto simp: entry_of_def lose_silent_def lose_unfinished_def)

text \<open>The main loop, with its deadline and its lost workers, decides nothing.\<close>

lemma ledger_main:
  assumes "coord_step c ev = Some c'" "main_event ev"
  shows "ledger_of c' = ledger_of c"
proof -
  have same: "ledger_of (each_worker (lose_silent now) c) = ledger_of c" "ledger_of (each_worker lose_unfinished c) = ledger_of c" for now
    by (rule ledger_each; simp add: lose_idem entry_lose)+
  show ?thesis using assms same
    by (cases ev) (auto simp: main_event_def release_def markLost_def deadline_reached_def Let_def ledger_of_def split: run_state.splits)
qed

section \<open>Refinement\<close>

text \<open>As long as a session has not sent its final report, its entry is undecided.\<close>

definition entry_ok :: "ledger \<Rightarrow> load_worker \<Rightarrow> bool" where
  "entry_ok L w \<longleftrightarrow> (case wpc w of
      WPoll i \<Rightarrow> L i = Some Undecided | WDelay i j \<Rightarrow> L i = Some Undecided | WRunning i \<Rightarrow> L i = Some Undecided
    | WFinal i sn k \<Rightarrow> L i = Some Undecided \<or> L i = Some (Counted (Some sn)) | _ \<Rightarrow> True)"

definition ledger_inv :: "cluster \<Rightarrow> bool" where
  "ledger_inv st \<longleftrightarrow> cluster_inv st \<and> (\<forall>k < length (sessions st). entry_ok (ledger_of (coord st)) (worker_at st k))"

lemma entry_ok_cong: "(\<And>i. ident w = Some i \<Longrightarrow> L' i = L i) \<Longrightarrow> entry_ok L w \<Longrightarrow> entry_ok L' w"
  by (auto simp: entry_ok_def ident_def split: wpc.splits)

lemma ledger_inv_at:
  assumes "ledger_inv st" "k < length (sessions st)"
  shows "cluster_inv st" "coord_inv (coord st)" "entry_ok (ledger_of (coord st)) (worker_at st k)"
  using assms by (simp_all add: ledger_inv_def cluster_inv_def)

lemma ledger_inv_update:
  assumes inv: "ledger_inv st" and st': "cluster_inv st'" and k: "k < length (sessions st)" and up: "update k c' (Some w) st = Some st'"
    and L: "\<And>i. ident (worker_at st k) \<noteq> Some i \<Longrightarrow> i \<in> dom (workers (coord st)) \<Longrightarrow> ledger_of c' i = ledger_of (coord st) i"
    and w: "entry_ok (ledger_of c') w"
  shows "ledger_inv st'"
proof -
  have eq: "coord st' = c'" "length (sessions st') = length (sessions st)" using up by (auto simp: update_def)
  have "entry_ok (ledger_of c') (worker_at st' j)" if j: "j < length (sessions st)" for j
  proof (cases "j = k")
    case True
    then show ?thesis using up k w by (auto simp: update_def worker_at_def)
  next
    case False
    have "entry_ok (ledger_of c') (worker_at st j)"
    proof (rule entry_ok_cong)
      fix i assume "ident (worker_at st j) = Some i"
      then have "i \<in> dom (workers (coord st))" "ident (worker_at st k) \<noteq> Some i"
        using inv j k False unfolding ledger_inv_def cluster_inv_def by blast+
      then show "ledger_of c' i = ledger_of (coord st) i" using L by simp
    qed (rule ledger_inv_at(3) [OF inv j])
    then show ?thesis using up False by (auto simp: update_def worker_at_def)
  qed
  then show ?thesis using st' eq by (simp add: ledger_inv_def)
qed

lemma poll_entry:
  assumes "worker_step w (PollReply t j err) = Some w'" "wpc w = WPoll i" "L i = Some Undecided"
  shows "entry_ok L w'" "last (outbox w') = SentReport rep \<Longrightarrow> \<not> rep_Done rep"
  using assms by (auto simp: entry_ok_def send_def error_report_def split: wpc.splits prod.splits option.splits if_splits)

lemma own_entry: "worker_step w ev = Some w' \<Longrightarrow> own_event ev \<Longrightarrow> entry_ok L w \<Longrightarrow> entry_ok L w'"
  by (cases ev) (auto simp: own_event_def entry_ok_def split: wpc.splits)

lemma final_entry:
  assumes "worker_step w (FinalReply t) = Some w'" "wpc w = WFinal i sn n" "L i = Some Undecided \<or> L i = Some (Counted (Some sn))"
  shows "entry_ok L w'"
  using assms by (auto simp: entry_ok_def send_def split: option.splits)

definition ledger_moves :: "cluster \<Rightarrow> cluster \<Rightarrow> bool" where
  "ledger_moves st st' \<longleftrightarrow> ledger_inv st' \<and>
     (ledger_of (coord st') = ledger_of (coord st) \<or> ledger_step (ledger_of (coord st)) (ledger_of (coord st')))"

lemma update_coord: "update k c (Some w) st = Some st' \<Longrightarrow> coord st' = c"
  by (auto simp: update_def)

lemma ledger_same:
  assumes "ledger_inv st" "cluster_inv st'" "k < length (sessions st)" "update k c (Some w) st = Some st'"
    "ledger_of c = ledger_of (coord st)" "entry_ok (ledger_of c) w"
  shows "ledger_moves st st'"
  using ledger_inv_update [OF assms(1-4) _ assms(6)] assms(5) update_coord [OF assms(4)] by (simp add: ledger_moves_def)

lemma ledger_moves_register:
  assumes inv: "ledger_inv st" "cluster_inv st'" and k: "k < length (sessions st)" "is_WRegister (wpc (worker_at st k))"
    and x: "exchange f now p (register_request cl req) (coord st) = (c, t, x)"
    and w: "worker_step (worker_at st k) (RegisterReply t (registered_id x)) = Some w" and up: "update k c (Some w) st = Some st'"
  shows "ledger_moves st st'"
proof -
  note cinv = ledger_inv_at(2) [OF inv(1) k(1)]
  have L: "ledger_of c = ledger_of (coord st) \<or> (\<exists>i. ledger_of (coord st) i = None \<and> ledger_of c = (ledger_of (coord st))(i \<mapsto> Undecided))"
    using ledger_register [OF cinv, of f now p cl req] x by simp
  moreover have "entry_ok (ledger_of c) w"
  proof (cases "snd (client_do True t) = None")
    case True
    have "ledger_of (coord st) (registered_id x) = None" "ledger_of c (registered_id x) \<noteq> None"
      using accepted_register [OF cinv x True] by (simp_all add: ledger_None domIff)
    with L have "ledger_of c (registered_id x) = Some Undecided" by (auto split: if_splits)
    then show ?thesis using k(2) w True by (auto simp: entry_ok_def send_def split: wpc.splits)
  qed (use k(2) w in \<open>auto simp: entry_ok_def send_def split: wpc.splits\<close>)
  moreover have "ledger_of c i = ledger_of (coord st) i" if "i \<in> dom (workers (coord st))" for i
    using L that ledger_None [of "coord st" i] by (auto simp: domIff)
  ultimately show ?thesis using ledger_inv_update [OF inv k(1) up] update_coord [OF up]
    by (auto simp: ledger_moves_def intro: ledger_step.joins)
qed

lemma ledger_moves_final:
  assumes inv: "ledger_inv st" "cluster_inv st'" and k: "k < length (sessions st)" "wpc (worker_at st k) = WFinal i sn n"
    and x: "exchange f now p (report_request cl (final_report i sn)) (coord st) = (c, t, x)"
    and w: "worker_step (worker_at st k) (FinalReply t) = Some w" and up: "update k c (Some w) st = Some st'"
  shows "ledger_moves st st'"
proof -
  have i: "ledger_of (coord st) i = Some Undecided \<or> ledger_of (coord st) i = Some (Counted (Some sn))"
    using ledger_inv_at(3) [OF inv(1) k(1)] k(2) by (simp add: entry_ok_def)
  have L: "ledger_of c = ledger_of (coord st) \<or> ledger_of c = (ledger_of (coord st))(i \<mapsto> Counted (Some sn))"
    using ledger_final_report [of f now p cl i sn "coord st"] x by simp
  then have "entry_ok (ledger_of c) w" using final_entry [OF w k(2), of "ledger_of c"] i by auto
  moreover have "ident (worker_at st k) = Some i" using k(2) by (simp add: ident_def)
  moreover have "ledger_of c = ledger_of (coord st) \<or> ledger_step (ledger_of (coord st)) (ledger_of c)"
    using L i by (auto intro: ledger_step.counts simp: fun_upd_idem)
  ultimately show ?thesis using ledger_inv_update [OF inv k(1) up] L update_coord [OF up] by (auto simp: ledger_moves_def)
qed

lemma ledger_inv_step:
  assumes inv: "ledger_inv st" and step: "cluster_step st ev = Some st'"
  shows "ledger_moves st st'"
proof -
  have cinv: "cluster_inv st'" using inv cluster_inv_step [OF _ step] by (simp add: ledger_inv_def)
  note same = ledger_same [OF inv cinv] and entry = ledger_inv_at(3) [OF inv]
  show ?thesis using step
  proof (cases rule: cluster_step_cases)
    case (joins cl req)
    have "entry_ok L runOnce" for L by (simp add: entry_ok_def runOnce_def)
    then show ?thesis using inv cinv step joins by (auto simp: ledger_moves_def ledger_inv_def worker_at_def nth_append less_Suc_eq)
  next
    case (main e c)
    then show ?thesis using inv cinv ledger_main [OF main(3,2)] by (simp add: ledger_moves_def ledger_inv_def worker_at_def)
  next
    case (own k e w)
    show ?thesis by (rule same [OF own(1,4) refl own_entry [OF own(3,2) entry [OF own(1)]]])
  next
    case (registers k now f cl req c t x w)
    show ?thesis by (rule ledger_moves_register [OF inv cinv registers(1,3,2,4,5)])
  next
    case (polls k now p f j err f' i cl c t x w)
    have i: "ledger_of (coord st) i = Some Undecided" using entry [OF polls(1)] polls(2) by (simp add: entry_ok_def)
    then have L: "ledger_of c = ledger_of (coord st)" using ledger_job [OF i, of f now p cl] polls(3) by simp
    have "ledger_of (fst (exchange f' now PollGone (report_request cl rep) c)) = ledger_of c" if "last (outbox w) = SentReport rep" for rep
      using ledger_report [of c rep] poll_entry(2) [OF polls(4,2)] poll_step(4) [OF polls(4,2)] that i L by simp
    then show ?thesis using L poll_entry(1) [OF polls(4,2), of "ledger_of c"] i
      by (intro same [OF polls(1,5)]) (auto split: sent.splits)
  next
    case (reports k sn now f i cl c t x w)
    have i: "ledger_of (coord st) i = Some Undecided" using entry [OF reports(1)] reports(2) by (simp add: entry_ok_def)
    then have "ledger_of c = ledger_of (coord st)"
      using ledger_report [of "coord st" "interval_report i sn" f now PollGone cl] reports(3) by (simp add: interval_report_def)
    then show ?thesis using reports(2,4) i by (intro same [OF reports(1,5)]) (auto simp: entry_ok_def send_def)
  next
    case (finals k now f i sn n cl c t x w)
    show ?thesis by (rule ledger_moves_final [OF inv cinv finals])
  qed
qed

interpretation write_once: simulation cluster_step ledger_inv "ledger_of \<circ> coord" ledger_step
proof (unfold_locales, goal_cases)
  case (1 st ev st')
  then show ?case using ledger_inv_step [OF 1] by (simp add: ledger_moves_def)
next
  case (2 st ev st')
  then show ?case using ledger_inv_step [OF 2] by (auto simp: ledger_moves_def)
qed

lemma idle_ledger: "fresh_coordinator c \<Longrightarrow> ledger_inv (idle_cluster c) \<and> ledger_of c = Map.empty"
proof -
  assume c: "fresh_coordinator c"
  then have "cluster_inv (idle_cluster c)" by (intro network.inv_start) blast
  moreover have "dom (workers c) = {}" using coord_inv_fresh [OF c] fresh_simps [OF c] by (simp add: coord_inv_def)
  ultimately show ?thesis by (auto simp: ledger_inv_def idle_cluster_def ledger_of_def fun_eq_iff)
qed



end
