(* ===== verification/Report.thy ===== *)
theory Report
  imports Stats_Quantile Go_Strconv
begin

text \<open>
  Final report and service-level objectives (\<open>internal/titanload/report/report.go\<close>): the gate \<open>Check\<close>,
  the summary \<open>Build\<close>, its text form, and the number formats, with \<open>%.Nf\<close> as the correctly rounded
  decimal. The gate is related to the latencies that were really measured. \<open>WriteJSON\<close> is encoding and
  file output only.
\<close>

section \<open>Number formats\<close>

definition pad_digits :: "nat \<Rightarrow> nat \<Rightarrow> string" where
  "pad_digits n k = replicate (n - length (digits_of k)) (digit 0) @ digits_of k"

text \<open>\<open>fmt.Sprintf("%.<n>f", x)\<close>.\<close>

definition fmt_fixed :: "nat \<Rightarrow> real \<Rightarrow> string" where
  "fmt_fixed n x =
     (let k = nat (round_half_even (\<bar>x\<bar> * 10 ^ n)) in
      (if x < 0 then ''-'' else []) @ digits_of (k div 10 ^ n) @
      (if n = 0 then [] else ''.'' @ pad_digits n (k mod 10 ^ n)))"

definition micro_sign :: string where
  "micro_sign = [CHR 0xC2, CHR 0xB5]"

definition FmtDur :: "duration \<Rightarrow> string" where
  "FmtDur d =
     (if d < Millisecond then itoa (Microseconds d) @ micro_sign @ ''s''
      else if d < Second then fmt_fixed 2 (f64 (float_of_int (Microseconds d) / 1000)) @ ''ms''
      else fmt_fixed 2 (Seconds d) @ ''s'')"

text \<open>The loop of \<open>Num\<close>: a comma before every digit that is followed by a multiple of three digits, the
  first excepted.\<close>

fun group_digits :: "bool \<Rightarrow> string \<Rightarrow> string" where
  "group_digits first [] = []"
| "group_digits first (c # cs) =
     (if \<not> first \<and> (length cs + 1) mod 3 = 0 then '','' else []) @ c # group_digits False cs"

definition Num :: "real \<Rightarrow> string" where
  "Num f =
     (let n = trunc_float (f64 (f + 1 / 2)) in
      if n < 0 then ''-'' @ group_digits True (itoa (i64 (- n))) else group_digits True (itoa n))"

definition units :: "string list" where
  "units = [''B'', ''KB'', ''MB'', ''GB'', ''TB'']"

fun scale_bytes :: "nat \<Rightarrow> real \<Rightarrow> string list \<Rightarrow> real \<times> string" where
  "scale_bytes i f [] = (f, [])"
| "scale_bytes i f [u] = (f, u)"
| "scale_bytes i f (u # us) = (if 1024 \<le> f then scale_bytes (Suc i) (f64 (f / 1024)) us else (f, u))"

definition report_Bytes :: "real \<Rightarrow> string" where
  "report_Bytes f = (case scale_bytes 0 f units of (v, u) \<Rightarrow> fmt_fixed 1 v @ '' '' @ u)"

section \<open>Objectives\<close>

record SLO =
  slo_P95 :: duration
  slo_P99 :: duration
  slo_ErrorRate :: real
  slo_MinRPS :: real

datatype violation = ViolP95 duration duration | ViolP99 duration duration | ViolErrors real real | ViolRPS real real

fun violation_text :: "violation \<Rightarrow> string" where
  "violation_text (ViolP95 got want) = ''p95 '' @ FmtDur got @ '' > '' @ FmtDur want"
| "violation_text (ViolP99 got want) = ''p99 '' @ FmtDur got @ '' > '' @ FmtDur want"
| "violation_text (ViolErrors got want) =
     ''error rate '' @ fmt_fixed 3 (f64 (got * 100)) @ ''% > '' @ fmt_fixed 3 (f64 (want * 100)) @ ''%''"
| "violation_text (ViolRPS got want) = ''rps '' @ fmt_fixed 0 got @ '' < '' @ fmt_fixed 0 want"

definition Check :: "SLO \<Rightarrow> snapshot \<Rightarrow> violation list" where
  "Check s sn =
     (if 0 < slo_P95 s \<and> slo_P95 s < Percentile sn (f64 0.95) then [ViolP95 (Percentile sn (f64 0.95)) (slo_P95 s)] else []) @
     (if 0 < slo_P99 s \<and> slo_P99 s < Percentile sn (f64 0.99) then [ViolP99 (Percentile sn (f64 0.99)) (slo_P99 s)] else []) @
     (if 0 < slo_ErrorRate s \<and> slo_ErrorRate s < ErrorRate sn then [ViolErrors (ErrorRate sn) (slo_ErrorRate s)] else []) @
     (if 0 < slo_MinRPS s \<and> RPS sn < slo_MinRPS s then [ViolRPS (RPS sn) (slo_MinRPS s)] else [])"

definition SLO_Enabled :: "SLO \<Rightarrow> bool" where
  "SLO_Enabled s \<longleftrightarrow> 0 < slo_P95 s \<or> 0 < slo_P99 s \<or> 0 < slo_ErrorRate s \<or> 0 < slo_MinRPS s"

section \<open>The summary\<close>

record Latency =
  lat_Min :: real
  lat_Mean :: real
  lat_P50 :: real
  lat_P90 :: real
  lat_P95 :: real
  lat_P99 :: real
  lat_P999 :: real
  lat_Max :: real

record Summary =
  sum_Target :: string
  sum_Mode :: string
  sum_Workers :: int
  sum_Concurrency :: int
  sum_TargetRate :: real
  sum_DurationSec :: real
  sum_Requests :: u64
  sum_Failures :: u64
  sum_ErrorRate :: real
  sum_RPS :: real
  sum_BytesPerSec :: real
  sum_Latency :: Latency
  sum_StatusClasses :: "(string \<times> u64) list"
  sum_Errors :: "kinds option"
  sum_SLOPassed :: bool
  sum_Violations :: "violation list"
  sum_FinishedAt :: gotime

record RunInfo =
  ri_Target :: string
  ri_Mode :: string
  ri_Workers :: int
  ri_Concurrency :: int
  ri_Rate :: real

definition ms :: "duration \<Rightarrow> real" where
  "ms d = f64 (float_of_int (Microseconds d) / 1000)"

definition Build :: "gotime \<Rightarrow> snapshot \<Rightarrow> RunInfo \<Rightarrow> SLO \<Rightarrow> Summary" where
  "Build now sn info slo =
     \<lparr>sum_Target = ri_Target info, sum_Mode = ri_Mode info, sum_Workers = max (ri_Workers info) 1,
      sum_Concurrency = ri_Concurrency info, sum_TargetRate = ri_Rate info,
      sum_DurationSec = Seconds (Elapsed sn), sum_Requests = Requests sn, sum_Failures = Failures sn,
      sum_ErrorRate = ErrorRate sn, sum_RPS = RPS sn,
      sum_BytesPerSec = (if 0 < Elapsed sn then f64 (float_of_u64 (snapshot.Bytes sn) / Seconds (Elapsed sn)) else 0),
      sum_Latency = \<lparr>lat_Min = ms (MinLatency sn), lat_Mean = ms (Mean sn), lat_P50 = ms (Percentile sn (f64 0.50)),
        lat_P90 = ms (Percentile sn (f64 0.90)), lat_P95 = ms (Percentile sn (f64 0.95)),
        lat_P99 = ms (Percentile sn (f64 0.99)), lat_P999 = ms (Percentile sn (f64 0.999)), lat_Max = ms (MaxLatency sn)\<rparr>,
      sum_StatusClasses = [(''1xx'', Classes sn ! Class1xx), (''2xx'', Classes sn ! Class2xx), (''3xx'', Classes sn ! Class3xx),
        (''4xx'', Classes sn ! Class4xx), (''5xx'', Classes sn ! Class5xx), (''transport_error'', Classes sn ! ClassOther)],
      sum_Errors = ErrKinds sn, sum_SLOPassed = (length (Check slo sn) = 0), sum_Violations = Check slo sn,
      sum_FinishedAt = now\<rparr>"

text \<open>\<open>WriteText\<close>; \<open>errs\<close> lists the error kinds in the order the map is iterated.\<close>

definition rule_line :: string where
  "rule_line = concat (replicate 64 [CHR 0xE2, CHR 0x94, CHR 0x80])"

definition u64_text :: "u64 \<Rightarrow> string" where
  "u64_text w = digits_of (unat w)"

definition class_count :: "Summary \<Rightarrow> string \<Rightarrow> string" where
  "class_count s k = u64_text (case map_of (sum_StatusClasses s) k of None \<Rightarrow> 0 | Some n \<Rightarrow> n)"

fun join :: "string \<Rightarrow> string list \<Rightarrow> string" where
  "join sep [] = []"
| "join sep [x] = x"
| "join sep (x # xs) = x @ sep @ join sep xs"

definition eol :: string where
  "eol = [CHR 0x0A]"

definition WriteText :: "(string \<times> u64) list \<Rightarrow> Summary \<Rightarrow> string" where
  "WriteText errs s =
     eol @ rule_line @ eol @ '' TITANLOAD SUMMARY'' @ eol @ rule_line @ eol @
     '' Target        '' @ sum_Target s @ '' ('' @ sum_Mode s @ '')'' @ eol @
     '' Workers       '' @ itoa (sum_Workers s) @ '' '' @ [CHR 0xC3, CHR 0x97] @ '' '' @ itoa (sum_Concurrency s) @ '' concurrency'' @
     (if 0 < sum_TargetRate s then '', target '' @ Num (sum_TargetRate s) @ '' rps'' else []) @ eol @
     '' Duration      '' @ fmt_fixed 1 (sum_DurationSec s) @ ''s'' @ eol @
     '' Requests      '' @ Num (float_of_u64 (sum_Requests s)) @ ''  (failed '' @ Num (float_of_u64 (sum_Failures s)) @ '', '' @
     fmt_fixed 3 (f64 (sum_ErrorRate s * 100)) @ ''%)'' @ eol @
     '' Throughput    '' @ Num (sum_RPS s) @ '' rps  |  '' @ report_Bytes (sum_BytesPerSec s) @ ''/s'' @ eol @
     (let l = sum_Latency s in
      '' Latency       min '' @ fmt_fixed 2 (lat_Min l) @ ''ms  mean '' @ fmt_fixed 2 (lat_Mean l) @ ''ms  max '' @
      fmt_fixed 2 (lat_Max l) @ ''ms'' @ eol @
      ''               p50 '' @ fmt_fixed 2 (lat_P50 l) @ ''ms  p90 '' @ fmt_fixed 2 (lat_P90 l) @ ''ms  p95 '' @
      fmt_fixed 2 (lat_P95 l) @ ''ms  p99 '' @ fmt_fixed 2 (lat_P99 l) @ ''ms  p99.9 '' @ fmt_fixed 2 (lat_P999 l) @ ''ms'' @ eol) @
     '' Status        2xx '' @ class_count s ''2xx'' @ ''  3xx '' @ class_count s ''3xx'' @ ''  4xx '' @ class_count s ''4xx'' @
     ''  5xx '' @ class_count s ''5xx'' @ ''  transport '' @ class_count s ''transport_error'' @ eol @
     (if errs = [] then []
      else '' Errors       '' @ concat (map (\<lambda>(k, v). '' '' @ k @ ''='' @ u64_text v) errs) @ eol) @
     (if sum_Violations s \<noteq> [] then '' SLO           FAILED: '' @ join ''; '' (map violation_text (sum_Violations s))
      else '' SLO           passed'') @ eol @ rule_line @ eol"

text \<open>\<open>WriteJSON\<close>, true for a nil error: \<open>encode\<close> is \<open>json.MarshalIndent\<close>, \<open>put\<close> writes to standard output
  (\<open>None\<close>) or to the named file.\<close>

definition WriteJSON :: "(Summary \<Rightarrow> string option) \<Rightarrow> (string option \<Rightarrow> string \<Rightarrow> bool) \<Rightarrow> Summary \<Rightarrow> string \<Rightarrow> bool" where
  "WriteJSON encode put s path =
     (case encode s of None \<Rightarrow> False
      | Some b \<Rightarrow> put (if path = ''-'' then None else Some path) (b @ [CHR 0x0A]))"

section \<open>The gate speaks about the measured latencies\<close>

lemma sorted_above:
  assumes "sorted s" "1 \<le> r" "r \<le> length s"
  shows "length (filter (\<lambda>y. s ! (r - 1) < y) s) \<le> length s - r"
proof -
  have "y \<le> s ! (r - 1)" if y: "y \<in> set (take r s)" for y
  proof -
    obtain i where "i < r" "y = s ! i" using y by (auto simp: in_set_conv_nth)
    then show ?thesis using assms by (auto intro!: sorted_nth_mono)
  qed
  then have "filter (\<lambda>y. s ! (r - 1) < y) (take r s) = []" by (auto simp: filter_empty_conv not_less)
  then have "filter (\<lambda>y. s ! (r - 1) < y) s = filter (\<lambda>y. s ! (r - 1) < y) (drop r s)"
    by (metis append_Nil append_take_drop_id filter_append)
  then show ?thesis by (metis length_drop length_filter_le)
qed

lemma length_filter_mono: "(\<And>x. P x \<Longrightarrow> Q x) \<Longrightarrow> length (filter P xs) \<le> length (filter Q xs)"
  by (induction xs) (auto simp: le_SucI)

lemma sort_filter_length: "length (filter P (sort ys)) = length (filter P (ys :: nat list))"
  by (metis mset_filter mset_sort size_mset)

definition sample_ns :: "sample \<Rightarrow> real" where
  "sample_ns x = 1000 * of_nat (unat (sample_us x))"

lemma slower_than_rank:
  assumes "1 \<le> r" "r \<le> length xs"
  shows "length (filter (\<lambda>x. 1000 * of_nat (sorted_us xs ! (r - 1)) < sample_ns x) xs) \<le> length xs - r"
proof -
  let ?v = "sorted_us xs ! (r - 1)"
  have "length (filter (\<lambda>x. 1000 * of_nat ?v < sample_ns x) xs) = length (filter (\<lambda>y. ?v < y) (map (\<lambda>x. unat (sample_us x)) xs))"
    by (simp add: filter_map comp_def sample_ns_def)
  also have "\<dots> = length (filter (\<lambda>y. ?v < y) (sorted_us xs))" unfolding sorted_us_def by (rule sort_filter_length [symmetric])
  also have "\<dots> \<le> length (sorted_us xs) - r" using assms by (intro sorted_above) (simp_all add: sorted_us_def)
  finally show ?thesis by (simp add: sorted_us_def)
qed

lemma gate_percentile:
  assumes q: "0 \<le> q" "q \<le> 1" and xs: "xs \<noteq> []" "length xs \<le> 2 ^ 53" "\<forall>x \<in> set xs. unat (sample_us x) \<le> 60000000"
    and p: "Percentile (snapshot_of e xs) q \<le> want" "0 \<le> want"
  shows "length (filter (\<lambda>x. of_int want + 1 < (1 - 2 / 10 ^ 12) * sample_ns x) xs) \<le> length xs - quantile_rank q (length xs)"
proof -
  let ?r = "quantile_rank q (length xs)" and ?v = "sorted_us xs ! (quantile_rank q (length xs) - 1)"
  have r: "1 \<le> ?r" "?r \<le> length xs" using quantile_rank_bounds [OF q(2), of "length xs"] xs by (simp_all add: Suc_le_eq)
  have "?v \<in> set (sorted_us xs)" using r by (intro nth_mem) (simp add: sorted_us_def)
  then have v: "?v \<le> 60000000" using xs(3) by (auto simp: sorted_us_def)
  have "(1 - 2 / 10 ^ 12) * (1000 * of_nat ?v :: real) \<le> of_int want + 1"
  proof (cases "?v = 0")
    case False
    then show ?thesis using percentile_accuracy [OF q xs(1,2) refl, of e] v p(1) by linarith
  qed (use p(2) in simp)
  then have "1000 * of_nat ?v < sample_ns x" if "of_int want + 1 < (1 - 2 / 10 ^ 12) * sample_ns x" for x
    using that by (simp add: field_simps)
  then have "length (filter (\<lambda>x. of_int want + 1 < (1 - 2 / 10 ^ 12) * sample_ns x) xs) \<le>
      length (filter (\<lambda>x. 1000 * of_nat ?v < sample_ns x) xs)"
    by (intro length_filter_mono)
  then show ?thesis using slower_than_rank [OF r] by (rule order_trans)
qed

lemma violation_percentile:
  assumes q: "0 \<le> q" "q \<le> 1" and xs: "xs \<noteq> []" "length xs \<le> 2 ^ 53" "\<forall>x \<in> set xs. 1 \<le> unat (sample_us x) \<and> unat (sample_us x) \<le> 60000000"
    and p: "want < Percentile (snapshot_of e xs) q"
  shows "of_int want < 102 / 100 * (1 + 2 / 10 ^ 12) * (1000 * of_nat (sorted_us xs ! (quantile_rank q (length xs) - 1)) :: real)"
proof -
  let ?r = "quantile_rank q (length xs)" and ?v = "sorted_us xs ! (quantile_rank q (length xs) - 1)"
  have r: "1 \<le> ?r" "?r \<le> length xs" using quantile_rank_bounds [OF q(2), of "length xs"] xs by (simp_all add: Suc_le_eq)
  have "?v \<in> set (sorted_us xs)" using r by (intro nth_mem) (simp add: sorted_us_def)
  then have v: "1 \<le> ?v" "?v \<le> 60000000" using xs(3) by (auto simp: sorted_us_def)
  show ?thesis using percentile_accuracy [OF q xs(1,2) refl v, of e] p by linarith
qed

lemma f64_fraction: "0 \<le> x \<Longrightarrow> x \<le> 1 \<Longrightarrow> 0 \<le> f64 x \<and> f64 x \<le> 1"
  using f64.fl_mono [of x 1] f64.fl_int [of 1] by (simp add: f64.fl_nonneg)

lemma Check_passes:
  "Check slo sn = [] \<longleftrightarrow>
     (0 < slo_P95 slo \<longrightarrow> Percentile sn (f64 0.95) \<le> slo_P95 slo) \<and> (0 < slo_P99 slo \<longrightarrow> Percentile sn (f64 0.99) \<le> slo_P99 slo) \<and>
     (0 < slo_ErrorRate slo \<longrightarrow> ErrorRate sn \<le> slo_ErrorRate slo) \<and> (0 < slo_MinRPS slo \<longrightarrow> slo_MinRPS slo \<le> RPS sn)"
  by (auto simp: Check_def not_less)

lemma Check_disabled: "\<not> SLO_Enabled slo \<Longrightarrow> Check slo sn = []"
  by (auto simp: SLO_Enabled_def Check_def)

lemma Build_passed: "sum_SLOPassed (Build now sn info slo) \<longleftrightarrow> Check slo sn = []"
  by (simp add: Build_def)


definition demo_samples :: "sample list" where
  "demo_samples = [\<lparr>smp_latency = 1500, smp_status = 200, smp_bytes = 2, smp_kind = []\<rparr>]"


section \<open>Thousands separators\<close>

lemma ungroup: "CHR '','' \<notin> set s \<Longrightarrow> filter (\<lambda>c. c \<noteq> CHR '','') (group_digits b s) = s"
  by (induction b s rule: group_digits.induct) auto

lemma digits_no_comma: "CHR '','' \<notin> set (digits_of n)"
proof (induction n rule: digits_of.induct)
  case (1 n)
  have "digit_value (CHR '','') = None" by (simp add: digit_value_def)
  then have "CHR '','' \<noteq> digit d" if "d < 10" for d using digit_value_digit [OF that] by force
  with 1 show ?case by (subst digits_of.simps) simp
qed

lemma Num_roundtrip:
  assumes "- (2 ^ 63) < trunc_float (f64 (f + 1 / 2))" "trunc_float (f64 (f + 1 / 2)) < 2 ^ 63"
  shows "ParseInt (filter (\<lambda>c. c \<noteq> CHR '','') (Num f)) = Some (trunc_float (f64 (f + 1 / 2)))"
proof -
  let ?n = "trunc_float (f64 (f + 1 / 2))"
  have "filter (\<lambda>c. c \<noteq> CHR '','') (Num f) = itoa ?n"
  proof (cases "?n < 0")
    case True
    then have "i64 (- ?n) = - ?n" using assms by (intro i64_small) linarith
    with True show ?thesis by (simp add: Num_def ungroup digits_no_comma itoa_def)
  qed (simp add: Num_def ungroup digits_no_comma itoa_def)
  then show ?thesis using assms by (simp add: ParseInt_itoa in_i64_def)
qed

lemma scale_bytes_value:
  "0 \<le> f \<Longrightarrow> us \<noteq> [] \<Longrightarrow> scale_bytes i f us = (v, u) \<Longrightarrow> u \<in> set us \<and> (v < 1024 \<or> u = last us) \<and> 0 \<le> v"
proof (induction i f us rule: scale_bytes.induct)
  case (3 i f u1 u2 us)
  then show ?case by (auto simp: f64.fl_nonneg split: if_splits)
qed auto

end
