(* ===== verification/Go_Utf8.thy ===== *)
theory Go_Utf8
  imports Go_Prelude
begin

text \<open>
  Strings are sequences of bytes. This theory holds the UTF-8 decoding that the sources reach through
  \<open>len([]rune(s))\<close> and through the field widths of \<open>fmt\<close>, which count runes: \<open>RuneCountInString\<close> of
  \<open>unicode/utf8\<close>, with one rune for every byte of an invalid or truncated encoding, and the two paddings.
\<close>

section \<open>Counting runes\<close>

abbreviation byte_in :: "nat \<Rightarrow> nat \<Rightarrow> char \<Rightarrow> bool" where
  "byte_in lo hi c \<equiv> lo \<le> (of_char c :: nat) \<and> (of_char c :: nat) \<le> hi"

abbreviation continuation :: "char \<Rightarrow> bool" where
  "continuation c \<equiv> byte_in 0x80 0xBF c"

text \<open>The table \<open>first\<close> of the decoder: the length of the encoding a byte starts and the range of its
  second byte.\<close>

definition utf8_first :: "char \<Rightarrow> (nat \<times> nat \<times> nat) option" where
  "utf8_first c =
     (if byte_in 0xC2 0xDF c then Some (2, 0x80, 0xBF)
      else if byte_in 0xE0 0xE0 c then Some (3, 0xA0, 0xBF)
      else if byte_in 0xED 0xED c then Some (3, 0x80, 0x9F)
      else if byte_in 0xE1 0xEF c then Some (3, 0x80, 0xBF)
      else if byte_in 0xF0 0xF0 c then Some (4, 0x90, 0xBF)
      else if byte_in 0xF1 0xF3 c then Some (4, 0x80, 0xBF)
      else if byte_in 0xF4 0xF4 c then Some (4, 0x80, 0x8F)
      else None)"

text \<open>How many bytes the first rune of a string takes.\<close>

fun rune_size :: "string \<Rightarrow> nat" where
  "rune_size [] = 1"
| "rune_size (c # s) =
     (case utf8_first c of
        None \<Rightarrow> 1
      | Some (n, lo, hi) \<Rightarrow>
          if n \<le> Suc (length s) \<and> byte_in lo hi (hd s) \<and> list_all continuation (take (n - 2) (tl s)) then n else 1)"

lemma rune_size_pos: "0 < rune_size s"
  by (cases s) (auto simp: utf8_first_def split: option.splits)

function RuneCount :: "string \<Rightarrow> nat" where
  "RuneCount [] = 0"
| "RuneCount (c # s) = Suc (RuneCount (drop (rune_size (c # s)) (c # s)))"
  by pat_completeness auto

termination RuneCount
  by (relation "measure length") (auto simp: rune_size_pos diff_less simp del: rune_size.simps)

lemma RuneCount_le_length: "RuneCount s \<le> length s"
proof (induction s rule: RuneCount.induct)
  case (2 c s)
  then show ?case using rune_size_pos [of "c # s"] by (simp del: rune_size.simps)
qed simp

text \<open>A byte below 128 is a rune of its own, so an ASCII string has as many runes as bytes.\<close>

abbreviation ascii :: "string \<Rightarrow> bool" where
  "ascii s \<equiv> list_all (\<lambda>c. (of_char c :: nat) < 128) s"

lemma RuneCount_ascii_append: "ascii s \<Longrightarrow> RuneCount (s @ t) = length s + RuneCount t"
  by (induction s) (simp_all add: utf8_first_def)

lemma RuneCount_ascii: "ascii s \<Longrightarrow> RuneCount s = length s"
  using RuneCount_ascii_append [of s "[]"] by simp

section \<open>Field widths\<close>

text \<open>\<open>%<n>s\<close> and \<open>%-<n>s\<close>; the other verbs pad the same way.\<close>

definition pad_left :: "nat \<Rightarrow> string \<Rightarrow> string" where
  "pad_left n s = replicate (n - RuneCount s) (CHR '' '') @ s"

definition pad_right :: "nat \<Rightarrow> string \<Rightarrow> string" where
  "pad_right n s = s @ replicate (n - RuneCount s) (CHR '' '')"

lemma RuneCount_pad_left: "RuneCount (pad_left n s) = max n (RuneCount s)"
proof -
  have "ascii (replicate k (CHR '' ''))" for k by (simp add: list_all_iff)
  then show ?thesis by (simp add: pad_left_def RuneCount_ascii_append)
qed

end
