(* ===== verification/Widgets.thy ===== *)
theory Widgets
  imports Report Go_Utf8
begin

text \<open>
  The widgets of the live display (\<open>internal/titanload/dashboard/dashboard.go\<close>): spark lines, the progress
  bar, the latency distribution and the clock, with their escape sequences and with the panics they could
  raise (\<open>strings.Repeat\<close> with a negative count, an index outside \<open>sparks\<close>), and proofs that they do not.
\<close>

section \<open>Colours\<close>

definition esc :: "string \<Rightarrow> string" where
  "esc s = CHR 0x1B # CHR ''['' # s"

definition reset :: string where "reset = esc ''0m''"
definition bold :: string where "bold = esc ''1m''"
definition dim :: string where "dim = esc ''2m''"
definition red :: string where "red = esc ''31m''"
definition green :: string where "green = esc ''32m''"
definition yellow :: string where "yellow = esc ''33m''"
definition cyan :: string where "cyan = esc ''36m''"
definition magenta :: string where "magenta = esc ''35m''"

section \<open>Widgets\<close>

definition push :: "real list \<Rightarrow> real \<Rightarrow> nat \<Rightarrow> real list" where
  "push s v limit = (let s = s @ [v] in if limit < length s then drop (length s - limit) s else s)"

definition sparks :: "string list" where
  "sparks = map (\<lambda>b. [CHR 0xE2, CHR 0x96, char_of (b :: nat)]) [0x81, 0x82, 0x83, 0x84, 0x85, 0x86, 0x87, 0x88]"

text \<open>The level of one value, \<open>int(v / hi * 7)\<close>, and the rune it selects.\<close>

definition spark_level :: "real \<Rightarrow> real \<Rightarrow> int" where
  "spark_level hi v = (if 0 < hi then trunc_float (f64 (f64 (v / hi) * 7)) else 0)"

definition spark_at :: "int \<Rightarrow> go_panic + string" where
  "spark_at i = (if 0 \<le> i \<and> i < int (length sparks) then Inr (sparks ! nat i) else Inl IndexOutOfRange)"

definition sparkline :: "real list \<Rightarrow> int \<Rightarrow> go_panic + string" where
  "sparkline vals w =
     (if int (length vals) > w \<and> w < 0 then Inl IndexOutOfRange
      else let vals = (if w < int (length vals) then drop (length vals - nat w) vals else vals);
               hi = fold max vals 0 in
        fold_ok (\<lambda>v out. bind_ok (spark_at (spark_level hi v)) (\<lambda>r. Inr (out @ r))) vals [])"

text \<open>\<open>strings.Repeat\<close>; the panic stands for its negative-count panic.\<close>

definition Repeat :: "string \<Rightarrow> int \<Rightarrow> go_panic + string" where
  "Repeat s n = (if n < 0 then Inl IndexOutOfRange else Inr (concat (replicate (nat n) s)))"

definition progress_fraction :: "duration \<Rightarrow> u64 \<Rightarrow> snapshot \<Rightarrow> real" where
  "progress_fraction dur maxReq sn =
     (let frac = (if 0 < dur then f64 (Seconds (Elapsed sn) / Seconds dur)
                  else if 0 < maxReq then f64 (float_of_u64 (Requests sn) / float_of_u64 maxReq)
                  else 0) in
      min (max frac 0) 1)"

definition full_block :: string where "full_block = [CHR 0xE2, CHR 0x96, CHR 0x88]"
definition light_shade :: string where "light_shade = [CHR 0xE2, CHR 0x96, CHR 0x91]"

definition progress :: "duration \<Rightarrow> u64 \<Rightarrow> snapshot \<Rightarrow> int \<Rightarrow> go_panic + string" where
  "progress dur maxReq sn w =
     (let frac = progress_fraction dur maxReq sn;
          filled = trunc_float (f64 (frac * float_of_int w)) in
      bind_ok (Repeat full_block filled) (\<lambda>a.
      bind_ok (Repeat light_shade (w - filled)) (\<lambda>b.
      Inr (cyan @ a @ b @ reset @ '' '' @ pad_left 3 (fmt_fixed 0 (f64 (frac * 100))) @ ''%''))))"

definition distEdges :: "(string \<times> duration) list" where
  "distEdges = [(''<1ms'', Millisecond), (''1-5ms'', 5 * Millisecond), (''5-10ms'', 10 * Millisecond),
     (''10-50ms'', 50 * Millisecond), (''50-100ms'', 100 * Millisecond), (''100-500ms'', 500 * Millisecond),
     (''0.5-1s'', Second), (''>1s'', 2 ^ 62)]"

text \<open>\<open>counts[j] += c\<close> for the first edge that is not below \<open>upper\<close>.\<close>

fun count_edge :: "duration \<Rightarrow> u64 \<Rightarrow> (string \<times> duration) list \<Rightarrow> u64 list \<Rightarrow> u64 list" where
  "count_edge upper c ((l, e) # es) (n # ns) = (if upper \<le> e then (n + c) # ns else n # count_edge upper c es ns)"
| "count_edge upper c _ ns = ns"

definition bucket_upper :: "nat \<Rightarrow> duration" where
  "bucket_upper i = trunc_float (f64 (BucketUpper (int i) * 1000))"

definition dist_counts :: "u64 list \<Rightarrow> u64 list \<times> u64" where
  "dist_counts h =
     fold (\<lambda>(i, c) (counts, tot). if c = 0 then (counts, tot) else (count_edge (bucket_upper i) c distEdges counts, tot + c))
       (zip [0..<length h] h) (replicate (length distEdges) 0, 0)"

definition dist_fraction :: "u64 \<Rightarrow> u64 \<Rightarrow> real" where
  "dist_fraction tot c = (if 0 < tot then f64 (float_of_u64 c / float_of_u64 tot) else 0)"

definition black_square :: string where "black_square = [CHR 0xE2, CHR 0x96, CHR 0xA0]"

definition dist_row :: "u64 \<Rightarrow> int \<Rightarrow> string \<Rightarrow> u64 \<Rightarrow> go_panic + string" where
  "dist_row tot w label c =
     (let frac = dist_fraction tot c in
      bind_ok (Repeat black_square (trunc_float (f64 (frac * float_of_int w)))) (\<lambda>bar.
      Inr (pad_right 10 label @ '' '' @ cyan @ bar @ reset @ '' '' @ pad_left 6 (fmt_fixed 2 (f64 (frac * 100))) @ ''%'')))"

definition distribution :: "snapshot \<Rightarrow> int \<Rightarrow> go_panic + string list" where
  "distribution sn w =
     (case dist_counts (Hist sn) of (counts, tot) \<Rightarrow>
        fold_ok (\<lambda>((label, _), c) rows. bind_ok (dist_row tot w label c) (\<lambda>r. Inr (rows @ [r])))
          (zip distEdges counts) [])"

text \<open>\<open>Duration.Round\<close>, \<open>Hours\<close> and \<open>Minutes\<close>.\<close>

definition Round :: "duration \<Rightarrow> duration \<Rightarrow> duration" where
  "Round d m =
     (if m \<le> 0 then d
      else let r = go_mod d m in
        if d < 0 then
          (if 2 * - r < m then d - r
           else let d1 = i64 (d - m - r) in if d1 < d then d1 else - (2 ^ 63))
        else if 2 * r < m then d - r
        else let d1 = i64 (d + m - r) in if d < d1 then d1 else 2 ^ 63 - 1)"

definition Hours :: "duration \<Rightarrow> real" where
  "Hours d = f64 (float_of_int (go_div d (60 * Minute)) + f64 (float_of_int (go_mod d (60 * Minute)) / 3600000000000))"

definition Minutes :: "duration \<Rightarrow> real" where
  "Minutes d = f64 (float_of_int (go_div d Minute) + f64 (float_of_int (go_mod d Minute) / 60000000000))"

text \<open>\<open>%02d\<close> of a non-negative number.\<close>

definition pad2 :: "int \<Rightarrow> string" where
  "pad2 n = (if 0 \<le> n \<and> n < 10 then ''0'' else []) @ itoa n"

definition clock_text :: "duration \<Rightarrow> string" where
  "clock_text d0 =
     (let d = Round d0 Second in
      pad2 (trunc_float (Hours d)) @ '':'' @ pad2 (go_mod (trunc_float (Minutes d)) 60) @ '':'' @
      pad2 (go_mod (trunc_float (Seconds d)) 60))"

definition trunc :: "string \<Rightarrow> nat \<Rightarrow> string" where
  "trunc s n = (if length s \<le> n then s else take (n - 1) s @ [CHR 0xE2, CHR 0x80, CHR 0xA6])"

section \<open>No widget panics\<close>

lemma trunc_float_bounds: "0 \<le> x \<Longrightarrow> x \<le> of_int m \<Longrightarrow> 0 \<le> trunc_float x \<and> trunc_float x \<le> m"
  by (simp add: trunc_float_def) linarith

lemma f64_scaled:
  assumes "0 \<le> r" "r \<le> 1" "0 \<le> w" "w \<le> 2 ^ 53"
  shows "0 \<le> trunc_float (f64 (r * of_int w)) \<and> trunc_float (f64 (r * of_int w)) \<le> w"
proof (rule trunc_float_bounds)
  show "0 \<le> f64 (r * of_int w)" using assms by (intro f64.fl_nonneg) simp
  have "r * of_int w \<le> of_int w" using assms by (intro mult_left_le_one_le) simp_all
  then show "f64 (r * of_int w) \<le> of_int w" using assms by (intro f64.fl_le_int) simp_all
qed

lemma fold_max_ge: "(a :: real) \<le> fold max vals a \<and> (\<forall>v \<in> set vals. v \<le> fold max vals a)"
proof (induction vals arbitrary: a)
  case (Cons v vals)
  have "max v a \<le> fold max vals (max v a)" "\<forall>x \<in> set vals. x \<le> fold max vals (max v a)" using Cons [of "max v a"] by auto
  then show ?case by simp
qed simp

lemma spark_level_range:
  assumes "0 \<le> v" "v \<le> hi"
  shows "0 \<le> spark_level hi v \<and> spark_level hi v < 8"
proof (cases "0 < hi")
  case True
  then have "0 \<le> f64 (v / hi)" "f64 (v / hi) \<le> 1"
    using assms f64.fl_le_int [of "v / hi" 1] by (simp_all add: f64.fl_nonneg)
  then show ?thesis using f64_scaled [of "f64 (v / hi)" 7] True by (simp add: spark_level_def)
qed (simp add: spark_level_def)

lemma length_sparks: "length sparks = 8" by (simp add: sparks_def)

lemma spark_loop:
  assumes "\<forall>v \<in> set vals. 0 \<le> v \<and> v \<le> hi"
  shows "fold_ok (\<lambda>v out. bind_ok (spark_at (spark_level hi v)) (\<lambda>r. Inr (out @ r))) vals out =
    Inr (out @ concat (map (\<lambda>v. sparks ! nat (spark_level hi v)) vals))"
  using assms
proof (induction vals arbitrary: out)
  case (Cons v vals)
  then have "spark_at (spark_level hi v) = Inr (sparks ! nat (spark_level hi v))"
    using spark_level_range [of v hi] by (simp add: spark_at_def length_sparks)
  with Cons show ?case by simp
qed simp

lemma sparkline_ok:
  assumes "0 \<le> w" "\<forall>v \<in> set vals. 0 \<le> v"
  shows "\<exists>s. sparkline vals w = Inr s"
proof -
  let ?vals = "if w < int (length vals) then drop (length vals - nat w) vals else vals"
  have "\<forall>v \<in> set ?vals. 0 \<le> v \<and> v \<le> fold max ?vals 0" using assms(2) fold_max_ge [of 0 ?vals] by (auto dest: in_set_dropD)
  from spark_loop [OF this, of "[]"] show ?thesis using assms(1) by (simp only: sparkline_def Let_def) simp
qed

lemma progress_fraction_range: "0 \<le> progress_fraction d m sn \<and> progress_fraction d m sn \<le> 1"
  by (simp add: progress_fraction_def Let_def)

lemma progress_bar:
  assumes "0 \<le> w" "w \<le> 2 ^ 53"
  shows "\<exists>k\<le>nat w. \<exists>pct. progress d m sn w =
    Inr (cyan @ concat (replicate k full_block) @ concat (replicate (nat w - k) light_shade) @ reset @ pct)"
proof -
  let ?k = "trunc_float (f64 (progress_fraction d m sn * float_of_int w))"
  have "float_of_int w = of_int w" using assms by (simp add: float_of_int_def f64.fl_int)
  then have k: "0 \<le> ?k" "?k \<le> w" using f64_scaled [of "progress_fraction d m sn" w] progress_fraction_range assms by auto
  then have "nat (w - ?k) = nat w - nat ?k" by (simp add: nat_diff_distrib)
  with k show ?thesis
    by (intro exI [of _ "nat ?k"]) (auto simp: progress_def Repeat_def Let_def nat_mono)
qed

section \<open>The distribution counts every request\<close>

lemma sum_count_edge:
  assumes "list_ex (\<lambda>(l, e). upper \<le> e) es" "length es = length ns"
  shows "sum_list (count_edge upper c es ns) = sum_list ns + c"
  using assms by (induction upper c es ns rule: count_edge.induct) auto

lemma length_count_edge [simp]: "length (count_edge upper c es ns) = length ns"
  by (induction upper c es ns rule: count_edge.induct) auto

lemma bucket_upper_small: "i < NumBuckets \<Longrightarrow> bucket_upper i \<le> 2 ^ 62"
proof -
  assume "i < NumBuckets"
  then have "int i \<le> bucketFor 60000000" using bucket_count by (simp add: maxMicros_def)
  then have "BucketUpper (int i) \<le> 102 / 100 * (1 + 1 / 10 ^ 12) * 60000000"
    using order_trans [OF BucketUpper_mono BucketUpper_accuracy(2) [of 60000000]] by simp
  then have "BucketUpper (int i) * 1000 \<le> of_int (10 ^ 11)" by simp
  then have "f64 (BucketUpper (int i) * 1000) \<le> of_int (10 ^ 11)" by (intro f64.fl_le_int) simp_all
  then have "trunc_float (f64 (BucketUpper (int i) * 1000)) \<le> 10 ^ 11" by (simp add: trunc_float_def)
  then show ?thesis by (simp add: bucket_upper_def)
qed

lemma dist_step:
  assumes "i < NumBuckets" "length counts = length distEdges"
  shows "sum_list (count_edge (bucket_upper i) c distEdges counts) = sum_list counts + c"
  using bucket_upper_small [OF assms(1)] assms(2) by (intro sum_count_edge) (simp_all add: distEdges_def)

lemma dist_loop:
  assumes "\<forall>(i, c) \<in> set ps. i < NumBuckets" "length counts = length distEdges" "sum_list counts = tot"
    and "fold (\<lambda>(i, c) (counts, tot). if c = 0 then (counts, tot) else (count_edge (bucket_upper i) c distEdges counts, tot + c)) ps (counts, tot) = (counts', tot')"
  shows "length counts' = length distEdges \<and> sum_list counts' = tot' \<and> tot' = tot + sum_list (map snd ps)"
  using assms
proof (induction ps arbitrary: counts tot)
  case (Cons p ps)
  obtain i c where p: "p = (i, c)" by (cases p)
  let ?counts = "if c = 0 then counts else count_edge (bucket_upper i) c distEdges counts"
  have "length ?counts = length distEdges" "sum_list ?counts = tot + c"
    using Cons.prems(1-3) p dist_step [of i counts c] by auto
  then show ?case using Cons.IH [of ?counts "tot + c"] Cons.prems p by (auto simp: add.assoc split: if_splits)
qed simp

lemma hist_total_sum: "hist_total h = sum_list h"
proof -
  have "fold (\<lambda>c t. t + c) h a = a + sum_list h" for a by (induction h arbitrary: a) (simp_all add: add.assoc)
  then show ?thesis by (simp add: hist_total_def)
qed

lemma distribution_counts:
  assumes "length h \<le> NumBuckets" "dist_counts h = (counts, tot)"
  shows "length counts = length distEdges \<and> sum_list counts = tot \<and> tot = hist_total h"
proof -
  have "\<forall>(i, c) \<in> set (zip [0..<length h] h). i < NumBuckets" using assms(1) by (auto dest!: set_zip_leftD)
  from dist_loop [OF this _ _ assms(2) [unfolded dist_counts_def]] show ?thesis
    by (simp add: hist_total_sum sum_list_replicate)
qed

lemma dist_fraction_nonneg: "0 \<le> dist_fraction tot c"
  by (simp add: dist_fraction_def f64.fl_nonneg float_of_u64_nonneg)

lemma dist_row_ok: "0 \<le> w \<Longrightarrow> \<exists>r. dist_row tot w label c = Inr r"
  using trunc_float_nonneg [OF f64.fl_nonneg, of "dist_fraction tot c * float_of_int w"] dist_fraction_nonneg [of tot c]
  by (simp add: dist_row_def Repeat_def Let_def float_of_int_def f64.fl_nonneg)

lemma length_dist_counts: "length (fst (dist_counts h)) = length distEdges"
proof -
  have "length (fst (fold (\<lambda>(i, c) (counts, tot). if c = 0 then (counts, tot)
      else (count_edge (bucket_upper i) c distEdges counts, tot + c)) ps (counts, tot))) = length counts" for ps counts tot
    by (induction ps arbitrary: counts tot) (auto split: prod.splits)
  then show ?thesis by (simp add: dist_counts_def)
qed

lemma distribution_rows:
  assumes "0 \<le> w"
  shows "\<exists>rows. distribution sn w = Inr rows \<and> length rows = length distEdges"
proof -
  obtain counts tot where d: "dist_counts (Hist sn) = (counts, tot)" by fastforce
  have "\<exists>rows. fold_ok (\<lambda>((label, _), c) rows. bind_ok (dist_row tot w label c) (\<lambda>r. Inr (rows @ [r]))) ps acc = Inr rows \<and>
      length rows = length acc + length ps" for ps :: "((string \<times> duration) \<times> u64) list" and acc
  proof (induction ps arbitrary: acc)
    case (Cons p ps)
    obtain label e c where p: "p = ((label, e), c)" by (metis surj_pair)
    obtain r where "dist_row tot w label c = Inr r" using dist_row_ok [OF assms] by blast
    then show ?case using Cons.IH [of "acc @ [r]"] by (simp add: p)
  qed simp
  from this [of "zip distEdges counts" "[]"] show ?thesis
    using length_dist_counts [of "Hist sn"] by (simp add: distribution_def d)
qed

text \<open>C38: No widget of the display can panic: the index into the spark runes is in range for every history of
  rates, the progress bar consists of exactly \<open>w\<close> cells, and the rows of the distribution count every
  request of the histogram once.\<close>

theorem widgets_sound:
  assumes "0 \<le> w" "w \<le> 2 ^ 53" "\<forall>v \<in> set vals. 0 \<le> v" "length h \<le> NumBuckets"
  shows "(\<exists>s. sparkline vals w = Inr s) \<and>
    (\<exists>k\<le>nat w. \<exists>pct. progress d m sn w =
       Inr (cyan @ concat (replicate k full_block) @ concat (replicate (nat w - k) light_shade) @ reset @ pct)) \<and>
    sum_list (fst (dist_counts h)) = hist_total h"
  using sparkline_ok [OF assms(1,3)] progress_bar [OF assms(1,2)] distribution_counts [OF assms(4)]
  by (metis fst_conv prod.collapse)

theorem widgets_sound_witness:
  "(\<exists>s. sparkline [1, 2] 60 = Inr s) \<and> sum_list (fst (dist_counts [3, 4])) = hist_total [3, 4]"
  using widgets_sound [of 60 "[1, 2]" "[3, 4]"] by (simp add: NumBuckets_def)

section \<open>The clock\<close>

lemma Round_second: "0 \<le> d \<Longrightarrow> d < 2 ^ 62 \<Longrightarrow> Round d Second = (d + 500000000) div Second * Second"
proof -
  assume d: "0 \<le> d" "d < 2 ^ 62"
  define q r where "q = d div Second" and "r = d mod Second"
  have m: "d = q * Second + r" "0 \<le> r" "r < Second" by (simp_all add: q_def r_def)
  have up: "i64 (d + Second - r) = d + Second - r" using d m(2,3) by (intro i64_id) (simp add: in_i64_def)
  have "(d + 500000000) div Second = q + (if 2 * r < Second then 0 else 1)"
  proof (cases "2 * r < Second")
    case True
    then have "d + 500000000 = q * Second + (r + 500000000)" "r + 500000000 < Second" using m by simp_all
    then have "(d + 500000000) div Second = q" using m(2) by (simp add: div_pos_pos_trivial)
    then show ?thesis using True by simp
  next
    case False
    then have "d + 500000000 = (q + 1) * Second + (r - 500000000)" "0 \<le> r - 500000000" "r - 500000000 < Second" using m by simp_all
    then have "(d + 500000000) div Second = q + 1" by (simp add: div_pos_pos_trivial)
    then show ?thesis using False by simp
  qed
  with d m up show ?thesis by (auto simp: Round_def Let_def algebra_simps r_def [symmetric])
qed

lemma whole_part:
  assumes n: "0 \<le> n" "n \<le> 2 ^ 40" and k: "0 \<le> k" "k < 3600"
  shows "trunc_float (f64 (of_int n + f64 (of_int k / 3600))) = n"
proof (cases "k = 0")
  case True
  then show ?thesis using n by (simp add: f64.fl_int trunc_float_def)
next
  case False
  let ?x = "of_int k / 3600 :: real"
  have x: "1 / 3600 \<le> ?x" "?x \<le> 3599 / 3600" using k False by simp_all
  have tiny: "(2 :: real) powr - 1022 \<le> 1 / 3600"
  proof -
    have "(2 :: real) powr - 1022 \<le> 2 powr - 12" by (intro powr_mono) simp_all
    then show ?thesis by (simp add: powr_minus_divide)
  qed
  have e: "(2 :: real) powr - 53 = 1 / 9007199254740992" using ulp_eq by (simp add: ulp_def)
  have y: "f64 ?x \<le> (1 + 1 / 9007199254740992) * ?x" "(1 - 1 / 9007199254740992) * ?x \<le> f64 ?x"
    using f64.fl_upper [of ?x] f64.fl_lower [of ?x] x(1) tiny unfolding e by linarith+
  then have y': "1 / 7200 \<le> f64 ?x" "f64 ?x \<le> 3599 / 3600 + 1 / 9007199254740992" using x by simp_all
  let ?z = "of_int n + f64 ?x"
  have "2 powr - 1022 \<le> ?z" 
  proof -
    have "(2 :: real) powr - 1022 \<le> 2 powr - 13" by (intro powr_mono) simp_all
    then have "(2 :: real) powr - 1022 \<le> 1 / 7200" by (simp add: powr_minus_divide)
    then show ?thesis using y' n(1) by linarith
  qed
  then have "f64 ?z \<le> (1 + 1 / 9007199254740992) * ?z" using f64.fl_upper [of ?z] unfolding e by linarith
  also have "\<dots> < of_int (n + 1)"
  proof -
    have "(of_int n :: real) \<le> 2 ^ 40" using n(2) by (metis of_int_le_iff of_int_numeral of_int_power)
    then show ?thesis using y'(2) by (simp add: field_simps)
  qed
  finally have "f64 ?z < of_int (n + 1)" .
  moreover have "of_int n \<le> f64 ?z" using y' n by (intro f64.fl_ge_int) simp_all
  ultimately have "\<lfloor>f64 ?z\<rfloor> = n" "0 \<le> f64 ?z" using n(1) by linarith+
  then show ?thesis by (simp add: trunc_float_def)
qed

text \<open>The clock of the display is right: it shows hours, minutes and seconds of the elapsed time rounded to
  the nearest second, although it computes them in floating point.\<close>

theorem clock_correct:
  assumes "0 \<le> d" "d < 2 ^ 62"
  shows "let s = (d + 500000000) div Second in
    clock_text d = pad2 (s div 3600) @ '':'' @ pad2 (s div 60 mod 60) @ '':'' @ pad2 (s mod 60)"
proof -
  define s where "s = (d + 500000000) div Second"
  have s: "0 \<le> s" "s \<le> 2 ^ 40" using assms by (simp_all add: s_def) 
  have r: "Round d Second = s * Second" unfolding s_def using assms by (rule Round_second)
  have d60: "0 \<le> s div 60 \<and> s div 60 \<le> 2 ^ 40" "0 \<le> s div 3600 \<and> s div 3600 \<le> 2 ^ 40" using s by auto
  have h: "trunc_float (Hours (s * Second)) = s div 3600"
  proof -
    have "s * Second div (60 * Minute) = s div 3600" "s * Second mod (60 * Minute) = (s mod 3600) * Second"
      using div_mult_mult2 [of Second s 3600] mult_mod_left [of s 3600 Second] by simp_all
    moreover have "\<bar>s mod 3600 * Second\<bar> \<le> 2 ^ 53"
    proof -
      have "0 \<le> s mod 3600" "s mod 3600 < 3600" by simp_all
      then show ?thesis by simp
    qed
    then have "f64 (of_int (s mod 3600 * Second)) = of_int (s mod 3600 * Second)" by (rule f64.fl_int)
    ultimately have "Hours (s * Second) = f64 (of_int (s div 3600) + f64 (of_int (s mod 3600) / 3600))"
      using s d60 by (simp add: Hours_def float_of_int_def f64.fl_int)
    then show ?thesis using whole_part [of "s div 3600" "s mod 3600"] d60 by simp
  qed
  have m: "trunc_float (Minutes (s * Second)) = s div 60"
  proof -
    have "s * Second div Minute = s div 60" "s * Second mod Minute = (s mod 60) * Second"
      using div_mult_mult2 [of Second s 60] mult_mod_left [of s 60 Second] by simp_all
    moreover have "\<bar>s mod 60 * Second\<bar> \<le> 2 ^ 53"
    proof -
      have "0 \<le> s mod 60" "s mod 60 < 60" by simp_all
      then show ?thesis by simp
    qed
    then have "f64 (of_int (s mod 60 * Second)) = of_int (s mod 60 * Second)" by (rule f64.fl_int)
    ultimately have "Minutes (s * Second) = f64 (of_int (s div 60) + f64 (of_int (60 * (s mod 60)) / 3600))"
      using s d60 by (simp add: Minutes_def float_of_int_def f64.fl_int)
    moreover have "60 * (s mod 60) < 3600" using pos_mod_bound [of 60 s] by simp
    ultimately show ?thesis using whole_part [of "s div 60" "60 * (s mod 60)"] d60 by simp
  qed
  have sec: "trunc_float (Seconds (s * Second)) = s"
    using s by (simp add: Seconds_def float_of_int_def f64.fl_int trunc_float_def)
  show ?thesis using s d60 by (simp add: clock_text_def r h m sec Let_def s_def [symmetric])
qed

theorem clock_correct_witness: "clock_text 3725400000000 = ''01:02:05''"
proof -
  have "(3725400000000 + 500000000) div (Second :: int) = 3725" by simp
  moreover have "pad2 1 = ''01''" "pad2 2 = ''02''" "pad2 5 = ''05''" by code_simp+
  ultimately show ?thesis using clock_correct [of 3725400000000] by (simp add: Let_def)
qed

end
