(* ===== verification/Exporter.thy ===== *)
theory Exporter
  imports Stats
begin

text \<open>
  The Prometheus exporter of a run (\<open>internal/titanload/dashboard/exporter.go\<close>): the gauges with the values
  they were last set to. Registration and the HTTP handler belong to the client library.
\<close>

record exporter =
  g_rps :: real
  g_requests :: real
  g_failures :: real
  g_errRatio :: real
  g_workers :: real
  g_latency :: "(string \<times> real) list"
  g_byteRate :: real
  lastBytes :: u64
  lastAt :: "gotime option"

definition NewExporter :: exporter where
  "NewExporter = \<lparr>g_rps = 0, g_requests = 0, g_failures = 0, g_errRatio = 0, g_workers = 0, g_latency = [],
     g_byteRate = 0, lastBytes = 0, lastAt = None\<rparr>"

definition Update :: "gotime \<Rightarrow> snapshot \<Rightarrow> snapshot \<Rightarrow> real \<Rightarrow> int \<Rightarrow> exporter \<Rightarrow> exporter" where
  "Update now tot iv rps n e =
     (let e = e\<lparr>g_rps := rps, g_requests := float_of_u64 (Requests tot), g_failures := float_of_u64 (Failures tot),
            g_errRatio := ErrorRate tot, g_workers := float_of_int n,
            g_latency := map (\<lambda>(l, q). (l, Seconds (Percentile iv q)))
              [(''0.5'', f64 0.5), (''0.9'', f64 0.9), (''0.95'', f64 0.95), (''0.99'', f64 0.99), (''0.999'', f64 0.999)]\<rparr>;
          e = (case lastAt e of None \<Rightarrow> e
               | Some t \<Rightarrow>
                   if 0 < Seconds (now - t) \<and> lastBytes e \<le> snapshot.Bytes tot
                   then e\<lparr>g_byteRate := f64 (float_of_u64 (snapshot.Bytes tot - lastBytes e) / Seconds (now - t))\<rparr> else e) in
      e\<lparr>lastBytes := snapshot.Bytes tot, lastAt := Some now\<rparr>)"

text \<open>The rate is measured between two updates, and a byte counter that went backwards (a worker that
  was replaced by a fresh one) leaves the gauge as it was.\<close>

lemma byte_rate_between_updates:
  assumes "lastAt e = Some t" "0 < Seconds (now - t)"
  shows "g_byteRate (Update now tot iv rps n e) =
    (if lastBytes e \<le> snapshot.Bytes tot
     then f64 (float_of_u64 (snapshot.Bytes tot - lastBytes e) / Seconds (now - t)) else g_byteRate e)"
  using assms by (simp add: Update_def Let_def)

end
