(* ===== verification/Dashboard_Screen.thy ===== *)
theory Dashboard_Screen
  imports Widgets Exporter Coordinator
begin

text \<open>
  The full screen of the live display: \<open>render\<close> of \<open>internal/titanload/dashboard/dashboard.go\<close>, byte for byte
  with its escape sequences, from the state the ticks keep. The lines are built group by group in the order of
  the source. A frame is shown to have between 28 and 53 lines and never to fail.
\<close>

section \<open>State and options\<close>

record options =
  opt_Info :: RunInfo
  opt_Duration :: duration
  opt_MaxRequests :: u64
  opt_SLO :: SLO
  opt_Interactive :: bool
  opt_Interval :: duration

record dash =
  prev :: "snapshot option"
  prevAt :: gotime
  prevWorker :: "string \<Rightarrow> snapshot option"
  rpsHist :: "real list"
  p99Hist :: "real list"
  peak :: real
  dash_exporter :: "exporter option"

section \<open>Lines\<close>

definition ln_line :: "string \<Rightarrow> string" where
  "ln_line s = s @ esc ''K'' @ eol"

text \<open>The width of the terminal, where \<open>term.GetSize\<close> succeeds and finds more than 40 columns.\<close>

definition screen_width :: "int option \<Rightarrow> int" where
  "screen_width sz = (case sz of Some w \<Rightarrow> if 40 < w then w else 100 | None \<Rightarrow> 100)"

definition header_lines :: "options \<Rightarrow> snapshot \<Rightarrow> int \<Rightarrow> string list" where
  "header_lines opts tot n =
     (let info = opt_Info opts;
          target = (if 0 < ri_Rate info then Num (ri_Rate info) @ '' rps'' else ''unlimited'');
          workersTxt = (if 1 < ri_Workers info \<or> 0 < n then ''  workers '' @ itoa (max (ri_Workers info) n) else []) in
      [bold @ cyan @ '' TITANLOAD '' @ reset @ '' '' @ dim @ [CHR 0xE2, CHR 0x96, CHR 0xB8] @ reset @ '' '' @ ri_Target info @
         ''  '' @ magenta @ ''['' @ ri_Mode info @ '']'' @ reset,
       '' concurrency '' @ itoa (ri_Concurrency info) @ ''  target '' @ target @ workersTxt @ ''  elapsed '' @ bold @
         clock_text (Elapsed tot) @ reset])"

definition error_colour :: "snapshot \<Rightarrow> string" where
  "error_colour tot = (let er = ErrorRate tot in if f64 0.01 < er then red else if f64 0.001 < er then yellow else green)"

definition traffic_lines :: "dash \<Rightarrow> snapshot \<Rightarrow> snapshot \<Rightarrow> real \<Rightarrow> real \<Rightarrow> string list" where
  "traffic_lines s tot iv rps dt =
     ['' '' @ bold @ ''RPS'' @ reset @ ''        '' @ green @ bold @ pad_left 12 (Num rps) @ reset @ ''   avg '' @ Num (RPS tot) @
        ''   peak '' @ Num (peak s),
      '' '' @ bold @ ''Requests'' @ reset @ ''   '' @ pad_left 12 (Num (float_of_u64 (Requests tot))) @ ''   ok '' @
        Num (float_of_u64 (Requests tot - Failures tot)) @ ''   failed '' @ error_colour tot @ Num (float_of_u64 (Failures tot)) @
        '' ('' @ fmt_fixed 3 (f64 (ErrorRate tot * 100)) @ ''%)'' @ reset] @
     (if 0 < dt
      then ['' '' @ bold @ ''Throughput'' @ reset @ '' '' @ pad_left 12 (report_Bytes (f64 (float_of_u64 (snapshot.Bytes iv) / dt))) @ ''/s'']
      else [])"

definition latency_lines :: "options \<Rightarrow> snapshot \<Rightarrow> snapshot \<Rightarrow> real \<Rightarrow> string list" where
  "latency_lines opts tot iv dt =
     (let p99Color = (if 0 < slo_P99 (opt_SLO opts) \<and> slo_P99 (opt_SLO opts) < Percentile iv (f64 0.99) then red else green);
          show = (\<lambda>d. pad_right 10 (FmtDur d)) in
      ['' '' @ bold @ ''Latency (last '' @ fmt_fixed 1 dt @ ''s)'' @ reset,
       ''   p50 '' @ show (Percentile iv (f64 0.50)) @ '' p90 '' @ show (Percentile iv (f64 0.90)) @ '' p95 '' @
         show (Percentile iv (f64 0.95)) @ '' '' @ p99Color @ ''p99 '' @ show (Percentile iv (f64 0.99)) @ reset @ '' p99.9 '' @
         show (Percentile iv (f64 0.999)),
       '' '' @ bold @ ''Latency (overall)'' @ reset,
       ''   min '' @ show (MinLatency tot) @ '' mean '' @ pad_right 9 (FmtDur (Mean tot)) @ '' p99 '' @
         show (Percentile tot (f64 0.99)) @ '' max '' @ show (MaxLatency tot)])"

definition spark_lines :: "dash \<Rightarrow> int \<Rightarrow> go_panic + string list" where
  "spark_lines s sparkW =
     bind_ok (sparkline (rpsHist s) sparkW) (\<lambda>a.
     bind_ok (sparkline (p99Hist s) sparkW) (\<lambda>b.
     Inr ['' '' @ bold @ ''RPS'' @ reset @ ''   '' @ green @ a @ reset, '' '' @ bold @ ''p99'' @ reset @ ''   '' @ yellow @ b @ reset]))"

definition distribution_lines :: "snapshot \<Rightarrow> int \<Rightarrow> go_panic + string list" where
  "distribution_lines tot w =
     bind_ok (distribution tot w) (\<lambda>rows. Inr (('' '' @ bold @ ''Distribution'' @ reset) # map (\<lambda>r. ''   '' @ r) rows))"

definition status_lines :: "snapshot \<Rightarrow> string list" where
  "status_lines tot =
     (let n = (\<lambda>c. Num (float_of_u64 (Classes tot ! c)));
          kinds = ErrKindsSorted tot in
      ('' '' @ bold @ ''Status'' @ reset @ ''  2xx '' @ green @ n Class2xx @ reset @ ''  3xx '' @ n Class3xx @ ''  4xx '' @ n Class4xx @
         ''  5xx '' @ red @ n Class5xx @ reset @ ''  transport '' @ n ClassOther) #
      (if kinds = [] then []
       else ['' '' @ bold @ ''Errors'' @ reset @ ''  '' @ red @
               join ''  '' (map (\<lambda>kv. KV_K kv @ ''='' @ Num (float_of_u64 (KV_V kv))) (take 5 kinds)) @ reset]))"

section \<open>The table of workers\<close>

definition worker_row :: "dash \<Rightarrow> real \<Rightarrow> WorkerView \<Rightarrow> go_panic + string" where
  "worker_row s dt w =
     (let name = '' '' @ pad_right 22 (trunc (wv_Name w) 22) @ '' '' @ pad_right 10 (wv_State w) @ '' '' in
      case wv_Snapshot w of
        None \<Rightarrow> Inr (name @ pad_left 12 ''-'' @ '' '' @ pad_left 10 ''-'' @ '' '' @ pad_left 10 ''-'' @ '' '' @ pad_left 8 ''-'')
      | Some sn \<Rightarrow>
          bind_ok (Sub sn (prevWorker s (wv_Name w))) (\<lambda>d.
            let wrps = (if 0 < dt then f64 (float_of_u64 (Requests d) / dt) else 0) in
            Inr (name @ pad_left 12 (Num wrps) @ '' '' @ pad_left 10 (FmtDur (Percentile d (f64 0.99))) @ '' '' @
              pad_left 10 (Num (float_of_u64 (Requests sn))) @ '' '' @ pad_left 7 (fmt_fixed 2 (f64 (ErrorRate sn * 100))) @ ''%'')))"

fun worker_rows :: "dash \<Rightarrow> real \<Rightarrow> nat \<Rightarrow> WorkerView list \<Rightarrow> go_panic + string list" where
  "worker_rows s dt i [] = Inr []"
| "worker_rows s dt i (w # ws) =
     (if i = 20 then Inr [''   '' @ [CHR 0xE2, CHR 0x80, CHR 0xA6] @ '' '' @ itoa (int (length (w # ws))) @ '' more'']
      else bind_ok (worker_row s dt w) (\<lambda>r. bind_ok (worker_rows s dt (Suc i) ws) (\<lambda>rs. Inr (r # rs))))"

definition worker_lines :: "dash \<Rightarrow> string \<Rightarrow> real \<Rightarrow> WorkerView list \<Rightarrow> go_panic + string list" where
  "worker_lines s rule dt ws =
     (if ws = [] then Inr []
      else bind_ok (worker_rows s dt 0 ws) (\<lambda>rows.
        Inr (rule # ('' '' @ bold @ pad_right 22 ''WORKER'' @ '' '' @ pad_right 10 ''STATE'' @ '' '' @ pad_left 12 ''RPS'' @ '' '' @
          pad_left 10 ''p99'' @ '' '' @ pad_left 10 ''requests'' @ '' '' @ pad_left 8 ''err%'' @ reset) # rows)))"

section \<open>A frame\<close>

definition rule_of :: "int \<Rightarrow> go_panic + string" where
  "rule_of width = bind_ok (Repeat [CHR 0xE2, CHR 0x94, CHR 0x80] (min (width - 1) 110)) (\<lambda>r. Inr (dim @ r @ reset))"

definition frame_lines ::
  "int \<Rightarrow> options \<Rightarrow> dash \<Rightarrow> snapshot \<Rightarrow> snapshot \<Rightarrow> real \<Rightarrow> WorkerView list \<Rightarrow> real \<Rightarrow> go_panic + string list" where
  "frame_lines width opts s tot iv rps ws dt =
     bind_ok (rule_of width) (\<lambda>rule.
     bind_ok (spark_lines s (min (width - 12) 100)) (\<lambda>sl.
     bind_ok (distribution_lines tot (min (width - 30) 60)) (\<lambda>dl.
     bind_ok (worker_lines s rule dt ws) (\<lambda>wl.
     bind_ok (progress (opt_Duration opts) (opt_MaxRequests opts) tot (min (width - 20) 60)) (\<lambda>bar.
     Inr (header_lines opts tot (int (length ws)) @ [rule] @ traffic_lines s tot iv rps dt @ [rule] @
          latency_lines opts tot iv dt @ [rule] @ sl @ [rule] @ dl @ [rule] @ status_lines tot @ wl @
          [rule, '' '' @ bar, '' '' @ dim @ ''Ctrl+C to stop early'' @ reset]))))))"

definition render ::
  "int option \<Rightarrow> options \<Rightarrow> dash \<Rightarrow> snapshot \<Rightarrow> snapshot \<Rightarrow> real \<Rightarrow> WorkerView list \<Rightarrow> real \<Rightarrow> go_panic + string" where
  "render sz opts s tot iv rps ws dt =
     bind_ok (frame_lines (screen_width sz) opts s tot iv rps ws dt) (\<lambda>ls.
     Inr (esc ''H'' @ concat (map ln_line ls) @ esc ''J''))"

section \<open>Frames never fail\<close>

lemma screen_width_gt: "40 < screen_width sz"
  by (simp add: screen_width_def split: option.split)

lemma rule_of_ok: "40 < w \<Longrightarrow> \<exists>r. rule_of w = Inr r"
  by (simp add: rule_of_def Repeat_def)

lemma spark_lines_ok:
  assumes "40 < w" "\<forall>v \<in> set (rpsHist s). 0 \<le> v" "\<forall>v \<in> set (p99Hist s). 0 \<le> v"
  shows "\<exists>ls. spark_lines s (min (w - 12) 100) = Inr ls \<and> length ls = 2"
  using sparkline_ok [OF _ assms(2), of "min (w - 12) 100"] sparkline_ok [OF _ assms(3), of "min (w - 12) 100"] assms(1)
  by (auto simp: spark_lines_def)

lemma distribution_lines_ok: "40 < w \<Longrightarrow> \<exists>ls. distribution_lines tot (min (w - 30) 60) = Inr ls \<and> length ls = 9"
  using distribution_rows [of "min (w - 30) 60" tot] by (auto simp: distribution_lines_def distEdges_def)

lemma progress_ok: "40 < w \<Longrightarrow> \<exists>bar. progress d m tot (min (w - 20) 60) = Inr bar"
  using progress_bar [of "min (w - 20) 60" d m tot] by fastforce

text \<open>A worker whose histogram, if it has reported one, is no longer than \<open>NumBuckets\<close>.\<close>

definition showable :: "WorkerView \<Rightarrow> bool" where
  "showable w \<longleftrightarrow> (case wv_Snapshot w of None \<Rightarrow> True | Some sn \<Rightarrow> length (Hist sn) \<le> NumBuckets)"

lemma worker_row_ok: "showable w \<Longrightarrow> \<exists>r. worker_row s dt w = Inr r"
  by (auto simp: showable_def worker_row_def Sub_def Let_def split: option.split)

lemma worker_rows_ok:
  assumes "list_all showable ws" "i \<le> 20"
  shows "\<exists>ls. worker_rows s dt i ws = Inr ls \<and> length ls \<le> 21 - i"
  using assms
proof (induction ws arbitrary: i)
  case (Cons w ws)
  show ?case
  proof (cases "i = 20")
    case False
    obtain r where "worker_row s dt w = Inr r" using worker_row_ok [of w s dt] Cons.prems(1) by auto
    moreover obtain rs where "worker_rows s dt (Suc i) ws = Inr rs" "length rs \<le> 21 - Suc i"
      using Cons.IH [of "Suc i"] Cons.prems False by auto
    ultimately show ?thesis using False Cons.prems(2) by auto
  qed simp
qed simp

lemma worker_lines_ok: "list_all showable ws \<Longrightarrow> \<exists>ls. worker_lines s rule dt ws = Inr ls \<and> length ls \<le> 23"
  using worker_rows_ok [of ws 0 s dt] by (auto simp: worker_lines_def)

lemma frame_lines_ok:
  assumes "40 < w" "\<forall>v \<in> set (rpsHist s). 0 \<le> v" "\<forall>v \<in> set (p99Hist s). 0 \<le> v" "list_all showable ws"
  shows "\<exists>ls. frame_lines w opts s tot iv rps ws dt = Inr ls \<and> 28 \<le> length ls \<and> length ls \<le> 53"
proof -
  obtain rule where 1: "rule_of w = Inr rule" using rule_of_ok assms(1) by blast
  obtain sl where 2: "spark_lines s (min (w - 12) 100) = Inr sl" "length sl = 2" using spark_lines_ok assms(1-3) by blast
  obtain dl where 3: "distribution_lines tot (min (w - 30) 60) = Inr dl" "length dl = 9"
    using distribution_lines_ok assms(1) by blast
  obtain wl where 4: "worker_lines s rule dt ws = Inr wl" "length wl \<le> 23" using worker_lines_ok assms(4) by blast
  obtain bar where 5: "progress (opt_Duration opts) (opt_MaxRequests opts) tot (min (w - 20) 60) = Inr bar"
    using progress_ok assms(1) by blast
  show ?thesis using 2(2) 3(2) 4(2)
    by (simp add: frame_lines_def 1 2(1) 3(1) 4(1) 5 header_lines_def traffic_lines_def latency_lines_def status_lines_def Let_def)
qed

definition frame :: "string \<Rightarrow> bool" where
  "frame s \<longleftrightarrow> (\<exists>ls. s = esc ''H'' @ concat (map ln_line ls) @ esc ''J'' \<and> 28 \<le> length ls \<and> length ls \<le> 53)"

lemma render_frame:
  assumes "\<forall>v \<in> set (rpsHist s). 0 \<le> v" "\<forall>v \<in> set (p99Hist s). 0 \<le> v" "list_all showable ws"
  shows "\<exists>out. render sz opts s tot iv rps ws dt = Inr out \<and> frame out"
proof -
  obtain ls where "frame_lines (screen_width sz) opts s tot iv rps ws dt = Inr ls" "28 \<le> length ls" "length ls \<le> 53"
    using frame_lines_ok [OF screen_width_gt assms] by blast
  then show ?thesis by (auto simp: render_def frame_def)
qed

end
