(* ===== verification/Dashboard.thy ===== *)
theory Dashboard
  imports Dashboard_Screen
begin

text \<open>
  The loop of the live display (\<open>Run\<close> and \<open>tick\<close> of \<open>internal/titanload/dashboard/dashboard.go\<close>): what is
  computed and written at a tick, and the terminal protocol around it. The clock, the size of the terminal and
  what the source reports are arguments of a tick; \<open>ctx.Done\<close>, \<open>src.Done\<close> and the ticker are events.
\<close>

section \<open>Ticks\<close>

definition dash_New :: "gotime \<Rightarrow> exporter option \<Rightarrow> dash" where
  "dash_New now ex = \<lparr>prev = None, prevAt = now, prevWorker = (\<lambda>_. None), rpsHist = [], p99Hist = [], peak = 0, dash_exporter = ex\<rparr>"

text \<open>The figures of one tick and the plain progress line.\<close>

record figures =
  fig_interval :: snapshot
  fig_rps :: real
  fig_p99 :: duration

definition progress_line :: "snapshot \<Rightarrow> figures \<Rightarrow> string" where
  "progress_line tot f =
     ''['' @ clock_text (Elapsed tot) @ ''] rps='' @ Num (fig_rps f) @ '' p50='' @ FmtDur (Percentile (fig_interval f) (f64 0.5)) @
     '' p95='' @ FmtDur (Percentile (fig_interval f) (f64 0.95)) @ '' p99='' @ FmtDur (fig_p99 f) @ '' err='' @
     fmt_fixed 3 (f64 (ErrorRate tot * 100)) @ ''% total='' @ Num (float_of_u64 (Requests tot)) @ eol"

text \<open>What a tick reads: the clock, the clock again in \<open>Exporter.Update\<close>, the size of the terminal, and the
  total and the workers of the source.\<close>

record reading =
  rd_now :: gotime
  rd_update :: gotime
  rd_size :: "int option"
  rd_total :: snapshot
  rd_workers :: "WorkerView list"

definition tick :: "options \<Rightarrow> reading \<Rightarrow> dash \<Rightarrow> go_panic + dash \<times> figures \<times> string" where
  "tick opts r s =
     (let tot = rd_total r; ws = rd_workers r; now = rd_now r in
      bind_ok (Sub tot (prev s)) (\<lambda>iv.
        let dt = Seconds (now - prevAt s);
            rps = (if 0 < dt then f64 (float_of_u64 (Requests iv) / dt) else 0);
            p99 = Percentile iv (f64 0.99);
            f = \<lparr>fig_interval = iv, fig_rps = rps, fig_p99 = p99\<rparr>;
            s = s\<lparr>peak := max (peak s) rps, rpsHist := push (rpsHist s) rps 120, p99Hist := push (p99Hist s) (float_of_int p99) 120,
                   dash_exporter := map_option (Update (rd_update r) tot iv rps (int (length ws))) (dash_exporter s)\<rparr> in
        bind_ok (if opt_Interactive opts then render (rd_size r) opts s tot iv rps ws dt else Inr (progress_line tot f)) (\<lambda>out.
        Inr (s\<lparr>prev := Some tot, prevAt := now, prevWorker := fold (\<lambda>w m. m(wv_Name w := wv_Snapshot w)) ws (prevWorker s)\<rparr>, f, out))))"

section \<open>The loop\<close>

definition with_interval :: "options \<Rightarrow> options" where
  "with_interval opts =
     (if opt_Interval opts \<le> 0
      then opts\<lparr>opt_Interval := (if opt_Interactive opts then 500 * Millisecond else Second)\<rparr> else opts)"

definition enter_screen :: string where
  "enter_screen = esc ''?1049h'' @ esc ''?25l''"

definition leave_screen :: string where
  "leave_screen = esc ''?25h'' @ esc ''?1049l''"

datatype dash_pc = Looping | Finished | Panicked

record display =
  d_state :: dash
  d_pc :: dash_pc
  d_out :: "string list"

datatype dash_event = CtxCancelled | SourceDone gotime reading | Ticked reading

definition display_New :: "options \<Rightarrow> gotime \<Rightarrow> exporter option \<Rightarrow> display" where
  "display_New opts now ex =
     \<lparr>d_state = dash_New now ex, d_pc = Looping, d_out = (if opt_Interactive opts then [enter_screen] else [])\<rparr>"

text \<open>Leaving the function runs the deferred restore of the terminal, also when a panic passes through.\<close>

definition leave :: "options \<Rightarrow> dash_pc \<Rightarrow> display \<Rightarrow> display" where
  "leave opts pc d = d\<lparr>d_pc := pc, d_out := d_out d @ (if opt_Interactive opts then [leave_screen] else [])\<rparr>"

definition do_tick :: "options \<Rightarrow> reading \<Rightarrow> display \<Rightarrow> display" where
  "do_tick opts r d =
     (case tick opts r (d_state d) of
        Inl _ \<Rightarrow> leave opts Panicked d
      | Inr (s, _, out) \<Rightarrow> d\<lparr>d_state := s, d_out := d_out d @ [out]\<rparr>)"

fun dash_step :: "options \<Rightarrow> display \<Rightarrow> dash_event \<Rightarrow> display option" where
  "dash_step opts d CtxCancelled = (if d_pc d = Looping then Some (leave opts Finished d) else None)"
| "dash_step opts d (SourceDone now r) =
     (if d_pc d = Looping
      then let d = (if go_div (opt_Interval opts) 2 \<le> now - prevAt (d_state d) then do_tick opts r d else d) in
           Some (if d_pc d = Looping then leave opts Finished d else d)
      else None)"
| "dash_step opts d (Ticked r) = (if d_pc d = Looping then Some (do_tick opts r d) else None)"

section \<open>Ticks partition the run\<close>

text \<open>A run seen from the display: at every tick some more requests have completed and the source reports
  the snapshot of all of them.\<close>

type_synonym observation = "reading \<times> duration \<times> sample list"

fun ticks :: "options \<Rightarrow> observation list \<Rightarrow> sample list \<Rightarrow> dash \<Rightarrow> go_panic + dash \<times> (figures \<times> string) list" where
  "ticks opts [] xs s = Inr (s, [])"
| "ticks opts ((r, e, ys) # ts) xs s =
     bind_ok (tick opts (r\<lparr>rd_total := snapshot_of e (xs @ ys)\<rparr>) s) (\<lambda>(s', f, out).
     bind_ok (ticks opts ts (xs @ ys) s') (\<lambda>(s'', fs). Inr (s'', (f, out) # fs)))"

definition hist_ok :: "dash \<Rightarrow> bool" where
  "hist_ok s \<longleftrightarrow> (\<forall>v \<in> set (rpsHist s). 0 \<le> v) \<and> (\<forall>v \<in> set (p99Hist s). 0 \<le> v) \<and> length (rpsHist s) \<le> 120 \<and> length (p99Hist s) \<le> 120"

lemma set_push: "set (push s v n) \<subseteq> insert v (set s)"
  by (auto simp: push_def Let_def dest: in_set_dropD)

lemma length_push: "length s \<le> n \<Longrightarrow> length (push s v n) \<le> n"
  by (auto simp: push_def Let_def)

lemma tick_ok:
  assumes iv: "Sub (rd_total r) (prev s) = Inr iv" and s: "hist_ok s" and w: "list_all showable (rd_workers r)"
  shows "\<exists>s' f out. tick opts r s = Inr (s', f, out) \<and> prev s' = Some (rd_total r) \<and> fig_interval f = iv \<and>
    peak s' = max (peak s) (fig_rps f) \<and> hist_ok s' \<and> (opt_Interactive opts \<longrightarrow> frame out)"
proof -
  define dt where "dt = Seconds (rd_now r - prevAt s)"
  define rps where "rps = (if 0 < dt then f64 (float_of_u64 (Requests iv) / dt) else 0)"
  define p99 where "p99 = Percentile iv (f64 0.99)"
  define f where "f = \<lparr>fig_interval = iv, fig_rps = rps, fig_p99 = p99\<rparr>"
  define s1 where "s1 = s\<lparr>peak := max (peak s) rps, rpsHist := push (rpsHist s) rps 120, p99Hist := push (p99Hist s) (float_of_int p99) 120,
    dash_exporter := map_option (Update (rd_update r) (rd_total r) iv rps (int (length (rd_workers r)))) (dash_exporter s)\<rparr>"
  have "0 \<le> rps" by (simp add: rps_def f64.fl_nonneg)
  moreover have "0 \<le> float_of_int p99"
    using Percentile_nonneg [OF quantile_99, of iv] unfolding p99_def float_of_int_def by (intro f64.fl_nonneg) simp
  ultimately have h: "hist_ok s1"
    using s set_push [of "rpsHist s" rps 120] set_push [of "p99Hist s" "float_of_int p99" 120]
    by (auto simp: hist_ok_def s1_def length_push)
  then have "\<exists>out. render (rd_size r) opts s1 (rd_total r) iv rps (rd_workers r) dt = Inr out \<and> frame out"
    using w by (intro render_frame) (simp_all add: hist_ok_def)
  then obtain out where out: "(if opt_Interactive opts then render (rd_size r) opts s1 (rd_total r) iv rps (rd_workers r) dt
      else Inr (progress_line (rd_total r) f)) = Inr out" "opt_Interactive opts \<longrightarrow> frame out"
    by (metis (no_types))
  have "tick opts r s = Inr (s1\<lparr>prev := Some (rd_total r), prevAt := rd_now r,
      prevWorker := fold (\<lambda>w m. m(wv_Name w := wv_Snapshot w)) (rd_workers r) (prevWorker s1)\<rparr>, f, out)"
    unfolding tick_def Let_def iv bind_ok.simps
    by (simp only: dt_def [symmetric] rps_def [symmetric] p99_def [symmetric] f_def [symmetric] s1_def [symmetric] out(1) bind_ok.simps)
  then show ?thesis using h out(2) by (auto simp: f_def s1_def hist_ok_def)
qed

lemma interval_of_run:
  assumes "prev s = None \<and> xs = [] \<or> (\<exists>f. prev s = Some (snapshot_of f xs))" "length ys < 2 ^ 64"
  shows "\<exists>d mx mn. Sub (snapshot_of e (xs @ ys)) (prev s) = Inr ((snapshot_of d ys)\<lparr>MaxUs := mx, MinUs := mn\<rparr>)"
proof (cases "prev s")
  case None
  then have "Sub (snapshot_of e (xs @ ys)) (prev s) = Inr (snapshot_of (max 0 e) ys)"
    using assms Merge_snapshot_of [OF assms(2), of 0 "[]" e] by (auto simp: Sub_def NewSnapshot_snapshot_of)
  then show ?thesis by (intro exI [of _ "max 0 e"] exI [of _ "MaxUs (snapshot_of (max 0 e) ys)"] exI [of _ "MinUs (snapshot_of (max 0 e) ys)"]) simp
next
  case (Some p)
  then obtain f where "prev s = Some (snapshot_of f xs)" using assms(1) by auto
  then show ?thesis using Sub_snapshot_of [OF assms(2), of e xs f] by auto
qed

lemma ticks_partition:
  assumes "prev s = None \<and> xs = [] \<or> (\<exists>f. prev s = Some (snapshot_of f xs))" "hist_ok s"
    and "\<forall>(r, e, ys) \<in> set ts. length ys < 2 ^ 64 \<and> list_all showable (rd_workers r)"
  shows "\<exists>s' fs. ticks opts ts xs s = Inr (s', fs) \<and>
    map (\<lambda>(f, out). Requests (fig_interval f)) fs = map (\<lambda>(r, e, ys). of_nat (length ys)) ts \<and>
    map (\<lambda>(f, out). Hist (fig_interval f)) fs = map (\<lambda>(r, e, ys). Hist (snapshot_of 0 ys)) ts \<and>
    peak s' = fold max (map (fig_rps \<circ> fst) fs) (peak s) \<and> hist_ok s' \<and> (opt_Interactive opts \<longrightarrow> list_all (frame \<circ> snd) fs)"
  using assms
proof (induction ts arbitrary: xs s)
  case (Cons t ts)
  obtain r e ys where t: "t = (r, e, ys)" by (cases t)
  let ?r = "r\<lparr>rd_total := snapshot_of e (xs @ ys)\<rparr>"
  have "length ys < 2 ^ 64" "list_all showable (rd_workers ?r)" using Cons.prems(3) t by auto
  moreover obtain d mx mn where iv: "Sub (rd_total ?r) (prev s) = Inr ((snapshot_of d ys)\<lparr>MaxUs := mx, MinUs := mn\<rparr>)"
    using interval_of_run [OF Cons.prems(1) calculation(1), of e] by auto
  ultimately obtain s1 f out where 1: "tick opts ?r s = Inr (s1, f, out)" "prev s1 = Some (snapshot_of e (xs @ ys))"
    "fig_interval f = (snapshot_of d ys)\<lparr>MaxUs := mx, MinUs := mn\<rparr>" "peak s1 = max (peak s) (fig_rps f)" "hist_ok s1"
    "opt_Interactive opts \<longrightarrow> frame out"
    using tick_ok [OF iv Cons.prems(2), of opts] by auto
  have "\<exists>f. prev s1 = Some (snapshot_of f (xs @ ys))" using 1(2) by blast
  moreover have "\<forall>(r, e, ys) \<in> set ts. length ys < 2 ^ 64 \<and> list_all showable (rd_workers r)" using Cons.prems(3) by simp
  ultimately obtain s2 fs where 2: "ticks opts ts (xs @ ys) s1 = Inr (s2, fs)"
    "map (\<lambda>(f, out). Requests (fig_interval f)) fs = map (\<lambda>(r, e, ys). of_nat (length ys)) ts"
    "map (\<lambda>(f, out). Hist (fig_interval f)) fs = map (\<lambda>(r, e, ys). Hist (snapshot_of 0 ys)) ts"
    "peak s2 = fold max (map (fig_rps \<circ> fst) fs) (peak s1)" "hist_ok s2" "opt_Interactive opts \<longrightarrow> list_all (frame \<circ> snd) fs"
    using Cons.IH [of s1 "xs @ ys"] 1(5) by blast
  have "Requests (fig_interval f) = of_nat (length ys)" "Hist (fig_interval f) = Hist (snapshot_of 0 ys)"
    using 1(3) by (simp_all add: snapshot_of_def)
  then show ?case using 1 2 by (simp add: t max.commute comp_def)
qed simp

lemma hist_ok_New: "hist_ok (dash_New t0 ex)"
  by (simp add: hist_ok_def dash_New_def)


definition demo_options :: options where
  "demo_options = \<lparr>opt_Info = \<lparr>ri_Target = ''http://localhost/'', ri_Mode = ''http1'', ri_Workers = 1, ri_Concurrency = 8, ri_Rate = 0\<rparr>,
     opt_Duration = Second, opt_MaxRequests = 0, opt_SLO = \<lparr>slo_P95 = 0, slo_P99 = 0, slo_ErrorRate = 0, slo_MinRPS = 0\<rparr>,
     opt_Interactive = True, opt_Interval = 0\<rparr>"

definition demo_reading :: reading where
  "demo_reading = \<lparr>rd_now = Second, rd_update = Second, rd_size = Some 80, rd_total = NewSnapshot,
     rd_workers = [\<lparr>wv_Name = ''w1'', wv_State = ''running'', wv_Snapshot = Some NewSnapshot\<rparr>]\<rparr>"

lemma demo_showable: "list_all showable (rd_workers demo_reading)"
  by (simp add: demo_reading_def showable_def NewSnapshot_def)

definition demo_observations :: "observation list" where
  "demo_observations = [(demo_reading, 1, [\<lparr>smp_latency = 1500, smp_status = 200, smp_bytes = 2, smp_kind = []\<rparr>]), (demo_reading, 2, [])]"


section \<open>The terminal is always given back\<close>

definition good_reading :: "reading \<Rightarrow> bool" where
  "good_reading r \<longleftrightarrow> length (Hist (rd_total r)) \<le> NumBuckets \<and> list_all showable (rd_workers r)"

fun good_event :: "dash_event \<Rightarrow> bool" where
  "good_event CtxCancelled = True"
| "good_event (SourceDone now r) = good_reading r"
| "good_event (Ticked r) = good_reading r"

text \<open>What has been written: on a terminal the switch to the alternate screen, whole frames, and the switch
  back exactly when the loop has been left.\<close>

definition written :: "options \<Rightarrow> display \<Rightarrow> bool" where
  "written opts d \<longleftrightarrow> opt_Interactive opts \<longrightarrow>
     (\<exists>fs. d_out d = enter_screen # fs @ (if d_pc d = Looping then [] else [leave_screen]) \<and> (d_pc d \<noteq> Panicked \<longrightarrow> list_all frame fs))"

definition display_inv :: "options \<Rightarrow> display \<Rightarrow> dash_event list \<Rightarrow> display \<Rightarrow> bool" where
  "display_inv opts d0 es d \<longleftrightarrow> list_all good_event es \<longrightarrow> hist_ok (d_state d) \<and> d_pc d \<noteq> Panicked \<and> written opts d"

lemma do_tick_ok:
  assumes "good_reading r" "hist_ok (d_state d)" "d_pc d = Looping" "written opts d"
  shows "hist_ok (d_state (do_tick opts r d)) \<and> d_pc (do_tick opts r d) = Looping \<and> written opts (do_tick opts r d)"
proof -
  obtain iv where iv: "Sub (rd_total r) (prev (d_state d)) = Inr iv"
    using assms(1) by (cases "prev (d_state d)") (auto simp: good_reading_def Sub_def)
  obtain s f out where "tick opts r (d_state d) = Inr (s, f, out)" "hist_ok s" "opt_Interactive opts \<longrightarrow> frame out"
    using tick_ok [OF iv assms(2), of opts] assms(1) by (auto simp: good_reading_def)
  then show ?thesis using assms(3,4) by (auto simp: do_tick_def written_def)
qed

lemma leave_ok: "d_pc d = Looping \<Longrightarrow> written opts d \<Longrightarrow> written opts (leave opts Finished d)"
  by (auto simp: written_def leave_def)

lemma leave_simps [simp]: "d_state (leave opts pc d) = d_state d" "d_pc (leave opts pc d) = pc"
  by (simp_all add: leave_def)

interpretation screen: machine "dash_step opts" "\<lambda>d. \<exists>t0 ex. d = display_New opts t0 ex" "display_inv opts" for opts
proof (unfold_locales, goal_cases)
  case (1 d0)
  then show ?case by (auto simp: display_inv_def display_New_def hist_ok_New written_def)
next
  case (2 d0 es d ev d')
  then show ?case
    by (cases ev) (auto simp: display_inv_def Let_def do_tick_ok leave_ok split: if_splits)
qed



end
