(* ===== verification/Commands.thy ===== *)
theory Commands
  imports Targets_File Report Load_Worker Dashboard
begin

text \<open>
  The \<open>titanload\<close> command (\<open>cmd/titanload/main.go\<close>): dispatch, header flags, from flags to an engine
  configuration, and the exit codes. The flags are what package \<open>flag\<close> parsed; files are a function from
  paths to contents; what the engine or the coordinator measured is an argument.
\<close>

section \<open>Dispatch\<close>

datatype command = CmdRun "string list" | CmdCoordinator "string list" | CmdWorker "string list" | PrintVersion | PrintUsage | UsageError

fun contains :: "string \<Rightarrow> string \<Rightarrow> bool" where
  "contains [] p = (p = [])"
| "contains (c # cs) p = (has_prefix (c # cs) p \<or> contains cs p)"

definition realMain :: "string list \<Rightarrow> command" where
  "realMain args =
     (case args of [] \<Rightarrow> UsageError
      | a # rest \<Rightarrow>
          if a = ''run'' then CmdRun rest
          else if a = ''coordinator'' \<or> a = ''coord'' then CmdCoordinator rest
          else if a = ''worker'' then CmdWorker rest
          else if a \<in> set [''version'', ''--version'', ''-v''] then PrintVersion
          else if a \<in> set [''help'', ''-h'', ''--help''] then PrintUsage
          else if has_prefix a ''-'' \<or> contains a ''://'' then CmdRun args
          else UsageError)"

section \<open>Flags\<close>

text \<open>\<open>strings.Cut\<close> at a colon.\<close>

fun cut_colon :: "string \<Rightarrow> (string \<times> string) option" where
  "cut_colon [] = None"
| "cut_colon (c # cs) = (if c = CHR '':'' then Some ([], cs) else map_option (\<lambda>(k, v). (c # k, v)) (cut_colon cs))"

text \<open>\<open>headerFlag.Set\<close>; \<open>canonical\<close> is \<open>textproto.CanonicalMIMEHeaderKey\<close>, under which \<open>Add\<close> appends.\<close>

definition headerFlag_Set :: "(string \<Rightarrow> string) \<Rightarrow> string \<Rightarrow> header \<Rightarrow> header option" where
  "headerFlag_Set canonical v h =
     (case cut_colon v of
        None \<Rightarrow> None
      | Some (k, x) \<Rightarrow>
          let key = canonical (trim_space k) in
          Some (Mapping.update key (Mapping.lookup_default [] h key @ [trim_space x]) h))"

record loadFlags =
  lf_url :: string
  lf_targets :: string
  lf_mode :: string
  lf_method :: string
  lf_body :: string
  lf_bodyFile :: string
  lf_grpcService :: string
  lf_concurrency :: int
  lf_connections :: int
  lf_rate :: real
  lf_duration :: duration
  lf_timeout :: duration
  lf_ramp :: duration
  lf_requests :: u64
  lf_insecure :: bool
  lf_noKeepAlive :: bool
  lf_headers :: header
  lf_jsonOut :: string
  lf_sloP95 :: duration
  lf_sloP99 :: duration
  lf_sloErrPct :: real
  lf_sloMinRPS :: real

definition bindLoadFlags :: loadFlags where
  "bindLoadFlags = \<lparr>lf_url = [], lf_targets = [], lf_mode = [], lf_method = ''GET'', lf_body = [], lf_bodyFile = [],
     lf_grpcService = [], lf_concurrency = 64, lf_connections = 0, lf_rate = 0, lf_duration = 30 * Second,
     lf_timeout = 5 * Second, lf_ramp = 0, lf_requests = 0, lf_insecure = False, lf_noKeepAlive = False,
     lf_headers = Mapping.empty, lf_jsonOut = [], lf_sloP95 = 0, lf_sloP99 = 0, lf_sloErrPct = 0, lf_sloMinRPS = 0\<rparr>"

datatype flags_error = BadMode | BodyFileError string | TargetsError targets_error | NoTargetGiven | BadConfig config_error

definition mode_of_flags :: "loadFlags \<Rightarrow> string \<Rightarrow> Mode option" where
  "mode_of_flags f url =
     (case ParseMode (lf_mode f) of
        None \<Rightarrow> None
      | Some m \<Rightarrow> Some (if lf_mode f = [] \<and> (has_prefix url ''grpc://'' \<or> has_prefix url ''grpcs://'') then ModeGRPC else m))"

definition targets_of_flags :: "(string \<Rightarrow> string + string) \<Rightarrow> loadFlags \<Rightarrow> string \<Rightarrow> flags_error + target list" where
  "targets_of_flags fs f url =
     (case (if lf_bodyFile f \<noteq> [] then fs (lf_bodyFile f) else Inr (lf_body f)) of
        Inl e \<Rightarrow> Inl (BodyFileError e)
      | Inr body \<Rightarrow>
          if lf_targets f \<noteq> [] then
            (case ParseTargetsFile fs (lf_targets f) (lf_headers f) of
               (_, Some e) \<Rightarrow> Inl (TargetsError e)
             | (ts, None) \<Rightarrow> Inr ts)
          else if url \<noteq> [] then Inr [\<lparr>Method = lf_method f, URL = url, Body = body, Headers = lf_headers f\<rparr>]
          else Inl NoTargetGiven)"

definition config_of_flags :: "(string \<Rightarrow> string + string) \<Rightarrow> loadFlags \<Rightarrow> string list \<Rightarrow> flags_error + config" where
  "config_of_flags fs f args =
     (let url = (if lf_url f = [] \<and> args \<noteq> [] then hd args else lf_url f) in
      case mode_of_flags f url of
        None \<Rightarrow> Inl BadMode
      | Some mode \<Rightarrow>
          (case targets_of_flags fs f url of
             Inl e \<Rightarrow> Inl e
           | Inr ts \<Rightarrow>
               (case Validate \<lparr>Targets = ts, cfg_Mode = mode, Concurrency = lf_concurrency f, Connections = lf_connections f,
                    Rate = lf_rate f, Duration = lf_duration f, MaxRequests = lf_requests f, Timeout = lf_timeout f,
                    Ramp = lf_ramp f, Insecure = lf_insecure f, DisableKeepAlive = lf_noKeepAlive f,
                    GRPCService = lf_grpcService f\<rparr> of
                  (_, Some e) \<Rightarrow> Inl (BadConfig e)
                | (c, None) \<Rightarrow> Inr c)))"

definition slo_of_flags :: "loadFlags \<Rightarrow> SLO" where
  "slo_of_flags f = \<lparr>slo_P95 = lf_sloP95 f, slo_P99 = lf_sloP99 f, slo_ErrorRate = f64 (lf_sloErrPct f / 100), slo_MinRPS = lf_sloMinRPS f\<rparr>"

text \<open>\<open>info\<close> reads the first target, of which a validated configuration has one.\<close>

definition info_of_flags :: "config \<Rightarrow> int \<Rightarrow> RunInfo" where
  "info_of_flags cf n =
     (let t = hd (Targets cf);
          txt = Method t @ '' '' @ URL t;
          txt = (if 1 < length (Targets cf) then txt @ '' (+'' @ itoa (int (length (Targets cf)) - 1) @ '' more)'' else txt) in
      \<lparr>ri_Target = txt, ri_Mode = cfg_Mode cf, ri_Workers = n, ri_Concurrency = Concurrency cf, ri_Rate = Rate cf\<rparr>)"

text \<open>\<open>serveMetrics\<close>: without an address nothing is served; otherwise any method on \<open>/metrics\<close>.\<close>

record metrics_listener =
  ml_Addr :: string
  ml_serves :: "string \<Rightarrow> bool"
  ml_ReadHeaderTimeout :: duration

definition serveMetrics :: "string \<Rightarrow> metrics_listener option" where
  "serveMetrics addr = (if addr = [] then None
     else Some \<lparr>ml_Addr = addr, ml_serves = (\<lambda>p. p = ''/metrics''), ml_ReadHeaderTimeout = 5 * Second\<rparr>)"

text \<open>\<open>runID\<close>: the time in UTC to the second.\<close>

record utc =
  utc_year :: nat
  utc_month :: nat
  utc_day :: nat
  utc_hour :: nat
  utc_minute :: nat
  utc_second :: nat

definition runID :: "utc \<Rightarrow> string" where
  "runID t = ''run-'' @ zero_pad 4 (utc_year t) @ zero_pad 2 (utc_month t) @ zero_pad 2 (utc_day t) @ ''-'' @
     zero_pad 2 (utc_hour t) @ zero_pad 2 (utc_minute t) @ zero_pad 2 (utc_second t)"

text \<open>Runs that start in different seconds have different ids.\<close>

definition calendar :: "utc \<Rightarrow> bool" where
  "calendar t \<longleftrightarrow> utc_year t < 10000 \<and> utc_month t \<le> 12 \<and> utc_day t \<le> 31 \<and> utc_hour t < 24 \<and> utc_minute t < 60 \<and> utc_second t < 60"

lemma runID_inject: "calendar t \<Longrightarrow> calendar u \<Longrightarrow> runID t = runID u \<longleftrightarrow> t = u"
  by (cases t; cases u) (auto simp: runID_def calendar_def length_zero_pad)

text \<open>The engine as a source of the dashboard has no workers to show.\<close>

definition engineSource_Workers :: "engine \<Rightarrow> WorkerView list" where
  "engineSource_Workers e = []"

section \<open>Exit codes\<close>

definition cmd_finish :: "loadFlags \<Rightarrow> bool \<Rightarrow> Summary \<Rightarrow> int" where
  "cmd_finish f json_written sm =
     (if lf_jsonOut f \<noteq> [] \<and> \<not> json_written then 1 else if \<not> sum_SLOPassed sm then 2 else 0)"

text \<open>\<open>parsed\<close> is the outcome of \<open>fs.Parse\<close> (flags and positional arguments); \<open>ended\<close> is the snapshot of the
  engine after its run.\<close>

definition cmdRun ::
  "(string \<Rightarrow> string + string) \<Rightarrow> (string \<Rightarrow> bool \<Rightarrow> bool \<Rightarrow> nat \<Rightarrow> go_error + 'c) \<Rightarrow> string \<Rightarrow>
     (loadFlags \<times> string list) option \<Rightarrow> (engine \<Rightarrow> snapshot) \<Rightarrow> gotime \<Rightarrow> bool \<Rightarrow> int" where
  "cmdRun fs dial version parsed ended now json_written =
     (case parsed of
        None \<Rightarrow> 1
      | Some (f, args) \<Rightarrow>
          (case config_of_flags fs f args of
             Inl _ \<Rightarrow> 1
           | Inr cf \<Rightarrow>
               (case engine_New dial version cf of
                  Inl _ \<Rightarrow> 1
                | Inr (_, e) \<Rightarrow>
                    cmd_finish f json_written (Build now (ended e) (info_of_flags (cfg e) 1) (slo_of_flags f)))))"

definition cmdCoordinator ::
  "(string \<Rightarrow> string + string) \<Rightarrow> (loadFlags \<times> CoordinatorOptions \<times> string list) option \<Rightarrow> bool \<Rightarrow> bool \<Rightarrow>
     (coordinator \<Rightarrow> coordinator) \<Rightarrow> gotime \<Rightarrow> bool \<Rightarrow> int" where
  "cmdCoordinator fs parsed listening run_failed ended now json_written =
     (case parsed of
        None \<Rightarrow> 1
      | Some (f, opts, args) \<Rightarrow>
          (case config_of_flags fs f args of
             Inl _ \<Rightarrow> 1
           | Inr cf \<Rightarrow>
               (case NewCoordinator cf opts of
                  Inl _ \<Rightarrow> 1
                | Inr c \<Rightarrow>
                    if \<not> listening then 1
                    else if run_failed then 1
                    else cmd_finish f json_written (Build now (coord_Snapshot (ended c))
                      ((info_of_flags cf (opt_Expect opts))\<lparr>ri_Workers := WorkerCount (ended c)\<rparr>) (slo_of_flags f)))))"

definition cmdWorker :: "WorkerOptions option \<Rightarrow> client_error option \<Rightarrow> int" where
  "cmdWorker parsed result =
     (case parsed of
        None \<Rightarrow> 1
      | Some opts \<Rightarrow> if wo_Coordinator opts = [] then 1 else if result \<noteq> None then 1 else 0)"

section \<open>What the exit code says\<close>

lemma Validate_valid: "Validate c = (c', None) \<Longrightarrow> valid_config c'"
  using Validate_None [of c] Validate_acceptable [of c] defaulted_valid [of c] by simp

lemma config_of_flags_valid: "config_of_flags fs f args = Inr cf \<Longrightarrow> valid_config cf"
  by (auto simp: config_of_flags_def Let_def split: option.splits sum.splits prod.splits intro: Validate_valid)

lemma engine_New_valid: "engine_New dial version c0 = Inr (r, e) \<Longrightarrow> valid_config (cfg e)"
  by (auto simp: engine_New_def NewWithRequester_def split: option.splits sum.splits prod.splits if_splits intro: Validate_valid)

lemma cmd_finish_codes:
  "cmd_finish f w (Build now sn info slo) =
     (if lf_jsonOut f \<noteq> [] \<and> \<not> w then 1 else if Check slo sn = [] then 0 else 2)"
  by (simp add: cmd_finish_def Build_passed)



text \<open>The help text derives the protocol from the URL, but a targets file of gRPC URLs without \<open>-m\<close> is refused:
  \<open>ParseMode("")\<close> is already \<open>http1\<close>, so \<open>Validate\<close> never looks at the URLs of the file.\<close>

lemma grpc_targets_refused:
  assumes "lf_mode f = []" "lf_url f = []" "lf_targets f \<noteq> []" "lf_bodyFile f = []"
    and "ParseTargetsFile fs (lf_targets f) (lf_headers f) = (t # ts, None)" "has_prefix (URL t) ''grpc''"
  shows "config_of_flags fs f [] = Inl (BadConfig (BadTarget (URL t)))"
proof -
  have m: "ParseMode [] = Some ModeHTTP1" by (simp add: ParseMode_def trim_space_def to_lower_def)
  obtain u where u: "URL t = ''grpc'' @ u" using assms(6) by (auto simp: has_prefix_iff)
  then have "\<not> http_url (URL t)" by (simp add: http_url_def has_prefix_def)
  then show ?thesis using assms(1-5) m
    by (simp add: config_of_flags_def mode_of_flags_def targets_of_flags_def has_prefix_def Validate_def default_mode_def
        fill_method_def ModeHTTP1_def ModeGRPC_def Let_def)
qed

end
