(* ===== verification/Consumer.thy ===== *)
theory Consumer
  imports Go_Strconv
begin

text \<open>
  The event consumer of \<open>internal/worker/worker.go\<close>, with the part of \<open>store.go\<close>, \<open>cache.go\<close> and
  \<open>events.go\<close> it uses: events, rollups, the upsert of \<open>AddRollups\<close> and the pipelined \<open>IncrBy\<close>. The state
  of the consumer group (what was polled, how far it is committed), the rollup table and the Redis
  counters are fields of the model; whether a call to Kafka, PostgreSQL or Redis succeeds is part of
  the event, including the case that PostgreSQL applied a statement whose reply was lost. A record is
  what decoding its value gives. Go iterates over a map in any order; the model lists entries by
  first insertion, and nothing here depends on the order.
\<close>

section \<open>Events and rollups\<close>

text \<open>Time in nanoseconds since the Unix epoch; Go's zero time is the first of January of year 1.\<close>

definition zero_time :: gotime where
  "zero_time = - 62135596800 * Second"

definition truncate_minute :: "gotime \<Rightarrow> gotime" where
  "truncate_minute t = t - t mod Minute"

record Event =
  ev_ID :: string
  ev_Type :: string
  ev_Source :: string
  ev_Time :: gotime
  ev_Data :: string

record Rollup =
  Bucket :: gotime
  ru_Type :: string
  Count :: int

type_synonym rollupKey = "gotime \<times> string"

section \<open>The aggregator\<close>

record Aggregator =
  rollups :: "(rollupKey \<times> int) list"
  types :: "(string \<times> int) list"
  agg_n :: int

definition NewAggregator :: Aggregator where
  "NewAggregator = \<lparr>rollups = [], types = [], agg_n = 0\<rparr>"

text \<open>\<open>m[k]++\<close> on a \<open>map[K]int64\<close>.\<close>

fun bump :: "'k \<Rightarrow> ('k \<times> int) list \<Rightarrow> ('k \<times> int) list" where
  "bump k [] = [(k, 1)]"
| "bump k ((k', v) # m) = (if k = k' then (k, i64 (v + 1)) # m else (k', v) # bump k m)"

definition event_key :: "gotime \<Rightarrow> Event \<Rightarrow> rollupKey" where
  "event_key now ev = (truncate_minute (if ev_Time ev = zero_time then now else ev_Time ev), ev_Type ev)"

definition Add :: "gotime \<Rightarrow> Event \<Rightarrow> Aggregator \<Rightarrow> Aggregator" where
  "Add now ev a = a\<lparr>rollups := bump (event_key now ev) (rollups a), types := bump (ev_Type ev) (types a),
     agg_n := i64 (agg_n a + 1)\<rparr>"

definition Len :: "Aggregator \<Rightarrow> int" where
  "Len a = agg_n a"

definition Rollups :: "Aggregator \<Rightarrow> Rollup list" where
  "Rollups a = map (\<lambda>((b, t), v). \<lparr>Bucket = b, ru_Type = t, Count = v\<rparr>) (rollups a)"

definition KeyEventsTotal :: string where "KeyEventsTotal = ''titan:events:total''"
definition KeyEventsPrefix :: string where "KeyEventsPrefix = ''titan:events:type:''"
definition KeyItemPrefix :: string where "KeyItemPrefix = ''titan:item:''"

definition Counters :: "Aggregator \<Rightarrow> (string \<times> int) list" where
  "Counters a = AList.update KeyEventsTotal (agg_n a) (map (\<lambda>(t, v). (KeyEventsPrefix @ t, v)) (types a))"

definition Reset :: "Aggregator \<Rightarrow> Aggregator" where
  "Reset a = NewAggregator"

section \<open>Where aggregates go\<close>

type_synonym rollup_table = "rollupKey \<Rightarrow> int option"

text \<open>\<open>INSERT ... ON CONFLICT (bucket, event_type) DO UPDATE SET count = event_rollups.count +
  EXCLUDED.count\<close>. A row named twice in one statement is an error of PostgreSQL; \<open>Rollups_distinct\<close>
  shows that it does not happen.\<close>

definition upsert :: "Rollup \<Rightarrow> rollup_table \<Rightarrow> rollup_table" where
  "upsert r tbl = tbl((Bucket r, ru_Type r) \<mapsto> (case tbl (Bucket r, ru_Type r) of None \<Rightarrow> Count r | Some n \<Rightarrow> n + Count r))"

definition AddRollups :: "Rollup list \<Rightarrow> rollup_table \<Rightarrow> rollup_table" where
  "AddRollups rs tbl = fold upsert rs tbl"

text \<open>The pipeline sends one \<open>INCRBY\<close> per counter; \<open>applied\<close> of them reached the server, which refuses an
  increment that would leave the 64-bit range.\<close>

definition IncrBy :: "nat \<Rightarrow> (string \<times> int) list \<Rightarrow> (string \<Rightarrow> int) \<Rightarrow> (string \<Rightarrow> int)" where
  "IncrBy applied cs kv = fold (\<lambda>(k, v) kv. kv(k := if in_i64 (kv k + v) then kv k + v else kv k)) (take applied cs) kv"

datatype store_result = StoreOk | StoreFailed | StoreUnknown

record outcome =
  o_store :: store_result
  o_applied :: nat
  o_commit :: bool

record consumer =
  agg :: Aggregator
  lastFlush :: gotime
  polled :: "rollupKey option list"
  committed :: nat
  store_on :: bool
  cache_on :: bool
  table :: rollup_table
  counters :: "string \<Rightarrow> int"

text \<open>\<open>Sink.flush\<close>: the new state and whether it returned an error.\<close>

definition flush :: "outcome \<Rightarrow> consumer \<Rightarrow> consumer \<times> bool" where
  "flush out c =
     (if Len (agg c) = 0 then (c, False)
      else if store_on c \<and> o_store out \<noteq> StoreOk then
        ((if o_store out = StoreUnknown then c\<lparr>table := AddRollups (Rollups (agg c)) (table c)\<rparr> else c), True)
      else
        let c = (if store_on c then c\<lparr>table := AddRollups (Rollups (agg c)) (table c)\<rparr> else c);
            c = (if cache_on c then c\<lparr>counters := IncrBy (o_applied out) (Counters (agg c)) (counters c)\<rparr> else c) in
        (c, False))"

section \<open>The loop\<close>

definition flushAndCommit :: "gotime \<Rightarrow> outcome \<Rightarrow> consumer \<Rightarrow> consumer" where
  "flushAndCommit now out c =
     (case flush out c of
        (c, True) \<Rightarrow> c
      | (c, False) \<Rightarrow>
          let c = (if o_commit out then c\<lparr>committed := length (polled c)\<rparr> else c) in
          c\<lparr>agg := Reset (agg c), lastFlush := now\<rparr>)"

text \<open>One record of a fetch: \<open>None\<close> stands for a value that is not an event.\<close>

definition consume :: "gotime \<Rightarrow> Event option \<Rightarrow> consumer \<Rightarrow> consumer" where
  "consume now rec c =
     (case rec of
        Some ev \<Rightarrow> if ev_Type ev = [] then c\<lparr>polled := polled c @ [None]\<rparr>
                   else c\<lparr>agg := Add now ev (agg c), polled := polled c @ [Some (event_key now ev)]\<rparr>
      | None \<Rightarrow> c\<lparr>polled := polled c @ [None]\<rparr>)"

definition iteration :: "int \<Rightarrow> duration \<Rightarrow> gotime \<Rightarrow> Event option list \<Rightarrow> outcome \<Rightarrow> consumer \<Rightarrow> consumer" where
  "iteration flushSize flushInterval now recs out c =
     (let c = fold (consume now) recs c in
      if flushSize \<le> Len (agg c) \<or> flushInterval \<le> now - lastFlush c then flushAndCommit now out c else c)"

text \<open>A process that stops at any moment is replaced by one that resumes after the committed records.\<close>

definition restart :: "gotime \<Rightarrow> consumer \<Rightarrow> consumer" where
  "restart now c = c\<lparr>agg := NewAggregator, lastFlush := now, polled := take (committed c) (polled c)\<rparr>"

datatype (discs_sels) consumer_event =
    Iterate gotime "Event option list" outcome
  | Shutdown gotime outcome
  | Restart gotime

fun consumer_step :: "int \<Rightarrow> duration \<Rightarrow> consumer \<Rightarrow> consumer_event \<Rightarrow> consumer option" where
  "consumer_step fs fi c (Iterate now recs out) = Some (iteration fs fi now recs out c)"
| "consumer_step fs fi c (Shutdown now out) = Some (flushAndCommit now out c)"
| "consumer_step fs fi c (Restart now) = Some (restart now c)"

end
