(* ===== verification/Api.thy ===== *)
theory Api
  imports Consumer Float64 Go_Utf8
begin

text \<open>
  The handlers of the API server (\<open>internal/api/handlers.go\<close>) with the operations of \<open>store.go\<close>, \<open>cache.go\<close>
  and \<open>events.go\<close> that they call. The rows, keys and buffered records those operations read and write are
  the fields of \<open>world\<close>, updated as the SQL statements and Redis commands of the sources say; whether a
  call succeeds is an argument of the handler (\<open>faults\<close>). The JSON encoding of an item (\<open>marshal\<close>), that of
  the event data (\<open>describe\<close>) and PostgreSQL's normalisation of JSONB (\<open>jsonb\<close>) are parameters. A request
  body is the outcome of \<open>dec.Decode\<close> on it. Logs and tracing are left out.
\<close>

section \<open>Configuration and dependencies\<close>

record server_config =
  PodName :: string
  CacheTTL :: duration
  MaxInflight :: int
  MaxBodyBytes :: int
  MaxBuffered :: int

record deps =
  has_store :: bool
  has_cache :: bool
  has_publisher :: bool

section \<open>The outside world\<close>

record Item =
  it_ID :: int
  it_Name :: string
  it_Payload :: string
  it_CreatedAt :: gotime

record world =
  items :: "int \<Rightarrow> Item option"
  next_id :: int
  kv :: "string \<Rightarrow> string option"
  buffered :: int
  produced :: "(string \<times> Event) list"
  dropped :: nat

text \<open>What fails during one request: the cache read, the cache write, the database before the statement
  took effect (\<open>f_db\<close>), or the reply of a statement that did take effect (\<open>f_lost\<close>).\<close>

record faults =
  f_get :: bool
  f_set :: bool
  f_db :: bool
  f_lost :: bool

text \<open>\<open>Redis.Get\<close>: \<open>None\<close> for an error, \<open>Some None\<close> for a miss.\<close>

definition cache_Get :: "bool \<Rightarrow> string \<Rightarrow> world \<Rightarrow> string option option" where
  "cache_Get fails k w = (if fails then None else Some (kv w k))"

definition cache_Set :: "bool \<Rightarrow> string \<Rightarrow> string \<Rightarrow> world \<Rightarrow> world" where
  "cache_Set fails k v w = (if fails then w else w\<lparr>kv := (kv w)(k \<mapsto> v)\<rparr>)"

definition cache_Del :: "bool \<Rightarrow> string \<Rightarrow> world \<Rightarrow> world" where
  "cache_Del fails k w = (if fails then w else w\<lparr>kv := (kv w)(k := None)\<rparr>)"

text \<open>\<open>Redis.GetInt\<close>: a missing key is 0, a value that is no integer an error.\<close>

definition cache_GetInt :: "bool \<Rightarrow> string \<Rightarrow> world \<Rightarrow> int option" where
  "cache_GetInt fails k w =
     (if fails then None else case kv w k of None \<Rightarrow> Some 0 | Some s \<Rightarrow> ParseInt s)"

datatype db_error = ErrNotFound | DbFailed

definition GetItem :: "bool \<Rightarrow> int \<Rightarrow> world \<Rightarrow> db_error + Item" where
  "GetItem fails n w =
     (if fails then Inl DbFailed else case items w n of None \<Rightarrow> Inl ErrNotFound | Some it \<Rightarrow> Inr it)"

text \<open>\<open>INSERT INTO items ... RETURNING\<close>: the id comes from the sequence of the table, which also advances
  when the statement fails; the table checks the length of the name (\<open>migrations/0001_init.sql\<close>) in
  characters, which are the runes of a name decoded from JSON.\<close>

definition CreateItem ::
  "(string \<Rightarrow> string) \<Rightarrow> faults \<Rightarrow> gotime \<Rightarrow> string \<Rightarrow> string \<Rightarrow> world \<Rightarrow> world \<times> (db_error + Item)" where
  "CreateItem jsonb f dbnow name payload w =
     (let payload = (if payload = [] then ''{}'' else payload);
          it = \<lparr>it_ID = next_id w, it_Name = name, it_Payload = jsonb payload, it_CreatedAt = dbnow\<rparr>;
          w' = w\<lparr>next_id := next_id w + 1\<rparr> in
      if f_db f \<or> \<not> (1 \<le> RuneCount name \<and> RuneCount name \<le> 200) then (w', Inl DbFailed)
      else (w'\<lparr>items := (items w)(next_id w \<mapsto> it)\<rparr>, if f_lost f then Inl DbFailed else Inr it))"

text \<open>\<open>SELECT ... FROM items ORDER BY created_at DESC, id DESC LIMIT\<close>: the rows are those of the ids the
  sequence has handed out.\<close>

definition all_rows :: "world \<Rightarrow> Item list" where
  "all_rows w = List.map_filter (items w) [1..next_id w - 1]"

definition newer :: "Item \<Rightarrow> Item \<Rightarrow> bool" where
  "newer a b \<longleftrightarrow> it_CreatedAt b < it_CreatedAt a \<or> it_CreatedAt b = it_CreatedAt a \<and> it_ID b < it_ID a"

text \<open>How the query can fail: at once, at the scan of a row, or by cutting the rows short, which only
  \<open>rows.Err\<close> tells.\<close>

record list_fault =
  lf_query :: bool
  lf_scan :: "nat option"
  lf_cut :: "nat option"

fun scan_rows :: "nat option \<Rightarrow> Item list \<Rightarrow> Item list \<Rightarrow> db_error + Item list" where
  "scan_rows k [] acc = Inr acc"
| "scan_rows k (r # rs) acc = (if k = Some 0 then Inl DbFailed else scan_rows (map_option (\<lambda>n. n - 1) k) rs (acc @ [r]))"

definition ListItems :: "list_fault \<Rightarrow> nat \<Rightarrow> world \<Rightarrow> db_error + Item list" where
  "ListItems f limit w =
     (if lf_query f then Inl DbFailed
      else let rs = take limit (sort_by newer (all_rows w));
               rs = (case lf_cut f of None \<Rightarrow> rs | Some n \<Rightarrow> take n rs) in
        case scan_rows (lf_scan f) rs [] of
          Inl e \<Rightarrow> Inl e
        | Inr its \<Rightarrow> if lf_cut f \<noteq> None then Inl DbFailed else Inr its)"

text \<open>\<open>CountItems\<close>: the planner's estimate, or the exact count when the estimate is not positive; each
  query may fail.\<close>

definition CountItems :: "int option \<Rightarrow> int option \<Rightarrow> int option" where
  "CountItems estimate exact =
     (case estimate of None \<Rightarrow> None | Some n \<Rightarrow> if max n 0 = 0 then exact else Some (max n 0))"

text \<open>\<open>Kafka.Publish\<close>: it refuses when the number of buffered records it reads (\<open>seen\<close>) has reached the
  bound. Otherwise \<open>TryProduce\<close> enqueues the record, or, when other requests have filled the buffer
  since, fails it with \<open>ErrMaxBuffered\<close>, which only the metrics of the callback show.\<close>

datatype publish_error = ErrBackpressure | PublishFailed

definition TryProduce :: "int \<Rightarrow> string \<Rightarrow> Event \<Rightarrow> world \<Rightarrow> world" where
  "TryProduce maxBuffered key ev w =
     (if maxBuffered \<le> buffered w then w\<lparr>dropped := dropped w + 1\<rparr>
      else w\<lparr>buffered := buffered w + 1, produced := produced w @ [(key, ev)]\<rparr>)"

definition Publish :: "int \<Rightarrow> int \<Rightarrow> string \<Rightarrow> Event \<Rightarrow> world \<Rightarrow> world \<times> publish_error option" where
  "Publish maxBuffered seen key ev w =
     (if maxBuffered \<le> seen then (w, Some ErrBackpressure) else (TryProduce maxBuffered key ev w, None))"

definition NewEvent :: "string \<Rightarrow> gotime \<Rightarrow> string \<Rightarrow> string \<Rightarrow> string \<Rightarrow> Event" where
  "NewEvent fresh now typ source data =
     \<lparr>ev_ID = fresh, ev_Type = typ, ev_Source = source, ev_Time = now, ev_Data = data\<rparr>"

section \<open>Replies\<close>

record stats_view =
  st_uptime :: int
  st_requests :: u64
  st_inflight :: int
  st_max_inflight :: int
  st_deps :: deps
  st_events :: "int option"
  st_items :: "int option"

datatype body =
    Raw string | ErrorMsg string | ItemBody Item | ItemsBody "Item list" nat | QueuedBody string
  | PingBody string | StatsBody stats_view | ReadyBody bool "(string \<times> string) list"

record reply =
  code :: int
  reply_headers :: "(string \<times> string) list"
  reply_body :: body

definition writeError :: "int \<Rightarrow> string \<Rightarrow> reply" where
  "writeError c msg = \<lparr>code = c, reply_headers = [(''Content-Type'', ''application/json'')], reply_body = ErrorMsg msg\<rparr>"

definition writeJSON :: "int \<Rightarrow> body \<Rightarrow> reply" where
  "writeJSON c b = \<lparr>code = c, reply_headers = [(''Content-Type'', ''application/json'')], reply_body = b\<rparr>"

datatype 'a decoded = TooLarge | BadJson string | Decoded 'a

definition decode :: "'a decoded \<Rightarrow> reply + 'a" where
  "decode d = (case d of TooLarge \<Rightarrow> Inl (writeError 413 ''body too large'')
     | BadJson e \<Rightarrow> Inl (writeError 400 (''invalid JSON body: '' @ e)) | Decoded x \<Rightarrow> Inr x)"

section \<open>Handlers\<close>

definition ping :: "server_config \<Rightarrow> reply" where
  "ping cf = \<lparr>code = 200, reply_headers = [(''Content-Type'', ''application/json''), (''Cache-Control'', ''no-store'')],
     reply_body = PingBody (PodName cf)\<rparr>"

definition item_reply :: "string \<Rightarrow> string \<Rightarrow> reply" where
  "item_reply how b =
     \<lparr>code = 200, reply_headers = [(''Content-Type'', ''application/json''), (''X-Cache'', how)], reply_body = Raw b\<rparr>"

definition getItem ::
  "(Item \<Rightarrow> string) \<Rightarrow> deps \<Rightarrow> faults \<Rightarrow> string \<Rightarrow> world \<Rightarrow> world \<times> reply" where
  "getItem marshal d f path w =
     (if \<not> has_store d then (w, writeError 503 ''database disabled'')
      else case ParseInt path of
        None \<Rightarrow> (w, writeError 400 ''id must be a positive integer'')
      | Some n \<Rightarrow>
          if n < 1 then (w, writeError 400 ''id must be a positive integer'')
          else let key = KeyItemPrefix @ itoa n in
            case (if has_cache d then cache_Get (f_get f) key w else None) of
              Some (Some b) \<Rightarrow> (w, item_reply ''HIT'' b)
            | _ \<Rightarrow>
                (case GetItem (f_db f) n w of
                   Inl ErrNotFound \<Rightarrow> (w, writeError 404 ''item not found'')
                 | Inl DbFailed \<Rightarrow> (w, writeError 500 ''database error'')
                 | Inr it \<Rightarrow>
                     let b = marshal it in
                     (if has_cache d then cache_Set (f_set f) key b w else w, item_reply ''MISS'' b)))"

text \<open>\<open>rows\<close> is what the query of \<open>Store.ListItems\<close> returned.\<close>

definition listItems :: "deps \<Rightarrow> list_fault \<Rightarrow> string \<Rightarrow> world \<Rightarrow> reply" where
  "listItems d f v w =
     (if \<not> has_store d then writeError 503 ''database disabled''
      else
        let limit = (if v = [] then Some 20
                     else case ParseInt v of None \<Rightarrow> None | Some n \<Rightarrow> if n < 1 \<or> 100 < n then None else Some n) in
        case limit of
          None \<Rightarrow> writeError 400 ''limit must be between 1 and 100''
        | Some n \<Rightarrow>
            (case ListItems f (nat n) w of
               Inl _ \<Rightarrow> writeError 500 ''database error''
             | Inr its \<Rightarrow> writeJSON 200 (ItemsBody its (length its))))"

record createItemRequest =
  cr_Name :: string
  cr_Payload :: string
  cr_valid :: bool

definition createItem ::
  "(string \<Rightarrow> string) \<Rightarrow> (Item \<Rightarrow> string) \<Rightarrow> server_config \<Rightarrow> deps \<Rightarrow> faults \<Rightarrow> int \<Rightarrow> gotime \<Rightarrow> gotime \<Rightarrow> string \<Rightarrow>
     createItemRequest decoded \<Rightarrow> world \<Rightarrow> world \<times> reply" where
  "createItem jsonb describe cf d f seen dbnow now fresh bod w =
     (if \<not> has_store d then (w, writeError 503 ''database disabled'')
      else case decode bod of
        Inl r \<Rightarrow> (w, r)
      | Inr req \<Rightarrow>
          if RuneCount (cr_Name req) < 1 \<or> 200 < RuneCount (cr_Name req)
          then (w, writeError 400 ''name must be 1-200 characters'')
          else if cr_Payload req \<noteq> [] \<and> \<not> cr_valid req
          then (w, writeError 400 ''payload must be valid JSON'')
          else
            (case CreateItem jsonb f dbnow (cr_Name req) (cr_Payload req) w of
               (w, Inl _) \<Rightarrow> (w, writeError 500 ''database error'')
             | (w, Inr it) \<Rightarrow>
                 (if has_publisher d
                  then fst (Publish (MaxBuffered cf) seen ''item.created''
                         (NewEvent fresh now ''item.created'' (PodName cf) (describe it)) w)
                  else w,
                  writeJSON 201 (ItemBody it))))"

definition type_char :: "char \<Rightarrow> bool" where
  "type_char c = (let n = of_char c :: nat in (97 \<le> n \<and> n \<le> 122) \<or> (48 \<le> n \<and> n \<le> 57))"

text \<open>The pattern \<open>^[a-z0-9][a-z0-9._-]{0,63}$\<close>.\<close>

definition eventTypeRe :: "string \<Rightarrow> bool" where
  "eventTypeRe s = (case s of [] \<Rightarrow> False
     | c # cs \<Rightarrow> type_char c \<and> length cs \<le> 63 \<and> list_all (\<lambda>c. type_char c \<or> c \<in> set ''._-'') cs)"

record publishEventRequest =
  pe_Type :: string
  pe_Data :: string
  pe_valid :: bool

definition publishEvent ::
  "server_config \<Rightarrow> deps \<Rightarrow> int \<Rightarrow> gotime \<Rightarrow> string \<Rightarrow> publishEventRequest decoded \<Rightarrow> world \<Rightarrow> world \<times> reply" where
  "publishEvent cf d seen now fresh bod w =
     (if \<not> has_publisher d then (w, writeError 503 ''event bus disabled'')
      else case decode bod of
        Inl r \<Rightarrow> (w, r)
      | Inr req \<Rightarrow>
          if \<not> eventTypeRe (pe_Type req)
          then (w, writeError 400 ''type must match ^[a-z0-9][a-z0-9._-]{0,63}$'')
          else if pe_Data req \<noteq> [] \<and> \<not> pe_valid req
          then (w, writeError 400 ''data must be valid JSON'')
          else
            let ev = NewEvent fresh now (pe_Type req) (PodName cf) (pe_Data req) in
            (case Publish (MaxBuffered cf) seen (pe_Type req) ev w of
               (w, Some ErrBackpressure) \<Rightarrow>
                 (w, (writeError 503 ''event bus saturated'')\<lparr>reply_headers :=
                    [(''Retry-After'', ''1''), (''Content-Type'', ''application/json'')]\<rparr>)
             | (w, Some PublishFailed) \<Rightarrow> (w, writeError 502 ''publish failed'')
             | (w, None) \<Rightarrow> (w, writeJSON 202 (QueuedBody fresh))))"

section \<open>Readiness and counts, cached\<close>

record ready_cache =
  readyAt :: gotime
  readyOK :: bool
  readyDetails :: "(string \<times> string) list option"

text \<open>\<open>checks\<close> lists the dependency checks with their results now. The second component says whether
  they were run.\<close>

definition Ready ::
  "gotime \<Rightarrow> (string \<times> string option) list \<Rightarrow> ready_cache \<Rightarrow> ready_cache \<times> bool \<times> (string \<times> string) list \<times> bool" where
  "Ready now checks r =
     (case (if now - readyAt r < Second then readyDetails r else None) of
        Some ds \<Rightarrow> (r, readyOK r, ds, False)
      | None \<Rightarrow>
          let okay = list_all (\<lambda>(n, e). e = None) checks;
              ds = map (\<lambda>(n, e). (n, case e of None \<Rightarrow> ''ok'' | Some m \<Rightarrow> m)) checks in
          (\<lparr>readyAt = now, readyOK = okay, readyDetails = Some ds\<rparr>, okay, ds, True))"

definition readyz :: "gotime \<Rightarrow> (string \<times> string option) list \<Rightarrow> ready_cache \<Rightarrow> ready_cache \<times> reply" where
  "readyz now checks r =
     (case Ready now checks r of (r', okay, ds, _) \<Rightarrow> (r', writeJSON (if okay then 200 else 503) (ReadyBody okay ds)))"

record count_cache =
  countAt :: gotime
  item_count :: int

definition itemCount :: "gotime \<Rightarrow> int option \<Rightarrow> count_cache \<Rightarrow> count_cache \<times> int option" where
  "itemCount now query s =
     (if now - countAt s < 5 * Second then (s, Some (item_count s))
      else case query of None \<Rightarrow> (s, None) | Some n \<Rightarrow> (\<lparr>countAt = now, item_count = n\<rparr>, Some n))"

definition stats ::
  "server_config \<Rightarrow> deps \<Rightarrow> duration \<Rightarrow> u64 \<Rightarrow> int \<Rightarrow> bool \<Rightarrow> gotime \<Rightarrow> int option \<Rightarrow> world \<Rightarrow> count_cache \<Rightarrow> count_cache \<times> reply" where
  "stats cf d uptime requests inflight fails now query w s =
     (let ev = (if has_cache d then cache_GetInt fails KeyEventsTotal w else None);
          (s', n) = (if has_store d then itemCount now query s else (s, None)) in
      (s', writeJSON 200 (StatsBody \<lparr>st_uptime = trunc_float (Seconds uptime), st_requests = requests,
        st_inflight = inflight, st_max_inflight = MaxInflight cf, st_deps = d, st_events = ev, st_items = n\<rparr>)))"

section \<open>The stores as a state machine\<close>

text \<open>What can happen to the shared stores: requests of the two writing and one reading endpoints, expiry
  or eviction of a key, delivery of a buffered record, and the counter updates of the consumer.\<close>

datatype (discs_sels) api_event =
    ReqGet faults string
  | ReqCreate faults int gotime gotime string "createItemRequest decoded"
  | ReqPublish int gotime string "publishEventRequest decoded"
  | Expire string
  | Delivered
  | ConsumerIncr "(string \<times> int) list"

definition incr_kv :: "string \<times> int \<Rightarrow> world \<Rightarrow> world" where
  "incr_kv = (\<lambda>(k, v) w. case cache_GetInt False k w of
     None \<Rightarrow> w | Some n \<Rightarrow> if in_i64 (n + v) then w\<lparr>kv := (kv w)(k \<mapsto> itoa (n + v))\<rparr> else w)"

fun api_step ::
  "(Item \<Rightarrow> string) \<Rightarrow> (string \<Rightarrow> string) \<Rightarrow> (Item \<Rightarrow> string) \<Rightarrow> server_config \<Rightarrow> deps \<Rightarrow> world \<Rightarrow> api_event \<Rightarrow> world option" where
  "api_step marshal jsonb describe cf d w (ReqGet f path) = Some (fst (getItem marshal d f path w))"
| "api_step marshal jsonb describe cf d w (ReqCreate f seen dbnow now fresh bod) =
     Some (fst (createItem jsonb describe cf d f seen dbnow now fresh bod w))"
| "api_step marshal jsonb describe cf d w (ReqPublish seen now fresh bod) =
     Some (fst (publishEvent cf d seen now fresh bod w))"
| "api_step marshal jsonb describe cf d w (Expire k) = Some (cache_Del False k w)"
| "api_step marshal jsonb describe cf d w Delivered =
     (if 0 < buffered w then Some (w\<lparr>buffered := buffered w - 1\<rparr>) else None)"
| "api_step marshal jsonb describe cf d w (ConsumerIncr cs) =
     (if list_all (\<lambda>(k, v). k = KeyEventsTotal \<or> has_prefix k KeyEventsPrefix) cs then Some (fold incr_kv cs w) else None)"

definition fresh_world :: "world \<Rightarrow> bool" where
  "fresh_world w \<longleftrightarrow> kv w = (\<lambda>_. None) \<and> (\<forall>n\<ge>next_id w. items w n = None) \<and> buffered w = 0 \<and> produced w = [] \<and> dropped w = 0"

end
