(* ===== verification/Consumer_Delivery.thy ===== *)
theory Consumer_Delivery
  imports Consumer
begin

text \<open>
  Delivery guarantees of the event consumer. \<open>holds\<close> says what an aggregator contains in terms of the
  records it was fed, \<open>persisted\<close> splits the polled records into those in the rollup table and those
  pending, and both survive every step of the loop, every outcome of its calls, and crashes.
\<close>

section \<open>The aggregator counts\<close>

declare split_paired_All [simp del] split_paired_Ex [simp del]

definition alookup :: "('k \<times> int) list \<Rightarrow> 'k \<Rightarrow> int" where
  "alookup m k = (case map_of m k of None \<Rightarrow> 0 | Some v \<Rightarrow> v)"

definition key_count :: "'k \<Rightarrow> 'k option list \<Rightarrow> int" where
  "key_count k xs = int (length (filter (\<lambda>x. x = Some k) xs))"

definition event_count :: "'k option list \<Rightarrow> int" where
  "event_count xs = int (length (filter (\<lambda>x. x \<noteq> None) xs))"

lemma key_count_simps [simp]:
  "key_count k [] = 0" "key_count k (xs @ ys) = key_count k xs + key_count k ys"
  "key_count k [x] = (if x = Some k then 1 else 0)" "0 \<le> key_count k xs"
  by (simp_all add: key_count_def)

lemma event_count_simps [simp]:
  "event_count [] = 0" "event_count (xs @ ys) = event_count xs + event_count ys"
  "event_count [x] = (if x = None then 0 else 1)" "0 \<le> event_count xs"
  by (simp_all add: event_count_def)

lemma key_count_le_length: "key_count k xs \<le> int (length xs)"
  by (simp add: key_count_def)

lemma event_count_le_length: "event_count xs \<le> int (length xs)"
  by (simp add: event_count_def)

lemma alookup_bump:
  "distinct (map fst m) \<Longrightarrow> alookup (bump k m) j = (if j = k then i64 (alookup m k + 1) else alookup m j)"
proof (induction k m rule: bump.induct)
  case (2 k k' v m)
  then show ?case by (auto simp: alookup_def)
qed (auto simp: alookup_def i64_def)

lemma bump_keys: "fst ` set (bump k m) = insert k (fst ` set m)"
  by (induction k m rule: bump.induct) auto

lemma distinct_bump: "distinct (map fst m) \<Longrightarrow> distinct (map fst (bump k m))"
  by (induction k m rule: bump.induct) (simp_all add: bump_keys)

text \<open>An aggregator that holds exactly the events of a list of records.\<close>

definition holds :: "Aggregator \<Rightarrow> rollupKey option list \<Rightarrow> bool" where
  "holds a xs \<longleftrightarrow> distinct (map fst (rollups a)) \<and> (\<forall>k. alookup (rollups a) k = key_count k xs) \<and>
     distinct (map fst (types a)) \<and> (\<forall>t. alookup (types a) t = key_count t (map (map_option snd) xs)) \<and>
     agg_n a = event_count xs"

lemma holds_New: "holds NewAggregator []"
  by (simp add: holds_def NewAggregator_def alookup_def)

lemma i64_Suc: "0 \<le> n \<Longrightarrow> n < 2 ^ 63 - 1 \<Longrightarrow> i64 (n + 1) = n + 1"
  by (rule i64_small) simp

lemma i64_count:
  assumes "int (length xs) < 2 ^ 63 - 1"
  shows "i64 (key_count k xs + 1) = key_count k xs + 1" "i64 (event_count xs + 1) = event_count xs + 1"
  using assms key_count_le_length [of k xs] event_count_le_length [of xs] by (intro i64_Suc; simp)+

lemma holds_Add:
  assumes "holds a xs" "int (length xs) < 2 ^ 63 - 1"
  shows "holds (Add now ev a) (xs @ [Some (event_key now ev)])"
  using assms i64_count [of xs] i64_count [of "map (map_option snd) xs"]
  by (auto simp: holds_def Add_def alookup_bump distinct_bump event_key_def)

lemma holds_skip: "holds a xs \<Longrightarrow> holds a (xs @ [None])"
  by (simp add: holds_def)

section \<open>Persisting\<close>

definition rows :: "rollup_table \<Rightarrow> rollupKey \<Rightarrow> int" where
  "rows tbl k = (case tbl k of None \<Rightarrow> 0 | Some n \<Rightarrow> n)"

lemma rows_upsert: "rows (upsert r tbl) k = rows tbl k + (if k = (Bucket r, ru_Type r) then Count r else 0)"
  by (auto simp: rows_def upsert_def split: option.splits)

lemma Rollups_distinct: "holds a xs \<Longrightarrow> distinct (map (\<lambda>r. (Bucket r, ru_Type r)) (Rollups a))"
  by (auto simp: holds_def Rollups_def o_def case_prod_beta)

lemma rows_AddRollups:
  assumes "holds a xs"
  shows "rows (AddRollups (Rollups a) tbl) k = rows tbl k + key_count k xs"
proof -
  have "distinct (map fst m) \<Longrightarrow>
      rows (fold upsert (map (\<lambda>((b, t), v). \<lparr>Bucket = b, ru_Type = t, Count = v\<rparr>) m) tbl) k = rows tbl k + alookup m k" for m
  proof (induction m arbitrary: tbl)
    case (Cons e m)
    obtain b t v where e: "e = ((b, t), v)" by (metis surj_pair)
    have "alookup m k = 0" if "k = (b, t)"
      using that Cons.prems e by (force simp: alookup_def split: option.splits dest: map_of_SomeD)
    then show ?case using Cons e by (auto simp: rows_upsert) (auto simp: alookup_def)
  qed (simp add: alookup_def)
  moreover have "alookup (rollups a) k = key_count k xs" using assms unfolding holds_def by blast
  ultimately show ?thesis using assms by (simp add: AddRollups_def Rollups_def holds_def)
qed


section \<open>The consumer group\<close>

text \<open>\<open>f\<close> of the polled records are persisted, the rest is pending in the aggregator.\<close>

definition persisted :: "rollup_table \<Rightarrow> nat \<Rightarrow> consumer \<Rightarrow> bool" where
  "persisted tbl0 f c \<longleftrightarrow> committed c \<le> f \<and> f \<le> length (polled c) \<and> holds (agg c) (drop f (polled c)) \<and>
     (\<forall>k. rows tbl0 k + key_count k (take f (polled c)) \<le> rows (table c) k)"

lemma persisted_consume:
  assumes "persisted tbl0 f c" "int (length (polled c)) < 2 ^ 63 - 1"
  shows "persisted tbl0 f (consume now rec c)"
proof -
  have "int (length (drop f (polled c))) < 2 ^ 63 - 1" using assms(2) by simp
  then show ?thesis using assms(1) holds_Add [of "agg c" "drop f (polled c)"] holds_skip [of "agg c" "drop f (polled c)"]
    by (auto simp: persisted_def consume_def split: option.splits)
qed

lemma length_consume [simp]: "length (polled (consume now rec c)) = Suc (length (polled c))"
  by (simp add: consume_def split: option.splits)

lemma persisted_consume_list:
  assumes "persisted tbl0 f c" "int (length (polled c)) + int (length recs) < 2 ^ 63"
  shows "persisted tbl0 f (fold (consume now) recs c)"
  using assms
proof (induction recs arbitrary: c)
  case (Cons rec recs)
  then show ?case using persisted_consume [of tbl0 f c] by simp
qed simp

lemma length_consume_list [simp]: "length (polled (fold (consume now) recs c)) = length (polled c) + length recs"
  by (induction recs arbitrary: c) simp_all

lemma consume_frame [simp]:
  "store_on (consume now rec c) = store_on c" "table (consume now rec c) = table c" "committed (consume now rec c) = committed c"
  by (simp_all add: consume_def split: option.splits)

lemma consume_list_frame [simp]:
  "store_on (fold (consume now) recs c) = store_on c" "table (fold (consume now) recs c) = table c"
  "committed (fold (consume now) recs c) = committed c"
  by (induction recs arbitrary: c) simp_all

lemma flush_frame:
  assumes "flush out c = (c', e)"
  shows "polled c' = polled c \<and> committed c' = committed c \<and> agg c' = agg c \<and> store_on c' = store_on c"
  using assms by (auto simp: flush_def Let_def split: if_splits)

lemma event_count_0: "event_count xs = 0 \<Longrightarrow> key_count k xs = 0"
  by (auto simp: event_count_def key_count_def filter_empty_conv)

text \<open>A flush that reports success has added the pending counts; one that reports an error has added
  them or nothing.\<close>

lemma flush_table:
  assumes "holds (agg c) xs" "store_on c" "flush out c = (c', e)"
  shows "if e then o_store out \<noteq> StoreOk \<and> rows (table c') k = rows (table c) k + (if o_store out = StoreUnknown then key_count k xs else 0)
    else rows (table c') k = rows (table c) k + key_count k xs"
proof (cases "Len (agg c) = 0")
  case True
  then have "event_count xs = 0" using assms(1) by (simp add: holds_def Len_def)
  with True assms(3) show ?thesis using event_count_0 [of xs k] by (auto simp: flush_def)
next
  case False
  with assms(2,3) show ?thesis using rows_AddRollups [OF assms(1), of "table c" k] by (auto simp: flush_def Let_def split: if_splits)
qed

lemma flushAndCommit_frame [simp]:
  "store_on (flushAndCommit now out c) = store_on c" "polled (flushAndCommit now out c) = polled c"
proof -
  obtain c1 e where fl: "flush out c = (c1, e)" by (cases "flush out c")
  show "store_on (flushAndCommit now out c) = store_on c" "polled (flushAndCommit now out c) = polled c"
    using flush_frame [OF fl] fl by (simp_all add: flushAndCommit_def Let_def split: bool.splits)
qed

lemma persisted_flush:
  assumes p: "persisted tbl0 f c" and s: "store_on c" and c': "c' = flushAndCommit now out c"
  shows "\<exists>f'. persisted tbl0 f' c'"
proof -
  obtain c1 e where fl: "flush out c = (c1, e)" by (cases "flush out c")
  have frame: "polled c1 = polled c" "committed c1 = committed c" "agg c1 = agg c" "store_on c1"
    using flush_frame [OF fl] s by auto
  have "holds (agg c) (drop f (polled c))" using p by (simp add: persisted_def)
  note tab = flush_table [OF this s fl]
  have grow: "rows (table c) k \<le> rows (table c1) k" for k
    using tab [of k] key_count_simps(4) [of k "drop f (polled c)"] by (simp split: if_splits)
  show "\<exists>f'. persisted tbl0 f' c'"
  proof (cases e)
    case True
    have "\<forall>k. rows tbl0 k + key_count k (take f (polled c)) \<le> rows (table c1) k"
      using p order_trans [OF _ grow] unfolding persisted_def by blast
    with True have "persisted tbl0 f c'"
      using p c' fl frame by (simp add: flushAndCommit_def persisted_def del: split_paired_All)
    then show ?thesis ..
  next
    case False
    have "rows tbl0 k + key_count k (polled c) \<le> rows (table c1) k" for k
    proof -
      have "key_count k (polled c) = key_count k (take f (polled c)) + key_count k (drop f (polled c))"
        by (metis append_take_drop_id key_count_simps(2))
      then show ?thesis using tab [of k] False p by (simp add: persisted_def)
    qed
    moreover have "committed c \<le> length (polled c)" using p by (simp add: persisted_def)
    ultimately have "persisted tbl0 (length (polled c)) c'"
      using c' fl frame False holds_New by (auto simp: flushAndCommit_def persisted_def Let_def Reset_def)
    then show ?thesis ..
  qed
qed


definition records :: "consumer_event list \<Rightarrow> nat" where
  "records es = sum_list (map (\<lambda>ev. case ev of Iterate now recs out \<Rightarrow> length recs | _ \<Rightarrow> 0) es)"

lemma records_simps [simp]:
  "records [] = 0" "records (es @ fs) = records es + records fs" "records [Iterate now recs out] = length recs"
  "records [Shutdown now out] = 0" "records [Restart now] = 0"
  by (simp_all add: records_def)

definition fresh_consumer :: "consumer \<Rightarrow> bool" where
  "fresh_consumer c \<longleftrightarrow> agg c = NewAggregator \<and> polled c = [] \<and> committed c = 0 \<and> store_on c"

definition delivery_inv :: "consumer \<Rightarrow> consumer_event list \<Rightarrow> consumer \<Rightarrow> bool" where
  "delivery_inv c0 es c \<longleftrightarrow> store_on c \<and> length (polled c) \<le> records es \<and>
     (int (records es) < 2 ^ 63 \<longrightarrow> (\<exists>f. persisted (table c0) f c))"

lemma key_count_mono: "m \<le> n \<Longrightarrow> key_count k (take m xs) \<le> key_count k (take n xs)"
proof -
  assume "m \<le> n"
  then have "take n xs = take m xs @ take (n - m) (drop m xs)" by (metis le_add_diff_inverse take_add)
  then show ?thesis by simp
qed

lemma persisted_restart:
  assumes "persisted tbl0 f c"
  shows "persisted tbl0 (min (committed c) (length (polled c))) (restart now c)"
proof -
  have f: "committed c \<le> f" "f \<le> length (polled c)" using assms by (simp_all add: persisted_def)
  have "rows tbl0 k + key_count k (take (committed c) (polled c)) \<le> rows (table c) k" for k
    using assms key_count_mono [OF f(1), of k "polled c"] unfolding persisted_def by (meson add_left_mono order_trans)
  with f holds_New show ?thesis by (simp add: persisted_def restart_def)
qed

lemma delivery_step:
  assumes inv: "delivery_inv c0 es c" and step: "consumer_step fs fi c ev = Some c'"
  shows "delivery_inv c0 (es @ [ev]) c'"
proof (cases ev)
  case (Iterate now recs out)
  let ?c = "fold (consume now) recs c"
  have c': "c' = ?c \<or> c' = flushAndCommit now out ?c"
    using step Iterate by (auto simp: iteration_def Let_def)
  have len: "length (polled ?c) \<le> records (es @ [ev])" "store_on ?c"
    using inv Iterate by (auto simp: delivery_inv_def)
  have "\<exists>f. persisted (table c0) f ?c" if small: "int (records (es @ [ev])) < 2 ^ 63"
  proof -
    obtain f where "persisted (table c0) f c" using inv small by (auto simp: delivery_inv_def)
    moreover have "int (length (polled c)) + int (length recs) < 2 ^ 63"
      using inv small Iterate by (simp add: delivery_inv_def)
    ultimately show ?thesis using persisted_consume_list by blast
  qed
  then have "\<exists>f. persisted (table c0) f c'" if "int (records (es @ [ev])) < 2 ^ 63"
    using that c' len(2) persisted_flush [of "table c0" _ ?c c' now out] by blast
  with c' len show ?thesis unfolding delivery_inv_def by auto
next
  case (Shutdown now out)
  then have "c' = flushAndCommit now out c" using step by simp
  then show ?thesis using inv Shutdown persisted_flush [of "table c0" _ c c' now out]
    unfolding delivery_inv_def by fastforce
next
  case (Restart now)
  then show ?thesis using inv step persisted_restart [of "table c0" _ c now]
    by (fastforce simp: delivery_inv_def restart_def)
qed


interpretation delivery: machine "consumer_step fs fi" fresh_consumer delivery_inv for fs fi
proof (unfold_locales, goal_cases)
  case (1 c0)
  then have "persisted (table c0) 0 c0" by (simp add: fresh_consumer_def persisted_def holds_New)
  with 1 show ?case by (auto simp: delivery_inv_def fresh_consumer_def)
next
  case (2 c0 es c ev c')
  then show ?case by (intro delivery_step)
qed

text \<open>Without lost replies and crashes nothing is counted twice.\<close>

definition faultless :: "consumer_event \<Rightarrow> bool" where
  "faultless ev = (case ev of Iterate now recs out \<Rightarrow> o_store out \<noteq> StoreUnknown
     | Shutdown now out \<Rightarrow> o_store out \<noteq> StoreUnknown | Restart now \<Rightarrow> False)"

definition counted_once :: "rollup_table \<Rightarrow> nat \<Rightarrow> consumer \<Rightarrow> bool" where
  "counted_once tbl0 f c \<longleftrightarrow> persisted tbl0 f c \<and>
     (\<forall>k. rows (table c) k = rows tbl0 k + key_count k (take f (polled c)))"

lemma polled_consume_list: "\<exists>ys. polled (fold (consume now) recs c) = polled c @ ys"
proof (induction recs arbitrary: c)
  case (Cons rec recs)
  have "\<exists>y. polled (consume now rec c) = polled c @ [y]" by (simp add: consume_def split: option.splits)
  with Cons [of "consume now rec c"] show ?case by auto
qed simp

lemma counted_once_consume:
  assumes "counted_once tbl0 f c" "int (length (polled c)) + int (length recs) < 2 ^ 63"
  shows "counted_once tbl0 f (fold (consume now) recs c)"
proof -
  obtain ys where "polled (fold (consume now) recs c) = polled c @ ys" using polled_consume_list by blast
  moreover have "f \<le> length (polled c)" using assms(1) by (simp add: counted_once_def persisted_def)
  ultimately show ?thesis using assms persisted_consume_list by (simp add: counted_once_def)
qed

lemma counted_once_flush:
  assumes p: "counted_once tbl0 f c" and s: "store_on c" and ok: "o_store out \<noteq> StoreUnknown"
  shows "counted_once tbl0 (if snd (flush out c) then f else length (polled c)) (flushAndCommit now out c)"
proof -
  obtain c1 e where fl: "flush out c = (c1, e)" by (cases "flush out c")
  have frame: "polled c1 = polled c" "committed c1 = committed c" "agg c1 = agg c"
    using flush_frame [OF fl] by auto
  have h: "holds (agg c) (drop f (polled c))" "committed c \<le> f" "f \<le> length (polled c)"
    using p by (simp_all add: counted_once_def persisted_def)
  have split: "key_count k (polled c) = key_count k (take f (polled c)) + key_count k (drop f (polled c))" for k
    by (metis append_take_drop_id key_count_simps(2))
  have t: "rows (table c1) k = rows tbl0 k + key_count k (if e then take f (polled c) else polled c)" for k
    using flush_table [OF h(1) s fl, of k] p ok split [of k] by (auto simp: counted_once_def)
  show ?thesis
    using h t frame fl holds_New
    by (cases e) (simp_all add: counted_once_def persisted_def flushAndCommit_def Let_def Reset_def)
qed

definition once_inv :: "consumer \<Rightarrow> consumer_event list \<Rightarrow> consumer \<Rightarrow> bool" where
  "once_inv c0 es c \<longleftrightarrow> store_on c \<and> length (polled c) \<le> records es \<and>
     (int (records es) < 2 ^ 63 \<and> list_all faultless es \<longrightarrow> (\<exists>f. counted_once (table c0) f c))"

lemma once_step:
  assumes inv: "once_inv c0 es c" and step: "consumer_step fs fi c ev = Some c'"
  shows "once_inv c0 (es @ [ev]) c'"
proof -
  have frame: "store_on c'" "length (polled c') \<le> records (es @ [ev])"
    using inv step by (cases ev; auto simp: once_inv_def iteration_def restart_def Let_def split: if_splits)+
  have "\<exists>f. counted_once (table c0) f c'" if small: "int (records (es @ [ev])) < 2 ^ 63" and f: "list_all faultless (es @ [ev])"
  proof -
    obtain f where p: "counted_once (table c0) f c" using inv small f by (auto simp: once_inv_def)
    show ?thesis
    proof (cases ev)
      case (Iterate now recs out)
      let ?c = "fold (consume now) recs c"
      have "counted_once (table c0) f ?c"
        using p inv small Iterate by (intro counted_once_consume) (simp_all add: once_inv_def)
      moreover have "c' = ?c \<or> c' = flushAndCommit now out ?c" using step Iterate by (auto simp: iteration_def Let_def)
      ultimately show ?thesis using f Iterate inv counted_once_flush [of "table c0" f ?c out now]
        by (auto simp: once_inv_def faultless_def)
    next
      case (Shutdown now out)
      then show ?thesis using p step f inv counted_once_flush [of "table c0" f c out now]
        by (auto simp: once_inv_def faultless_def)
    qed (use f in \<open>simp add: faultless_def\<close>)
  qed
  with frame show ?thesis by (simp add: once_inv_def)
qed

interpretation once: machine "consumer_step fs fi" fresh_consumer once_inv for fs fi
proof (unfold_locales, goal_cases)
  case (1 c0)
  then have "counted_once (table c0) 0 c0"
    by (simp add: counted_once_def fresh_consumer_def persisted_def holds_New)
  with 1 show ?case by (auto simp: once_inv_def fresh_consumer_def)
next
  case (2 c0 es c ev c')
  then show ?case by (intro once_step)
qed

section \<open>Properties\<close>

text \<open>C15: Delivery is at least once: in every history of polls, flushes with any outcome (also replies of
  the database that got lost), failed commits, shutdowns and crashes, the rollup table contains at least the
  counts of all records whose offsets are committed.\<close>

theorem consumer_at_least_once:
  assumes "fresh_consumer c0" "exec (consumer_step fs fi) c0 es = Some c" "int (records es) < 2 ^ 63"
  shows "committed c \<le> length (polled c) \<and>
    (\<forall>k. rows (table c0) k + key_count k (take (committed c) (polled c)) \<le> rows (table c) k)"
proof -
  obtain f where f: "persisted (table c0) f c" using delivery.inv_exec [OF assms(1,2)] assms(3) by (auto simp: delivery_inv_def)
  then have le: "committed c \<le> f" "f \<le> length (polled c)"
    and row: "\<And>k. rows (table c0) k + key_count k (take f (polled c)) \<le> rows (table c) k"
    by (simp_all add: persisted_def)
  have "rows (table c0) k + key_count k (take (committed c) (polled c)) \<le> rows (table c) k" for k
    using row [of k] key_count_mono [OF le(1), of k "polled c"] by linarith
  with le show ?thesis by simp
qed

text \<open>C16: Without crashes and lost replies every record is counted exactly once: there is a prefix of the
  polled records, covering all committed ones, whose counts are exactly what the table gained, and the rest
  is pending in the aggregator.\<close>

theorem consumer_exactly_once:
  assumes "fresh_consumer c0" "exec (consumer_step fs fi) c0 es = Some c" "int (records es) < 2 ^ 63"
    and "list_all faultless es"
  shows "\<exists>f. committed c \<le> f \<and> f \<le> length (polled c) \<and> holds (agg c) (drop f (polled c)) \<and>
    (\<forall>k. rows (table c) k = rows (table c0) k + key_count k (take f (polled c)))"
  using once.inv_exec [OF assms(1,2)] assms(3,4) by (auto simp: once_inv_def counted_once_def persisted_def)

text \<open>C17: A graceful shutdown whose final flush and commit succeed leaves nothing behind: all polled records
  are committed and counted in the table.\<close>

theorem consumer_shutdown_complete:
  assumes "fresh_consumer c0" "exec (consumer_step fs fi) c0 es = Some c" "int (records es) < 2 ^ 63"
    and "o_store out = StoreOk" "o_commit out"
  shows "committed (flushAndCommit now out c) = length (polled c) \<and> Len (agg (flushAndCommit now out c)) = 0 \<and>
    (\<forall>k. rows (table c0) k + key_count k (polled c) \<le> rows (table (flushAndCommit now out c)) k)"
proof -
  obtain f where f: "persisted (table c0) f c" and s: "store_on c"
    using delivery.inv_exec [OF assms(1,2)] assms(3) by (auto simp: delivery_inv_def)
  obtain c1 e where fl: "flush out c = (c1, e)" by (cases "flush out c")
  have h: "holds (agg c) (drop f (polled c))" using f by (simp add: persisted_def)
  have "\<not> e" using flush_table [OF h s fl, of "(0, [])"] assms(4) by (auto split: if_splits)
  moreover have "rows (table c0) k + key_count k (polled c) \<le> rows (table c1) k" for k
  proof -
    have "key_count k (polled c) = key_count k (take f (polled c)) + key_count k (drop f (polled c))"
      by (metis append_take_drop_id key_count_simps(2))
    then show ?thesis using flush_table [OF h s fl, of k] \<open>\<not> e\<close> f by (simp add: persisted_def)
  qed
  ultimately show ?thesis
    using fl flush_frame [OF fl] assms(5)
    by (simp add: flushAndCommit_def Let_def Reset_def Len_def NewAggregator_def)
qed


section \<open>A small history\<close>

definition demo_consumer :: consumer where
  "demo_consumer = \<lparr>agg = NewAggregator, lastFlush = 0, polled = [], committed = 0, store_on = True, cache_on = False,
     table = (\<lambda>_. None), counters = (\<lambda>_. 0)\<rparr>"

definition demo_event :: Event where
  "demo_event = \<lparr>ev_ID = ''1'', ev_Type = ''a'', ev_Source = ''p'', ev_Time = 90 * Second, ev_Data = []\<rparr>"

definition demo_outcome :: outcome where
  "demo_outcome = \<lparr>o_store = StoreOk, o_applied = 0, o_commit = True\<rparr>"

definition demo_history :: "consumer_event list" where
  "demo_history = [Iterate (91 * Second) [Some demo_event, None] demo_outcome]"

definition demo_consumed :: consumer where
  "demo_consumed = iteration 1 Second (91 * Second) [Some demo_event, None] demo_outcome demo_consumer"

lemma fresh_demo_consumer: "fresh_consumer demo_consumer"
  by (simp add: fresh_consumer_def demo_consumer_def)

lemma demo_history_exec: "exec (consumer_step 1 Second) demo_consumer demo_history = Some demo_consumed"
  by (simp add: demo_history_def demo_consumed_def)

lemma demo_history_simps: "int (records demo_history) < 2 ^ 63" "list_all faultless demo_history"
  by (simp_all add: demo_history_def records_def faultless_def demo_outcome_def)

lemma demo_consumed_simps:
  "polled demo_consumed = [Some (60 * Second, ''a''), None]" "committed demo_consumed = 2" "table demo_consumer k = None"
  by (simp_all add: demo_consumed_def demo_consumer_def iteration_def consume_def demo_event_def event_key_def zero_time_def
      truncate_minute_def Add_def flushAndCommit_def flush_def Len_def NewAggregator_def demo_outcome_def Let_def i64_def)

theorem consumer_at_least_once_witness: "1 \<le> rows (table demo_consumed) (60 * Second, ''a'')"
proof -
  have "rows (table demo_consumer) (60 * Second, ''a'') + key_count (60 * Second, ''a'') (take (committed demo_consumed) (polled demo_consumed))
      \<le> rows (table demo_consumed) (60 * Second, ''a'')"
    using consumer_at_least_once [OF fresh_demo_consumer demo_history_exec demo_history_simps(1)] by blast
  then show ?thesis by (simp add: demo_consumed_simps rows_def key_count_def)
qed

theorem consumer_exactly_once_witness:
  "\<exists>f. f \<le> 2 \<and> rows (table demo_consumed) (60 * Second, ''a'') =
     key_count (60 * Second, ''a'') (take f [Some (60 * Second, ''a''), None])"
proof -
  obtain f where "f \<le> length (polled demo_consumed)"
    "\<And>k. rows (table demo_consumed) k = rows (table demo_consumer) k + key_count k (take f (polled demo_consumed))"
    using consumer_exactly_once [OF fresh_demo_consumer demo_history_exec demo_history_simps] by blast
  then show ?thesis by (intro exI [of _ f]) (simp add: demo_consumed_simps rows_def)
qed

theorem consumer_shutdown_complete_witness:
  "committed (flushAndCommit (92 * Second) demo_outcome demo_consumed) = 2"
  using consumer_shutdown_complete [OF fresh_demo_consumer demo_history_exec demo_history_simps(1), of demo_outcome "92 * Second"]
  by (simp add: demo_outcome_def demo_consumed_simps)

section \<open>Live counters\<close>

lemma counter_keys: "KeyEventsPrefix @ t \<noteq> KeyEventsTotal"
  by (simp add: KeyEventsPrefix_def KeyEventsTotal_def)

lemma alookup_prefix: "alookup (map (\<lambda>(t, v). (p @ t, v)) m) (p @ t) = alookup m t"
  by (induction m) (auto simp: alookup_def)

text \<open>The Redis increments of a batch are exact and do not interfere: the counter of each event type
  grows by the number of its events, the total by the number of all events, and the two kinds of key are
  different.\<close>

theorem counters_exact:
  assumes "holds a xs"
  shows "alookup (Counters a) (KeyEventsPrefix @ t) = key_count t (map (map_option snd) xs) \<and>
    alookup (Counters a) KeyEventsTotal = event_count xs"
proof -
  have "alookup (Counters a) (KeyEventsPrefix @ t) = alookup (types a) t"
    using counter_keys alookup_prefix [of KeyEventsPrefix "types a" t]
    by (simp add: Counters_def alookup_def update_conv')
  moreover have "alookup (Counters a) KeyEventsTotal = agg_n a" by (simp add: Counters_def alookup_def update_conv')
  ultimately show ?thesis using assms by (simp add: holds_def)
qed

theorem counters_exact_witness:
  "alookup (Counters (Add 0 demo_event NewAggregator)) (KeyEventsPrefix @ ''a'') = 1"
proof -
  have "holds (Add 0 demo_event NewAggregator) ([] @ [Some (event_key 0 demo_event)])"
    using holds_New by (rule holds_Add) simp
  then show ?thesis using counters_exact [of "Add 0 demo_event NewAggregator" "[Some (event_key 0 demo_event)]" "''a''"]
    by (simp add: event_key_def demo_event_def)
qed

end
