(* ===== verification/Api_State.thy ===== *)
theory Api_State
  imports Api Consumer_Delivery
begin

text \<open>
  What the handlers keep true of the stores. The locale \<open>cache_aside\<close> is the contract between the handlers
  and package \<open>cache\<close> (keys that are read, written and deleted independently) with the facts that make
  reading through a cache correct; it is interpreted on the operations of \<open>Api\<close>. From it follow that
  cached items are never stale and that a read is correct whatever Redis does. The second half is about
  the events: what the API publishes and how many it buffers.
\<close>

section \<open>Reading through a cache\<close>

text \<open>Whatever is stored under the key of \<open>n\<close> is the value of the source at \<open>n\<close>.\<close>

definition mirrors ::
  "('n \<Rightarrow> bool) \<Rightarrow> ('n \<Rightarrow> string) \<Rightarrow> (string \<Rightarrow> 's \<Rightarrow> string option) \<Rightarrow> ('n \<Rightarrow> string option) \<Rightarrow> 's \<Rightarrow> bool" where
  "mirrors keyed key get source s \<longleftrightarrow> (\<forall>n b. keyed n \<longrightarrow> get (key n) s = Some b \<longrightarrow> source n = Some b)"

locale key_value =
  fixes get :: "string \<Rightarrow> 's \<Rightarrow> string option"
    and put :: "string \<Rightarrow> string \<Rightarrow> 's \<Rightarrow> 's"
    and del :: "string \<Rightarrow> 's \<Rightarrow> 's"
  assumes get_put: "get k (put k' v s) = (if k = k' then Some v else get k s)"
    and get_del: "get k (del k' s) = (if k = k' then None else get k s)"

locale cache_aside = key_value get put del
  for get :: "string \<Rightarrow> 's \<Rightarrow> string option" and put :: "string \<Rightarrow> string \<Rightarrow> 's \<Rightarrow> 's" and del :: "string \<Rightarrow> 's \<Rightarrow> 's" +
  fixes keyed :: "'n \<Rightarrow> bool" and key :: "'n \<Rightarrow> string"
  assumes key_inject: "keyed m \<Longrightarrow> keyed n \<Longrightarrow> key m = key n \<Longrightarrow> m = n"
begin

lemma mirrors_fill:
  assumes "mirrors keyed key get source s" "keyed n" "source n = Some b"
  shows "mirrors keyed key get source (put (key n) b s)"
  using assms key_inject by (auto simp: mirrors_def get_put)

lemma mirrors_evict: "mirrors keyed key get source s \<Longrightarrow> mirrors keyed key get source (del k s)"
  by (auto simp: mirrors_def get_del)

lemma mirrors_foreign:
  "mirrors keyed key get source s \<Longrightarrow> (\<And>n. k \<noteq> key n) \<Longrightarrow> mirrors keyed key get source (put k v s)"
  by (simp add: mirrors_def get_put) metis

lemma mirrors_new_row:
  "mirrors keyed key get source s \<Longrightarrow> source n = None \<Longrightarrow> mirrors keyed key get (source(n := b)) s"
  by (force simp: mirrors_def)

lemma read_through:
  "mirrors keyed key get source s \<Longrightarrow> keyed n \<Longrightarrow>
     (case get (key n) s of Some b \<Rightarrow> Some b | None \<Rightarrow> source n) = source n"
  by (auto simp: mirrors_def split: option.splits)

end

abbreviation item_key :: "int \<Rightarrow> string" where
  "item_key n \<equiv> KeyItemPrefix @ itoa n"

abbreviation redis_get :: "string \<Rightarrow> world \<Rightarrow> string option" where
  "redis_get k w \<equiv> kv w k"

interpretation item_cache: cache_aside redis_get "cache_Set False" "cache_Del False" in_i64 item_key
  by unfold_locales (auto simp: cache_Set_def cache_Del_def itoa_inject)

section \<open>The cache never disagrees with the database\<close>

definition row_bytes :: "(Item \<Rightarrow> string) \<Rightarrow> world \<Rightarrow> int \<Rightarrow> string option" where
  "row_bytes marshal w n = map_option marshal (items w n)"

definition cache_coherent :: "(Item \<Rightarrow> string) \<Rightarrow> world \<Rightarrow> bool" where
  "cache_coherent marshal w \<longleftrightarrow>
     mirrors in_i64 item_key redis_get (row_bytes marshal w) w \<and> (\<forall>n\<ge>next_id w. items w n = None)"

lemma mirrors_cong:
  "kv w' = kv w \<Longrightarrow> mirrors P key redis_get src w' \<longleftrightarrow> mirrors P key redis_get src w"
  by (simp add: mirrors_def)

lemma coherent_same:
  "cache_coherent marshal w \<Longrightarrow> items w' = items w \<Longrightarrow> next_id w' = next_id w \<Longrightarrow> kv w' = kv w \<Longrightarrow> cache_coherent marshal w'"
  by (simp add: cache_coherent_def row_bytes_def [abs_def] mirrors_cong [of w' w])

lemma cache_frame [simp]:
  "items (cache_Set fails k v w) = items w" "next_id (cache_Set fails k v w) = next_id w"
  "items (cache_Del fails k w) = items w" "next_id (cache_Del fails k w) = next_id w"
  "row_bytes marshal (cache_Set fails k v w) = row_bytes marshal w" "row_bytes marshal (cache_Del fails k w) = row_bytes marshal w"
  by (auto simp: cache_Set_def cache_Del_def row_bytes_def)

lemma coherent_Set:
  assumes "cache_coherent marshal w" "in_i64 n" "items w n = Some it"
  shows "cache_coherent marshal (cache_Set fails (item_key n) (marshal it) w)"
proof (cases fails)
  case False
  have "row_bytes marshal w n = Some (marshal it)" using assms(3) by (simp add: row_bytes_def)
  with False assms show ?thesis by (simp add: cache_coherent_def item_cache.mirrors_fill)
qed (use assms(1) in \<open>simp add: cache_Set_def\<close>)

lemma coherent_Del: "cache_coherent marshal w \<Longrightarrow> cache_coherent marshal (cache_Del False k w)"
  by (simp add: cache_coherent_def item_cache.mirrors_evict)

lemma counter_key_not_item: "k = KeyEventsTotal \<or> has_prefix k KeyEventsPrefix \<Longrightarrow> k \<noteq> KeyItemPrefix @ s"
  by (auto simp: KeyEventsTotal_def KeyItemPrefix_def KeyEventsPrefix_def has_prefix_iff)

lemma coherent_incr:
  assumes "cache_coherent marshal w" "fst x = KeyEventsTotal \<or> has_prefix (fst x) KeyEventsPrefix"
  shows "cache_coherent marshal (incr_kv x w)"
proof -
  have "fst x \<noteq> item_key n" for n using assms(2) by (rule counter_key_not_item)
  then have "cache_coherent marshal (cache_Set False (fst x) v w)" for v
    using assms(1) by (simp add: cache_coherent_def item_cache.mirrors_foreign)
  with assms(1) show ?thesis by (cases x) (auto simp: incr_kv_def cache_Set_def split: option.splits)
qed

lemma coherent_incr_list:
  "cache_coherent marshal w \<Longrightarrow> list_all (\<lambda>(k, v). k = KeyEventsTotal \<or> has_prefix k KeyEventsPrefix) cs \<Longrightarrow>
     cache_coherent marshal (fold incr_kv cs w)"
proof (induction cs arbitrary: w)
  case (Cons c cs)
  then have "cache_coherent marshal (incr_kv c w)" by (intro coherent_incr) auto
  with Cons show ?case by simp
qed simp

lemma Publish_frame [simp]:
  "items (fst (Publish m seen k ev w)) = items w" "next_id (fst (Publish m seen k ev w)) = next_id w"
  "kv (fst (Publish m seen k ev w)) = kv w"
  by (simp_all add: Publish_def TryProduce_def)

lemma coherent_Publish: "cache_coherent marshal w \<Longrightarrow> cache_coherent marshal (fst (Publish m seen k ev w))"
  by (rule coherent_same) simp_all

lemma coherent_new_row:
  assumes "cache_coherent marshal w" "items w' = (items w)(next_id w := v)" "next_id w' = next_id w + 1" "kv w' = kv w"
  shows "cache_coherent marshal w'"
proof -
  have "row_bytes marshal w' = (row_bytes marshal w)(next_id w := map_option marshal v)"
    using assms(2) by (auto simp: row_bytes_def fun_eq_iff)
  moreover have "row_bytes marshal w (next_id w) = None" using assms(1) by (simp add: cache_coherent_def row_bytes_def)
  ultimately have "mirrors in_i64 item_key redis_get (row_bytes marshal w') w"
    using assms(1) by (simp add: cache_coherent_def item_cache.mirrors_new_row)
  then have "mirrors in_i64 item_key redis_get (row_bytes marshal w') w'" by (simp add: mirrors_def assms(4))
  then show ?thesis using assms(1-3) by (simp add: cache_coherent_def)
qed

lemma coherent_CreateItem:
  assumes "cache_coherent marshal w"
  shows "cache_coherent marshal (fst (CreateItem jsonb f dbnow name payload w))"
proof -
  let ?w = "fst (CreateItem jsonb f dbnow name payload w)"
  have "items w (next_id w) = None" using assms by (simp add: cache_coherent_def)
  then have "items w = (items w)(next_id w := None)" by (simp add: fun_upd_idem)
  then have "\<exists>v. items ?w = (items w)(next_id w := v)" by (auto simp: CreateItem_def Let_def)
  then show ?thesis using coherent_new_row [OF assms, of ?w] by (auto simp: CreateItem_def Let_def)
qed

lemma ParseInt_range: "ParseInt s = Some n \<Longrightarrow> in_i64 n"
  by (auto simp: ParseInt_def parse_magnitude_def Let_def split: list.splits if_splits option.splits)

lemma coherent_getItem:
  "cache_coherent marshal w \<Longrightarrow> cache_coherent marshal (fst (getItem marshal d f path w))"
  by (auto simp: getItem_def GetItem_def Let_def dest: ParseInt_range intro!: coherent_Set
      split: option.splits sum.splits db_error.splits if_splits)

lemma coherent_createItem:
  assumes "cache_coherent marshal w"
  shows "cache_coherent marshal (fst (createItem jsonb describe cf d f seen dbnow now fresh bod w))"
proof (cases "decode bod")
  case (Inr req)
  obtain w' r where c: "CreateItem jsonb f dbnow (cr_Name req) (cr_Payload req) w = (w', r)"
    by (cases "CreateItem jsonb f dbnow (cr_Name req) (cr_Payload req) w")
  then have "cache_coherent marshal w'" using coherent_CreateItem [OF assms] by (metis fst_conv)
  with assms Inr c show ?thesis by (auto simp: createItem_def coherent_Publish split: sum.splits)
qed (use assms in \<open>auto simp: createItem_def\<close>)

lemma publishEvent_world:
  "fst (publishEvent cf d seen now fresh bod w) = w \<or>
   (\<exists>typ data. eventTypeRe typ \<and> has_publisher d \<and>
      fst (publishEvent cf d seen now fresh bod w) =
      fst (Publish (MaxBuffered cf) seen typ (NewEvent fresh now typ (PodName cf) data) w))"
  by (cases "decode bod")
    (auto simp: publishEvent_def Let_def Publish_def)

lemma coherent_publishEvent:
  assumes "cache_coherent marshal w"
  shows "cache_coherent marshal (fst (publishEvent cf d seen now fresh bod w))"
  using publishEvent_world [of cf d seen now fresh bod w] coherent_Publish [OF assms] assms by metis

lemmas coherent_intros = coherent_getItem coherent_createItem coherent_publishEvent coherent_Del coherent_incr_list

lemma coherent_step:
  assumes "cache_coherent marshal w" "api_step marshal jsonb describe cf d w ev = Some w'"
  shows "cache_coherent marshal w'"
proof (cases ev)
  case Delivered
  with assms show ?thesis by (auto intro: coherent_same split: if_splits)
qed (use assms in \<open>auto intro: coherent_intros split: if_splits\<close>)

interpretation coherence: machine "api_step marshal jsonb describe cf d" fresh_world "\<lambda>w0 es w. cache_coherent marshal w"
  for marshal jsonb describe cf d
proof (unfold_locales, goal_cases)
  case (1 w)
  then show ?case by (simp add: fresh_world_def cache_coherent_def mirrors_def)
next
  case (2 w0 es w ev w')
  then show ?case by (blast intro: coherent_step)
qed

text \<open>C18: Cached items are never stale or mixed up: after any sequence of requests with any failures of Redis
  and PostgreSQL, evictions, and counter updates of the consumer, whatever Redis holds under the key of an
  item is the encoding of that item in the database.\<close>

theorem cache_stays_coherent:
  assumes "fresh_world w0" "exec (api_step marshal jsonb describe cf d) w0 es = Some w" "in_i64 n"
    and "kv w (KeyItemPrefix @ itoa n) = Some b"
  shows "\<exists>it. items w n = Some it \<and> b = marshal it"
  using coherence.inv_exec [OF assms(1,2)] assms(3,4) by (auto simp: cache_coherent_def mirrors_def row_bytes_def)

lemma getItem_reply:
  assumes coh: "cache_coherent marshal w" and d: "has_store d" and n: "ParseInt path = Some n" "1 \<le> n" and f: "\<not> f_db f"
  shows "code (snd (getItem marshal d f path w)) = (if items w n = None then 404 else 200) \<and>
    (\<forall>it. items w n = Some it \<longrightarrow> reply_body (snd (getItem marshal d f path w)) = Raw (marshal it))"
proof -
  have "(case kv w (item_key n) of Some b \<Rightarrow> Some b | None \<Rightarrow> row_bytes marshal w n) = row_bytes marshal w n"
    using coh ParseInt_range [OF n(1)] by (simp add: cache_coherent_def item_cache.read_through)
  then show ?thesis using d n f
    by (auto simp: getItem_def cache_Get_def GetItem_def Let_def item_reply_def writeError_def row_bytes_def split: option.splits)
qed

text \<open>C19: Reading an item is correct whatever Redis does: in every reachable state an existing item is
  answered with its encoding (from the cache or the database) and a missing one with 404, as long as the
  database itself answers.\<close>

theorem get_item_correct:
  assumes "fresh_world w0" "exec (api_step marshal jsonb describe cf d) w0 es = Some w"
    and "has_store d" "ParseInt path = Some n" "1 \<le> n" "\<not> f_db f"
  shows "code (snd (getItem marshal d f path w)) = (if items w n = None then 404 else 200) \<and>
    (\<forall>it. items w n = Some it \<longrightarrow> reply_body (snd (getItem marshal d f path w)) = Raw (marshal it))"
  using getItem_reply [OF coherence.inv_exec [OF assms(1,2)] assms(3-6)] .

section \<open>What is published\<close>

definition good_record :: "string \<times> Event \<Rightarrow> bool" where
  "good_record r \<longleftrightarrow> ev_Type (snd r) = fst r \<and> eventTypeRe (fst r)"

definition published_inv :: "int \<Rightarrow> world \<Rightarrow> bool" where
  "published_inv m w \<longleftrightarrow> list_all good_record (produced w) \<and> 0 \<le> buffered w \<and> buffered w \<le> max 0 m"

lemma published_same:
  "published_inv m w \<Longrightarrow> produced w' = produced w \<Longrightarrow> buffered w' = buffered w \<Longrightarrow> published_inv m w'"
  by (simp add: published_inv_def)

lemma published_Publish:
  "published_inv m w \<Longrightarrow> eventTypeRe k \<Longrightarrow> published_inv m (fst (Publish m seen k (NewEvent fresh now k src data) w))"
  by (auto simp: published_inv_def Publish_def TryProduce_def good_record_def NewEvent_def)

lemma event_frame [simp]:
  "produced (cache_Set fails k v w) = produced w" "buffered (cache_Set fails k v w) = buffered w"
  "produced (cache_Del fails k w) = produced w" "buffered (cache_Del fails k w) = buffered w"
  "produced (incr_kv x w) = produced w" "buffered (incr_kv x w) = buffered w"
  "produced (fst (CreateItem jsonb f dbnow name payload w)) = produced w"
  "buffered (fst (CreateItem jsonb f dbnow name payload w)) = buffered w"
  by (cases x; auto simp: cache_Set_def cache_Del_def incr_kv_def CreateItem_def Let_def split: option.splits)+

lemma event_frame_list [simp]: "produced (fold incr_kv cs w) = produced w" "buffered (fold incr_kv cs w) = buffered w"
  by (induction cs arbitrary: w) simp_all

lemma getItem_frame: "produced (fst (getItem marshal d f path w)) = produced w" "buffered (fst (getItem marshal d f path w)) = buffered w"
  by (auto simp: getItem_def Let_def split: option.splits sum.splits db_error.splits)

lemma eventTypeRe_nonempty: "\<not> eventTypeRe []"
  by (simp add: eventTypeRe_def)

lemma item_created_type: "eventTypeRe ''item.created''" by code_simp

lemma published_createItem:
  assumes "published_inv (MaxBuffered cf) w"
  shows "published_inv (MaxBuffered cf) (fst (createItem jsonb describe cf d f seen dbnow now fresh bod w))"
proof (cases "decode bod")
  case (Inr req)
  obtain w' r where c: "CreateItem jsonb f dbnow (cr_Name req) (cr_Payload req) w = (w', r)"
    by (cases "CreateItem jsonb f dbnow (cr_Name req) (cr_Payload req) w")
  then have "produced w' = produced w" "buffered w' = buffered w" using event_frame(7,8) by (metis fst_conv)+
  then have "published_inv (MaxBuffered cf) w'" using assms by (blast intro: published_same)
  with assms Inr c show ?thesis
    by (auto simp: createItem_def published_Publish item_created_type split: sum.splits)
qed (use assms in \<open>auto simp: createItem_def\<close>)

lemma published_publishEvent:
  assumes "published_inv (MaxBuffered cf) w"
  shows "published_inv (MaxBuffered cf) (fst (publishEvent cf d seen now fresh bod w))"
  using publishEvent_world [of cf d seen now fresh bod w] published_Publish [OF assms] assms by metis

lemma published_step:
  assumes "published_inv (MaxBuffered cf) w" "api_step marshal jsonb describe cf d w ev = Some w'"
  shows "published_inv (MaxBuffered cf) w'"
proof (cases ev)
  case Delivered
  with assms show ?thesis by (auto simp: published_inv_def split: if_splits)
next
  case (ReqGet f path)
  with assms show ?thesis by (auto simp: getItem_frame intro: published_same)
qed (use assms in \<open>auto intro: published_createItem published_publishEvent published_same split: if_splits\<close>)

interpretation publishing: machine "api_step marshal jsonb describe cf d" fresh_world "\<lambda>w0 es w. published_inv (MaxBuffered cf) w"
  for marshal jsonb describe cf d
proof (unfold_locales, goal_cases)
  case (1 w)
  then show ?case by (simp add: fresh_world_def published_inv_def)
next
  case (2 w0 es w ev w')
  then show ?case by (blast intro: published_step)
qed


section \<open>A small world\<close>

definition demo_world :: world where
  "demo_world = \<lparr>items = (\<lambda>_. None), next_id = 1, kv = (\<lambda>_. None), buffered = 0, produced = [], dropped = 0\<rparr>"

definition demo_deps :: deps where
  "demo_deps = \<lparr>has_store = True, has_cache = True, has_publisher = True\<rparr>"

definition demo_server :: server_config where
  "demo_server = \<lparr>PodName = ''p'', CacheTTL = Second, MaxInflight = 8, MaxBodyBytes = 4096, MaxBuffered = 1\<rparr>"

definition no_faults :: faults where
  "no_faults = \<lparr>f_get = False, f_set = False, f_db = False, f_lost = False\<rparr>"

definition demo_requests :: "api_event list" where
  "demo_requests = [ReqCreate no_faults 0 (70 * Second) (71 * Second) ''e1'' (Decoded \<lparr>cr_Name = ''a'', cr_Payload = [], cr_valid = True\<rparr>),
     ReqGet no_faults ''1'']"

definition demo_served :: "(Item \<Rightarrow> string) \<Rightarrow> world" where
  "demo_served marshal = fst (getItem marshal demo_deps no_faults ''1''
     (fst (createItem (\<lambda>s. s) (\<lambda>_. ''d'') demo_server demo_deps no_faults 0 (70 * Second) (71 * Second) ''e1''
        (Decoded \<lparr>cr_Name = ''a'', cr_Payload = [], cr_valid = True\<rparr>) demo_world)))"

lemma fresh_demo_world: "fresh_world demo_world"
  by (simp add: fresh_world_def demo_world_def)

lemma demo_served_exec:
  "exec (api_step marshal (\<lambda>s. s) (\<lambda>_. ''d'') demo_server demo_deps) demo_world demo_requests = Some (demo_served marshal)"
  by (simp add: demo_requests_def demo_served_def)

definition demo_item :: Item where
  "demo_item = \<lparr>it_ID = 1, it_Name = ''a'', it_Payload = ''{}'', it_CreatedAt = 70 * Second\<rparr>"

lemma ParseInt_1: "ParseInt ''1'' = Some 1" by code_simp

lemma itoa_1: "itoa 1 = ''1''" by code_simp

lemma demo_created:
  "createItem (\<lambda>s. s) (\<lambda>_. ''d'') demo_server demo_deps no_faults 0 (70 * Second) (71 * Second) ''e1''
     (Decoded \<lparr>cr_Name = ''a'', cr_Payload = [], cr_valid = True\<rparr>) demo_world =
   (demo_world\<lparr>items := [1 \<mapsto> demo_item], next_id := 2, buffered := 1,
      produced := [(''item.created'', NewEvent ''e1'' (71 * Second) ''item.created'' ''p'' ''d'')]\<rparr>,
    writeJSON 201 (ItemBody demo_item))"
  by (simp add: createItem_def decode_def CreateItem_def Publish_def TryProduce_def utf8_first_def demo_server_def demo_deps_def
      no_faults_def demo_world_def demo_item_def Let_def)

lemma demo_served_simps:
  "items (demo_served marshal) = [1 \<mapsto> demo_item]" "kv (demo_served marshal) = [KeyItemPrefix @ ''1'' \<mapsto> marshal demo_item]"
  unfolding demo_served_def demo_created fst_conv
  by (simp_all add: getItem_def ParseInt_1 itoa_1 demo_deps_def no_faults_def demo_world_def cache_Get_def
      GetItem_def cache_Set_def Let_def)

theorem cache_stays_coherent_witness:
  "\<exists>it. items (demo_served it_Name) 1 = Some it \<and> ''a'' = it_Name it"
  using cache_stays_coherent [OF fresh_demo_world demo_served_exec [where marshal = it_Name], of 1 "''a''"]
  by (simp add: demo_served_simps itoa_1 in_i64_def demo_item_def)

theorem get_item_correct_witness:
  "code (snd (getItem it_Name demo_deps no_faults ''1'' (demo_served it_Name))) = 200 \<and>
   reply_body (snd (getItem it_Name demo_deps no_faults ''1'' (demo_served it_Name))) = Raw ''a''"
  using get_item_correct [OF fresh_demo_world demo_served_exec [where marshal = it_Name] _ ParseInt_1, of no_faults]
  by (simp add: demo_served_simps demo_deps_def no_faults_def demo_item_def)

lemma demo_produced:
  "produced (demo_served marshal) = [(''item.created'', NewEvent ''e1'' (71 * Second) ''item.created'' ''p'' ''d'')]"
  unfolding demo_served_def getItem_frame demo_created by simp


section \<open>Accepted but dropped\<close>

text \<open>Two requests that read the buffer level before either of them produced: with one free place both are
  answered 202, and the second event is lost.\<close>

lemma accepted_event_dropped:
  defines "bod \<equiv> Decoded \<lparr>pe_Type = ''a'', pe_Data = [], pe_valid = True\<rparr>"
  defines "w1 \<equiv> fst (publishEvent demo_server demo_deps 0 0 ''e1'' bod demo_world)"
  shows "code (snd (publishEvent demo_server demo_deps 0 0 ''e1'' bod demo_world)) = 202 \<and>
    code (snd (publishEvent demo_server demo_deps 0 0 ''e2'' bod w1)) = 202 \<and>
    map (ev_ID \<circ> snd) (produced (fst (publishEvent demo_server demo_deps 0 0 ''e2'' bod w1))) = [''e1''] \<and>
    dropped (fst (publishEvent demo_server demo_deps 0 0 ''e2'' bod w1)) = 1"
proof -
  have a: "eventTypeRe ''a''" by code_simp
  show ?thesis unfolding w1_def bod_def
    by (simp add: publishEvent_def a decode_def Publish_def TryProduce_def demo_server_def demo_deps_def demo_world_def
        NewEvent_def Let_def writeJSON_def)
qed

end
