(* ===== verification/Event_Pipeline.thy ===== *)
theory Event_Pipeline
  imports Api_State
begin

text \<open>
  API and consumer together: what the handlers of \<open>internal/api\<close> publish is what \<open>internal/worker\<close> counts.
  The topic between them is the list of produced records, fetched in any order and any batches.
\<close>

declare split_paired_All [simp del] split_paired_Ex [simp del]

section \<open>From the API to the rollup table\<close>

definition fetched :: "consumer_event list \<Rightarrow> Event option list" where
  "fetched es = concat (map (\<lambda>ev. case ev of Iterate now recs out \<Rightarrow> recs | _ \<Rightarrow> []) es)"

lemma fetched_simps [simp]:
  "fetched [] = []" "fetched (es @ fs) = fetched es @ fetched fs" "fetched [Iterate now recs out] = recs"
  "fetched [Shutdown now out] = []" "fetched [Restart now] = []"
  by (simp_all add: fetched_def)

text \<open>An event that carries its own time is counted under the same key whenever it is consumed.\<close>

definition timed :: "Event option \<Rightarrow> bool" where
  "timed r = (case r of None \<Rightarrow> False | Some ev \<Rightarrow> ev_Type ev \<noteq> [] \<and> ev_Time ev \<noteq> zero_time)"

definition own_key :: "Event \<Rightarrow> rollupKey" where
  "own_key ev = (truncate_minute (ev_Time ev), ev_Type ev)"

lemma polled_timed:
  "list_all timed recs \<Longrightarrow> polled (fold (consume now) recs c) = polled c @ map (map_option own_key) recs"
  by (induction recs arbitrary: c) (auto simp: consume_def timed_def own_key_def event_key_def split: option.splits)

definition polled_inv :: "consumer \<Rightarrow> consumer_event list \<Rightarrow> consumer \<Rightarrow> bool" where
  "polled_inv c0 es c \<longleftrightarrow>
     (list_all faultless es \<and> list_all timed (fetched es) \<longrightarrow> polled c = map (map_option own_key) (fetched es))"

interpretation polling: machine "consumer_step fs fi" fresh_consumer polled_inv for fs fi
proof (unfold_locales, goal_cases)
  case (1 c0)
  then show ?case by (simp add: polled_inv_def fresh_consumer_def)
next
  case (2 c0 es c ev c')
  then show ?case by (cases ev) (auto simp: polled_inv_def iteration_def Let_def polled_timed faultless_def)
qed

lemma key_count_mset: "mset xs = mset ys \<Longrightarrow> key_count k xs = key_count k ys"
  by (simp add: key_count_def) (metis mset_filter size_mset)

lemma rows_after_final_flush:
  assumes "fresh_consumer c0" "exec (consumer_step fs fi) c0 es = Some c" "int (records es) < 2 ^ 63"
    and "list_all faultless es" "o_store out = StoreOk"
  shows "rows (table (flushAndCommit now out c)) k = rows (table c0) k + key_count k (polled c)"
proof -
  obtain f where f: "counted_once (table c0) f c" and s: "store_on c"
    using once.inv_exec [OF assms(1,2)] assms(3,4) by (auto simp: once_inv_def)
  have "\<not> snd (flush out c)" using assms(5) by (simp add: flush_def Let_def)
  with counted_once_flush [OF f s, of out now] assms(5)
  have "counted_once (table c0) (length (polled c)) (flushAndCommit now out c)" by simp
  then show ?thesis by (simp add: counted_once_def)
qed

lemma timed_fetched:
  assumes "published_inv m w" "mset recs = mset (map (Some \<circ> snd) (produced w))"
    and "\<forall>r \<in> set (produced w). ev_Time (snd r) \<noteq> zero_time"
  shows "list_all timed recs"
proof -
  have "set recs = set (map (Some \<circ> snd) (produced w))" using assms(2) by (metis set_mset_mset)
  moreover have "ev_Type (snd r) \<noteq> []" if "r \<in> set (produced w)" for r
    using assms(1) that eventTypeRe_nonempty by (auto simp: published_inv_def list_all_iff good_record_def)
  ultimately show ?thesis using assms(3) by (auto simp: list_all_iff timed_def)
qed

lemma key_count_produced:
  assumes "published_inv m w"
  shows "key_count (b, t) (map (map_option own_key \<circ> (Some \<circ> snd)) (produced w)) =
    int (length (filter (\<lambda>(k, ev). k = t \<and> truncate_minute (ev_Time ev) = b) (produced w)))"
proof -
  have "filter (\<lambda>r. own_key (snd r) = (b, t)) (produced w) =
      filter (\<lambda>(k, ev). k = t \<and> truncate_minute (ev_Time ev) = b) (produced w)"
    using assms by (intro filter_cong) (auto simp: published_inv_def list_all_iff good_record_def own_key_def)
  then show ?thesis by (simp add: key_count_def filter_map comp_def)
qed


definition demo_fetch :: "consumer_event list" where
  "demo_fetch = [Iterate (90 * Second) [Some (NewEvent ''e1'' (71 * Second) ''item.created'' ''p'' ''d'')] demo_outcome]"

definition demo_fetched :: consumer where
  "demo_fetched = iteration 100 (90 * Second) (90 * Second) [Some (NewEvent ''e1'' (71 * Second) ''item.created'' ''p'' ''d'')] demo_outcome demo_consumer"


end
