(* ===== verification/Api_Server.thy ===== *)
theory Api_Server
  imports Api
begin

text \<open>
  Routing and middleware of the API server (\<open>internal/api/server.go\<close>, \<open>middleware.go\<close>): which handler
  serves a request, the admission control of \<open>shed\<close>, the metrics of \<open>instrument\<close>, the status recorder and
  the panic handler, as a state machine over concurrent requests. A handler call is what it writes to
  its response, or a panic. Paths are clean (the multiplexer redirects others).
\<close>

section \<open>Routes\<close>

datatype endpoint = Ping | ItemsList | ItemsCreate | ItemsGet string | EventsPublish | Stats

datatype routed = App endpoint | NoRoute int

definition reads :: "string \<Rightarrow> bool" where
  "reads m \<longleftrightarrow> m = ''GET'' \<or> m = ''HEAD''"

text \<open>The value of \<open>{id}\<close> in \<open>/api/v1/items/{id}\<close>: one non-empty path segment.\<close>

definition item_segment :: "string \<Rightarrow> string option" where
  "item_segment p =
     (let s = trim_prefix p ''/api/v1/items/'' in
      if has_prefix p ''/api/v1/items/'' \<and> s \<noteq> [] \<and> CHR ''/'' \<notin> set s then Some s else None)"

definition mux :: "string \<Rightarrow> string \<Rightarrow> routed" where
  "mux m p =
     (if p = ''/api/v1/ping'' then (if reads m then App Ping else NoRoute 405)
      else if p = ''/api/v1/items'' then
        (if reads m then App ItemsList else if m = ''POST'' then App ItemsCreate else NoRoute 405)
      else if p = ''/api/v1/events'' then (if m = ''POST'' then App EventsPublish else NoRoute 405)
      else if p = ''/api/v1/stats'' then (if reads m then App Stats else NoRoute 405)
      else case item_segment p of
        Some s \<Rightarrow> if reads m then App (ItemsGet s) else NoRoute 405
      | None \<Rightarrow> NoRoute 404)"

fun route_name :: "endpoint \<Rightarrow> string" where
  "route_name Ping = ''ping''"
| "route_name ItemsList = ''items_list''"
| "route_name ItemsCreate = ''items_create''"
| "route_name (ItemsGet _) = ''items_get''"
| "route_name EventsPublish = ''events_publish''"
| "route_name Stats = ''stats''"

definition is_probe :: "string \<Rightarrow> string \<Rightarrow> bool" where
  "is_probe m p \<longleftrightarrow> reads m \<and> (p = ''/healthz'' \<or> p = ''/readyz'')"

section \<open>Responses\<close>

datatype (discs_sels) emit = Header int | Bytes int

text \<open>\<open>statusRecorder\<close> remembers the first status code of a response, 200 when the handler only writes.\<close>

record statusRecorder =
  rec_code :: int
  rec_bytes :: int

definition WriteHeader :: "int \<Rightarrow> statusRecorder \<Rightarrow> statusRecorder" where
  "WriteHeader c r = (if rec_code r = 0 then r\<lparr>rec_code := c\<rparr> else r)"

definition rec_Write :: "int \<Rightarrow> statusRecorder \<Rightarrow> statusRecorder" where
  "rec_Write n r = (if rec_code r = 0 then r\<lparr>rec_code := 200\<rparr> else r)\<lparr>rec_bytes := rec_bytes r + n\<rparr>"

fun rec_step :: "emit \<Rightarrow> statusRecorder \<Rightarrow> statusRecorder" where
  "rec_step (Header c) r = WriteHeader c r"
| "rec_step (Bytes n) r = rec_Write n r"

definition recorded :: "emit list \<Rightarrow> statusRecorder" where
  "recorded ws = fold rec_step ws \<lparr>rec_code = 0, rec_bytes = 0\<rparr>"

text \<open>The code of \<open>instrument\<close> after the handler returned.\<close>

definition final_code :: "emit list \<Rightarrow> int" where
  "final_code ws = (if rec_code (recorded ws) = 0 then 200 else rec_code (recorded ws))"

text \<open>The calls \<open>writeJSON\<close>, \<open>writeError\<close> and the handlers make for a reply: \<open>ping\<close> and \<open>getItem\<close> write
  their bytes without a header. \<open>enc_len\<close> is the length of the encoded body.\<close>

definition reply_writes :: "(body \<Rightarrow> int) \<Rightarrow> reply \<Rightarrow> emit list" where
  "reply_writes enc_len r = (case reply_body r of
     Raw b \<Rightarrow> [Bytes (enc_len (Raw b))]
   | PingBody b \<Rightarrow> [Bytes (enc_len (PingBody b))]
   | b \<Rightarrow> [Header (code r), Bytes (enc_len b)])"

datatype (discs_sels) handler_end = Returned "emit list" | Panicked "emit list" | Aborted "emit list"

text \<open>The status line the client gets: the first header of the response. \<open>recoverer\<close> adds a 500 after a
  panic, which counts only when nothing was written before; \<open>ErrAbortHandler\<close> is raised again and the
  connection is closed.\<close>

fun status_line :: "emit list \<Rightarrow> int option" where
  "status_line [] = None"
| "status_line (Header c # ws) = (if c < 200 \<and> c \<noteq> 101 then status_line ws else Some c)"
| "status_line (Bytes n # ws) = Some 200"

fun recoverer :: "handler_end \<Rightarrow> int option" where
  "recoverer (Returned ws) = Some (case status_line ws of None \<Rightarrow> 200 | Some c \<Rightarrow> c)"
| "recoverer (Panicked ws) = status_line (ws @ [Header 500, Bytes 26])"
| "recoverer (Aborted ws) = None"

definition requestID :: "string \<Rightarrow> string \<Rightarrow> string" where
  "requestID fresh given = (if given = [] \<or> 128 < length given then fresh else given)"

text \<open>The access log line of \<open>instrument\<close>: its level, or none; \<open>rnd\<close> is \<open>rand.Float64()\<close>.\<close>

datatype level = LevelInfo | LevelWarn

definition access_log :: "real \<Rightarrow> real \<Rightarrow> int \<Rightarrow> level option" where
  "access_log sample rnd c =
     (if 500 \<le> c \<or> rnd < sample then Some (if 500 \<le> c then LevelWarn else LevelInfo) else None)"

definition shed_reply :: reply where
  "shed_reply = (writeError 503 ''overloaded'')\<lparr>reply_headers := [(''Retry-After'', ''1''), (''Content-Type'', ''application/json'')]\<rparr>"

section \<open>Concurrent requests\<close>

record call =
  call_id :: nat
  call_method :: string
  call_route :: "string option"

record server =
  slots :: nat
  inside :: "call list"
  requests :: u64
  http_requests :: "string \<times> string \<times> int \<Rightarrow> nat"
  http_inflight :: int
  http_shed :: nat

definition api_New :: "server_config \<Rightarrow> server" where
  "api_New cf = \<lparr>slots = nat (MaxInflight cf), inside = [], requests = 0, http_requests = (\<lambda>_. 0),
     http_inflight = 0, http_shed = 0\<rparr>"

datatype (discs_sels) server_event =
    Probe string string
  | Admit nat string string
  | Shed string string
  | Return nat handler_end

definition route_of :: "string \<Rightarrow> string \<Rightarrow> string option" where
  "route_of m p = (case mux m p of App e \<Rightarrow> Some (route_name e) | NoRoute _ \<Rightarrow> None)"

text \<open>What \<open>instrument\<close> does after a handler returned; a panic passes it by.\<close>

definition instrument :: "call \<Rightarrow> handler_end \<Rightarrow> server \<Rightarrow> server" where
  "instrument c out s =
     (case (call_route c, out) of
        (Some rt, Returned ws) \<Rightarrow>
          s\<lparr>requests := requests s + 1,
            http_requests := (http_requests s)((rt, call_method c, final_code ws) :=
              http_requests s (rt, call_method c, final_code ws) + 1)\<rparr>
      | _ \<Rightarrow> s)"

fun server_step :: "server \<Rightarrow> server_event \<Rightarrow> server option" where
  "server_step s (Probe m p) = (if is_probe m p then Some s else None)"
| "server_step s (Admit r m p) =
     (if \<not> is_probe m p \<and> length (inside s) < slots s \<and> r \<notin> call_id ` set (inside s)
      then Some (s\<lparr>inside := inside s @ [\<lparr>call_id = r, call_method = m, call_route = route_of m p\<rparr>],
                   http_inflight := http_inflight s + 1\<rparr>)
      else None)"
| "server_step s (Shed m p) =
     (if \<not> is_probe m p \<and> \<not> length (inside s) < slots s then Some (s\<lparr>http_shed := http_shed s + 1\<rparr>) else None)"
| "server_step s (Return r out) =
     (case find (\<lambda>c. call_id c = r) (inside s) of
        None \<Rightarrow> None
      | Some c \<Rightarrow>
          let s = instrument c out s in
          Some (s\<lparr>inside := remove1 c (inside s), http_inflight := http_inflight s - 1\<rparr>))"

section \<open>From endpoint to handler\<close>

text \<open>What one request brings along and what it meets: its body and query, the faults, the clocks, the fresh
  identifier, the buffer level and the results of the queries.\<close>

record inputs =
  in_limit :: string
  in_create :: "createItemRequest decoded"
  in_event :: "publishEventRequest decoded"
  in_faults :: faults
  in_seen :: int
  in_dbnow :: gotime
  in_now :: gotime
  in_fresh :: string
  in_list :: list_fault
  in_count :: "int option"
  in_uptime :: duration

definition dispatch ::
  "(Item \<Rightarrow> string) \<Rightarrow> (string \<Rightarrow> string) \<Rightarrow> (Item \<Rightarrow> string) \<Rightarrow> server_config \<Rightarrow> deps \<Rightarrow> server \<Rightarrow> endpoint \<Rightarrow> inputs \<Rightarrow>
     world \<times> count_cache \<Rightarrow> (world \<times> count_cache) \<times> reply" where
  "dispatch marshal jsonb describe cf d s e i = (\<lambda>(w, cc). case e of
     Ping \<Rightarrow> ((w, cc), ping cf)
   | ItemsList \<Rightarrow> ((w, cc), listItems d (in_list i) (in_limit i) w)
   | ItemsCreate \<Rightarrow>
       (case createItem jsonb describe cf d (in_faults i) (in_seen i) (in_dbnow i) (in_now i) (in_fresh i) (in_create i) w of
          (w', r) \<Rightarrow> ((w', cc), r))
   | ItemsGet path \<Rightarrow> (case getItem marshal d (in_faults i) path w of (w', r) \<Rightarrow> ((w', cc), r))
   | EventsPublish \<Rightarrow>
       (case publishEvent cf d (in_seen i) (in_now i) (in_fresh i) (in_event i) w of (w', r) \<Rightarrow> ((w', cc), r))
   | Stats \<Rightarrow>
       (case stats cf d (in_uptime i) (requests s) (int (length (inside s))) (f_get (in_faults i)) (in_now i) (in_count i) w cc of
          (cc', r) \<Rightarrow> ((w, cc'), r)))"

section \<open>The recorded status is the status on the wire\<close>

lemma recorded_after_code: "rec_code r \<noteq> 0 \<Longrightarrow> rec_code (fold rec_step ws r) = rec_code r"
proof (induction ws arbitrary: r)
  case (Cons w ws)
  then have "rec_code (rec_step w r) = rec_code r" by (cases w) (simp_all add: WriteHeader_def rec_Write_def)
  with Cons show ?case by simp
qed simp

lemma final_code_status:
  assumes "list_all (\<lambda>w. case w of Header c \<Rightarrow> 200 \<le> c | Bytes _ \<Rightarrow> True) ws"
  shows "recoverer (Returned ws) = Some (final_code ws)"
proof (cases ws)
  case (Cons w ws')
  then have "rec_code (rec_step w \<lparr>rec_code = 0, rec_bytes = 0\<rparr>) \<noteq> 0"
    using assms by (cases w) (auto simp: WriteHeader_def rec_Write_def)
  with Cons assms show ?thesis
    by (cases w) (auto simp: final_code_def recorded_def recorded_after_code WriteHeader_def rec_Write_def)
qed (simp add: final_code_def recorded_def)

section \<open>Admission control\<close>

definition admitted :: "server_event list \<Rightarrow> nat" where
  "admitted es = length (filter is_Admit es)"

definition returned :: "server_event list \<Rightarrow> nat" where
  "returned es = length (filter is_Return es)"

definition server_inv :: "server \<Rightarrow> server_event list \<Rightarrow> server \<Rightarrow> bool" where
  "server_inv s0 es s \<longleftrightarrow> slots s = slots s0 \<and> length (inside s) \<le> slots s \<and> distinct (map call_id (inside s)) \<and>
     admitted es = returned es + length (inside s) \<and> http_inflight s = int (length (inside s)) \<and>
     http_shed s = length (filter is_Shed es)"

lemma instrument_frame [simp]:
  "slots (instrument c out s) = slots s" "inside (instrument c out s) = inside s"
  "http_inflight (instrument c out s) = http_inflight s" "http_shed (instrument c out s) = http_shed s"
  by (auto simp: instrument_def split: option.splits handler_end.splits)

lemma distinct_map_remove1: "distinct (map f xs) \<Longrightarrow> distinct (map f (remove1 x xs))"
  by (induction xs) (auto dest: notin_set_remove1, metis image_eqI notin_set_remove1)

lemma server_step_inv:
  assumes "server_inv s0 es s" "server_step s e = Some s'"
  shows "server_inv s0 (es @ [e]) s'"
proof (cases e)
  case (Return r out)
  then obtain c where c: "find (\<lambda>c. call_id c = r) (inside s) = Some c"
    using assms(2) by (auto split: option.splits)
  then have mem: "c \<in> set (inside s)" by (auto simp: find_Some_iff)
  then have len: "length (inside s) = Suc (length (remove1 c (inside s)))"
    using length_pos_if_in_set [OF mem] by (simp add: length_remove1)
  have s': "inside s' = remove1 c (inside s)" "slots s' = slots s" "http_inflight s' = http_inflight s - 1" "http_shed s' = http_shed s"
    using assms(2) Return c by (auto simp: Let_def)
  show ?thesis using assms(1) len Return
    by (auto simp: server_inv_def admitted_def returned_def s' intro: distinct_map_remove1)
qed (use assms in \<open>auto simp: server_inv_def admitted_def returned_def split: if_splits\<close>)

interpretation admission: machine server_step
  "\<lambda>s. inside s = [] \<and> http_inflight s = 0 \<and> http_shed s = 0" server_inv
  by unfold_locales (simp add: server_inv_def admitted_def returned_def, rule server_step_inv)

lemma shed_when_full:
  assumes "exec server_step (api_New cf) (es1 @ Shed m p # es2) = Some s"
  shows "admitted es1 = returned es1 + nat (MaxInflight cf)"
proof -
  obtain r r' where r: "exec server_step (api_New cf) es1 = Some r" "server_step r (Shed m p) = Some r'"
    using assms by (auto simp: exec_append bind_eq_Some_conv split: option.splits)
  moreover have "server_inv (api_New cf) es1 r" by (rule admission.inv_exec [OF _ r(1)]) (simp add: api_New_def)
  ultimately show ?thesis by (auto simp: server_inv_def api_New_def split: if_splits)
qed

text \<open>C21: Admission control is exact: whatever the order of arrivals, returns and panics, at most
  \<open>MaxInflight\<close> requests are inside, every admitted request is inside or has given its slot back (a panic
  included), and a request was rejected only at a moment when exactly \<open>MaxInflight\<close> were inside.\<close>

theorem admission_control:
  assumes "exec server_step (api_New cf) es = Some s"
  shows "length (inside s) \<le> nat (MaxInflight cf) \<and> admitted es = returned es + length (inside s) \<and>
    (\<forall>es1 m p es2. es = es1 @ Shed m p # es2 \<longrightarrow> admitted es1 = returned es1 + nat (MaxInflight cf))"
proof -
  have "server_inv (api_New cf) es s" by (rule admission.inv_exec [OF _ assms]) (simp add: api_New_def)
  then show ?thesis using assms shed_when_full by (auto simp: server_inv_def api_New_def)
qed

text \<open>Seen from outside, the limiter is a counting semaphore.\<close>

inductive semaphore_step :: "nat \<Rightarrow> nat \<Rightarrow> nat \<Rightarrow> bool" for capacity where
  acquire: "n < capacity \<Longrightarrow> semaphore_step capacity n (Suc n)"
| release: "semaphore_step capacity (Suc n) n"

interpretation semaphore: simulation server_step "\<lambda>s. slots s = capacity \<and> length (inside s) \<le> capacity" "\<lambda>s. length (inside s)"
  "semaphore_step capacity" for capacity
proof (unfold_locales, goal_cases)
  case (1 s e s')
  then show ?case by (cases e) (auto simp: Let_def length_remove1 split: if_splits option.splits)
next
  case (2 s e s')
  then show ?case
  proof (cases e)
    case (Return r out)
    then obtain c where c: "find (\<lambda>c. call_id c = r) (inside s) = Some c" using 2(2) by (auto split: option.splits)
    then have "c \<in> set (inside s)" by (auto simp: find_Some_iff)
    then have "length (inside s) = Suc (length (remove1 c (inside s)))" using length_pos_if_in_set by (fastforce simp: length_remove1)
    moreover have "inside s' = remove1 c (inside s)" using 2(2) Return c by (auto simp: Let_def)
    ultimately show ?thesis by (simp add: r_into_rtranclp semaphore_step.release)
  next
    case (Admit r m p)
    then have "semaphore_step capacity (length (inside s)) (length (inside s'))"
      using 2 by (auto intro: semaphore_step.acquire split: if_splits)
    then show ?thesis by (rule r_into_rtranclp)
  qed (auto split: if_splits)
qed

lemma server_refines_semaphore:
  assumes "exec server_step (api_New cf) es = Some s"
  shows "(semaphore_step (nat (MaxInflight cf)))\<^sup>*\<^sup>* 0 (length (inside s))"
  using semaphore.exec_matched [OF _ assms, of "nat (MaxInflight cf)"] by (simp add: api_New_def)

definition demo_config_1 :: server_config where
  "demo_config_1 = \<lparr>PodName = ''p'', CacheTTL = Second, MaxInflight = 1, MaxBodyBytes = 100, MaxBuffered = 1\<rparr>"

definition demo_calls :: "server_event list" where
  "demo_calls = [Admit 0 ''GET'' ''/api/v1/ping'', Shed ''GET'' ''/api/v1/stats'', Return 0 (Panicked []), Admit 1 ''GET'' ''/api/v1/items/7'']"

lemma demo_calls_exec: "\<exists>s. exec server_step (api_New demo_config_1) demo_calls = Some s \<and> length (inside s) = 1"
  by (simp add: demo_calls_def demo_config_1_def api_New_def is_probe_def instrument_def Let_def reads_def split: option.splits)

theorem admission_control_witness:
  "admitted [Admit 0 ''GET'' ''/api/v1/ping''] = returned [Admit 0 ''GET'' ''/api/v1/ping''] + nat (MaxInflight demo_config_1) \<and>
   admitted demo_calls = returned demo_calls + 1"
proof -
  obtain s where s: "exec server_step (api_New demo_config_1) demo_calls = Some s" "length (inside s) = 1"
    using demo_calls_exec by blast
  have e: "demo_calls = [Admit 0 ''GET'' ''/api/v1/ping''] @ Shed ''GET'' ''/api/v1/stats'' #
      [Return 0 (Panicked []), Admit 1 ''GET'' ''/api/v1/items/7'']"
    by (simp add: demo_calls_def)
  have "\<forall>es1 m p es2. demo_calls = es1 @ Shed m p # es2 \<longrightarrow> admitted es1 = returned es1 + nat (MaxInflight demo_config_1)"
    and "admitted demo_calls = returned demo_calls + length (inside s)"
    using admission_control [OF s(1)] by blast+
  with e s(2) show ?thesis by metis
qed

section \<open>Replies\<close>

definition status_codes :: "endpoint \<Rightarrow> int set" where
  "status_codes e = (case e of
     Ping \<Rightarrow> {200} | Stats \<Rightarrow> {200}
   | ItemsList \<Rightarrow> {200, 400, 500, 503}
   | ItemsCreate \<Rightarrow> {201, 400, 413, 500, 503}
   | ItemsGet _ \<Rightarrow> {200, 400, 404, 500, 503}
   | EventsPublish \<Rightarrow> {202, 400, 413, 503})"

lemma headers_of [simp]:
  "code (writeError c m) = c" "code (writeJSON c b) = c" "code (item_reply h raw) = 200"
  "reply_headers (writeError c m) = [(''Content-Type'', ''application/json'')]"
  "reply_headers (writeJSON c b) = [(''Content-Type'', ''application/json'')]"
  "reply_headers (item_reply h raw) = [(''Content-Type'', ''application/json''), (''X-Cache'', h)]"
  "reply_body (writeError c m) = ErrorMsg m" "reply_body (writeJSON c b) = b" "reply_body (item_reply h raw) = Raw raw"
  by (simp_all add: writeError_def writeJSON_def item_reply_def)

definition well_formed :: "endpoint \<Rightarrow> reply \<Rightarrow> bool" where
  "well_formed e r \<longleftrightarrow> code r \<in> status_codes e \<and> (''Content-Type'', ''application/json'') \<in> set (reply_headers r) \<and>
     (400 \<le> code r \<longleftrightarrow> (\<exists>m. reply_body r = ErrorMsg m))"

lemma decode_cases:
  "(\<exists>x. decode b = Inr x) \<or> (\<exists>m. decode b = Inl (writeError 413 m)) \<or> (\<exists>m. decode b = Inl (writeError 400 m))"
  by (cases b) (auto simp: decode_def)

lemma well_formed_getItem: "well_formed (ItemsGet path) (snd (getItem marshal d f path w))"
  by (auto simp: getItem_def well_formed_def status_codes_def Let_def split: option.splits sum.splits db_error.splits)

lemma well_formed_listItems: "well_formed ItemsList (listItems d f v w)"
  by (auto simp: listItems_def well_formed_def status_codes_def Let_def split: option.splits sum.splits)

lemma well_formed_createItem: "well_formed ItemsCreate (snd (createItem jsonb describe cf d f seen dbnow now fresh bod w))"
  using decode_cases [of bod]
  by (auto simp: createItem_def well_formed_def status_codes_def split: sum.splits prod.splits)

lemma well_formed_publishEvent: "well_formed EventsPublish (snd (publishEvent cf d seen now fresh bod w))"
proof (cases "decode bod")
  case (Inl r)
  then show ?thesis using decode_cases [of bod] by (auto simp: publishEvent_def well_formed_def status_codes_def)
next
  case (Inr req)
  then show ?thesis by (simp add: publishEvent_def well_formed_def status_codes_def Let_def Publish_def)
qed

lemma well_formed_stats: "well_formed Stats (snd (stats cf d up rq n fails now query w s))"
  by (auto simp: stats_def well_formed_def status_codes_def Let_def split: prod.splits)


lemma status_code_recorded: "200 \<le> code r \<Longrightarrow> (\<And>b. reply_body r = Raw b \<or> reply_body r = PingBody b \<Longrightarrow> code r = 200) \<Longrightarrow>
    final_code (reply_writes enc_len r) = code r"
  by (auto simp: reply_writes_def final_code_def recorded_def WriteHeader_def rec_Write_def split: body.splits)

end
