(* ===== verification/Service_Config.thy ===== *)
theory Service_Config
  imports Go_Strconv Float64
begin

text \<open>
  Service configuration from the environment (\<open>internal/config/config.go\<close>) with the conversions of the
  standard library it uses: \<open>time.ParseDuration\<close> (also behind the duration flags of the commands),
  \<open>strconv.ParseBool\<close> and \<open>strings.Split\<close>. The environment is a map; \<open>strconv.ParseFloat\<close> is a parameter
  (\<open>pf\<close>). Errors keep the variable they are about.
\<close>

section \<open>Splitting\<close>

text \<open>\<open>strings.Split(s, sep)\<close> with a one-byte separator.\<close>

fun split_on :: "char \<Rightarrow> string \<Rightarrow> string list" where
  "split_on c [] = [[]]"
| "split_on c (x # xs) =
     (if x = c then [] # split_on c xs
      else case split_on c xs of p # ps \<Rightarrow> (x # p) # ps | [] \<Rightarrow> [[x]])"

definition splitList :: "string \<Rightarrow> string list" where
  "splitList s = filter (\<lambda>p. p \<noteq> []) (map trim_space (split_on (CHR '','') s))"

section \<open>Durations\<close>

text \<open>\<open>leadingInt\<close>: the value of the leading digits and the rest; \<open>None\<close> on overflow.\<close>

fun leadingInt :: "nat \<Rightarrow> string \<Rightarrow> (nat \<times> string) option" where
  "leadingInt x [] = Some (x, [])"
| "leadingInt x (c # cs) =
     (case digit_value c of
        None \<Rightarrow> Some (x, c # cs)
      | Some d \<Rightarrow> if 2 ^ 63 div 10 < x then None
                   else let x = 10 * x + d in if 2 ^ 63 < x then None else leadingInt x cs)"

text \<open>\<open>leadingFraction\<close>: digits after the point; those that would overflow are skipped.\<close>

fun leadingFraction :: "nat \<Rightarrow> nat \<Rightarrow> bool \<Rightarrow> string \<Rightarrow> nat \<times> nat \<times> string" where
  "leadingFraction x scale over [] = (x, scale, [])"
| "leadingFraction x scale over (c # cs) =
     (case digit_value c of
        None \<Rightarrow> (x, scale, c # cs)
      | Some d \<Rightarrow>
          if over \<or> (2 ^ 63 - 1) div 10 < x \<or> 2 ^ 63 < 10 * x + d then leadingFraction x scale True cs
          else leadingFraction (10 * x + d) (10 * scale) False cs)"

definition unitMap :: "string \<Rightarrow> nat option" where
  "unitMap u =
     (if u = ''ns'' then Some 1
      else if u = ''us'' \<or> u = [CHR 0xC2, CHR 0xB5, CHR ''s''] \<or> u = [CHR 0xCE, CHR 0xBC, CHR ''s''] then Some 1000
      else if u = ''ms'' then Some 1000000
      else if u = ''s'' then Some 1000000000
      else if u = ''m'' then Some 60000000000
      else if u = ''h'' then Some 3600000000000
      else None)"

definition unit_char :: "char \<Rightarrow> bool" where
  "unit_char c \<longleftrightarrow> c \<noteq> CHR ''.'' \<and> digit_value c = None"

text \<open>The optional fraction after the integer part: value, scale, the rest, and whether there were digits.\<close>

definition fraction_part :: "string \<Rightarrow> nat \<times> nat \<times> string \<times> bool" where
  "fraction_part s =
     (case s of [] \<Rightarrow> (0, 1, s, False)
      | c # rest \<Rightarrow>
          if c = CHR ''.''
          then (case leadingFraction 0 1 False rest of (f, scale, s2) \<Rightarrow> (f, scale, s2, s2 \<noteq> rest))
          else (0, 1, s, False))"

text \<open>Value of a number in a unit; \<open>None\<close> on overflow.\<close>

definition in_unit :: "nat \<Rightarrow> nat \<Rightarrow> nat \<Rightarrow> nat \<Rightarrow> nat option" where
  "in_unit v f scale unit =
     (if 2 ^ 63 div unit < v then None
      else let v = v * unit;
               v = (if 0 < f then v + nat (trunc_float (f64 (f64 (real f) * f64 (real unit / real scale)))) else v) in
        if 2 ^ 63 < v then None else Some v)"

text \<open>One number with its unit, and the rest of the string.\<close>

definition duration_part :: "string \<Rightarrow> (nat \<times> string) option" where
  "duration_part s =
     (if s = [] \<or> hd s \<noteq> CHR ''.'' \<and> digit_value (hd s) = None then None
      else case leadingInt 0 s of
        None \<Rightarrow> None
      | Some (v, s1) \<Rightarrow>
          (case fraction_part s1 of (f, scale, s2, post) \<Rightarrow>
             if s1 = s \<and> \<not> post then None
             else case unitMap (takeWhile unit_char s2) of
               None \<Rightarrow> None
             | Some unit \<Rightarrow>
                 (case in_unit v f scale unit of None \<Rightarrow> None | Some v \<Rightarrow> Some (v, dropWhile unit_char s2))))"

lemma leadingInt_length: "leadingInt x s = Some (v, r) \<Longrightarrow> length r \<le> length s"
proof (induction x s rule: leadingInt.induct)
  case (2 x c cs)
  then show ?case by (cases "digit_value c") (auto simp: Let_def split: if_splits intro: le_SucI)
qed simp

lemma leadingFraction_length: "leadingFraction x sc b s = (v, t, r) \<Longrightarrow> length r \<le> length s"
proof (induction x sc b s rule: leadingFraction.induct)
  case (2 x scale over c cs)
  then show ?case by (cases "digit_value c") (auto simp del: leadingFraction.simps(1) split: if_splits intro: le_SucI)
qed simp

lemma fraction_part_length: "fraction_part s = (f, scale, r, post) \<Longrightarrow> length r \<le> length s"
  by (auto simp: fraction_part_def split: list.splits if_splits prod.splits dest!: leadingFraction_length)

lemma unit_nonempty: "unitMap u = Some n \<Longrightarrow> u \<noteq> [] \<and> 0 < n"
  by (auto simp: unitMap_def split: if_splits)

lemma unit_dropped: "unitMap (takeWhile unit_char s) = Some n \<Longrightarrow> length (dropWhile unit_char s) < length s"
  using unit_nonempty [of "takeWhile unit_char s" n]
  by (metis append_Nil length_append length_greater_0_conv less_add_same_cancel2 takeWhile_dropWhile_id)

lemma duration_part_length: "duration_part s = Some (v, r) \<Longrightarrow> length r < length s"
  by (auto simp: duration_part_def split: option.splits if_splits prod.splits
      dest!: leadingInt_length fraction_part_length unit_dropped)

text \<open>The loop of \<open>ParseDuration\<close> over the parts, adding up to at most \<open>2 ^ 63\<close>.\<close>

function duration_parts :: "nat \<Rightarrow> string \<Rightarrow> nat option" where
  "duration_parts d s =
     (if s = [] then Some d
      else case duration_part s of
        None \<Rightarrow> None
      | Some (v, r) \<Rightarrow> if 2 ^ 63 < d + v then None else duration_parts (d + v) r)"
  by pat_completeness auto

termination
  by (relation "measure (\<lambda>(d, s). length s)") (auto dest: duration_part_length)

declare duration_parts.simps [simp del]

definition ParseDuration :: "string \<Rightarrow> duration option" where
  "ParseDuration s0 =
     (let neg = (s0 \<noteq> [] \<and> hd s0 = CHR ''-'');
          s = (if s0 \<noteq> [] \<and> (hd s0 = CHR ''-'' \<or> hd s0 = CHR ''+'') then tl s0 else s0) in
      if s = ''0'' then Some 0
      else if s = [] then None
      else case duration_parts 0 s of
        None \<Rightarrow> None
      | Some d \<Rightarrow> if neg then Some (- int d) else if 2 ^ 63 - 1 < d then None else Some (int d))"

section \<open>Environment variables\<close>

type_synonym environ = "string \<Rightarrow> string option"

definition env :: "environ \<Rightarrow> string \<Rightarrow> string \<Rightarrow> string" where
  "env E key def =
     (case E key of Some v \<Rightarrow> if trim_space v \<noteq> [] then trim_space v else def | None \<Rightarrow> def)"

text \<open>The second component is the error, named by the variable.\<close>

definition env_as :: "(string \<Rightarrow> 'a option) \<Rightarrow> environ \<Rightarrow> string \<Rightarrow> 'a \<Rightarrow> 'a \<times> string option" where
  "env_as parse E key def =
     (let v = env E key [] in
      if v = [] then (def, None) else case parse v of None \<Rightarrow> (def, Some key) | Some x \<Rightarrow> (x, None))"

definition ParseBool :: "string \<Rightarrow> bool option" where
  "ParseBool s =
     (if s \<in> set [''1'', ''t'', ''T'', ''true'', ''TRUE'', ''True''] then Some True
      else if s \<in> set [''0'', ''f'', ''F'', ''false'', ''FALSE'', ''False''] then Some False
      else None)"

definition envInt :: "environ \<Rightarrow> string \<Rightarrow> int \<Rightarrow> int \<times> string option" where
  "envInt = env_as ParseInt"

definition envFloat :: "(string \<Rightarrow> real option) \<Rightarrow> environ \<Rightarrow> string \<Rightarrow> real \<Rightarrow> real \<times> string option" where
  "envFloat pf = env_as pf"

definition envBool :: "environ \<Rightarrow> string \<Rightarrow> bool \<Rightarrow> bool \<times> string option" where
  "envBool = env_as ParseBool"

definition envDuration :: "environ \<Rightarrow> string \<Rightarrow> duration \<Rightarrow> duration \<times> string option" where
  "envDuration = env_as ParseDuration"

section \<open>Load\<close>

record service_config =
  ServiceName :: string
  sc_PodName :: string
  HTTPAddr :: string
  GRPCAddr :: string
  MetricsAddr :: string
  DatabaseURL :: string
  DBMaxConns :: int
  MigrateOnStart :: bool
  RedisAddr :: string
  RedisPassword :: string
  RedisTLS :: bool
  RedisPoolSize :: int
  sc_CacheTTL :: duration
  KafkaBrokers :: "string list"
  KafkaTopic :: string
  KafkaPartitions :: int
  KafkaGroupID :: string
  sc_MaxInflight :: int
  sc_MaxBodyBytes :: int
  ShutdownTimeout :: duration
  LogLevel :: string
  LogSampleRate :: real
  OTLPEndpoint :: string
  TraceSampleRatio :: real
  WorkerFlushInterval :: duration
  WorkerFlushSize :: int

datatype load_error = BadVar string | MaxInflightRange | KafkaPartitionsRange

definition i32 :: "int \<Rightarrow> int" where
  "i32 x = (x + 2 ^ 31) mod 2 ^ 32 - 2 ^ 31"

text \<open>\<open>must\<close>: an error becomes one entry of \<open>errs\<close>.\<close>

definition must :: "string option \<Rightarrow> load_error list" where
  "must e = (case e of None \<Rightarrow> [] | Some k \<Rightarrow> [BadVar k])"

definition hostname :: "string option \<Rightarrow> string" where
  "hostname h = (case h of None \<Rightarrow> ''unknown'' | Some n \<Rightarrow> n)"

text \<open>The result is the configuration with the errors; an empty list means that \<open>Load\<close> returned no error.\<close>

definition Load :: "(string \<Rightarrow> real option) \<Rightarrow> string option \<Rightarrow> environ \<Rightarrow> string \<Rightarrow> service_config \<times> load_error list" where
  "Load pf host E serviceName =
     (let (dbMax, e1) = envInt E ''DB_MAX_CONNS'' 10;
          (pool, e2) = envInt E ''REDIS_POOL_SIZE'' 64;
          (parts, e3) = envInt E ''KAFKA_PARTITIONS'' 12;
          (infl, e4) = envInt E ''MAX_INFLIGHT'' 20000;
          (fsize, e5) = envInt E ''WORKER_FLUSH_SIZE'' 5000;
          (migrate, e6) = envBool E ''MIGRATE_ON_START'' False;
          (rtls, e7) = envBool E ''REDIS_TLS'' False;
          (ttl, e8) = envDuration E ''CACHE_TTL'' (60 * Second);
          (shut, e9) = envDuration E ''SHUTDOWN_TIMEOUT'' (20 * Second);
          (fint, e10) = envDuration E ''WORKER_FLUSH_INTERVAL'' (2 * Second);
          (logr, e11) = envFloat pf E ''LOG_SAMPLE_RATE'' (f64 0.001);
          (trace, e12) = envFloat pf E ''TRACE_SAMPLE_RATIO'' (f64 0.01) in
      (\<lparr>ServiceName = env E ''OTEL_SERVICE_NAME'' serviceName, sc_PodName = env E ''POD_NAME'' (hostname host),
        HTTPAddr = env E ''HTTP_ADDR'' '':8080'', GRPCAddr = env E ''GRPC_ADDR'' '':9090'',
        MetricsAddr = env E ''METRICS_ADDR'' '':9102'', DatabaseURL = env E ''DATABASE_URL'' [],
        DBMaxConns = i32 dbMax, MigrateOnStart = migrate, RedisAddr = env E ''REDIS_ADDR'' [],
        RedisPassword = env E ''REDIS_PASSWORD'' [], RedisTLS = rtls, RedisPoolSize = pool, sc_CacheTTL = ttl,
        KafkaBrokers = splitList (env E ''KAFKA_BROKERS'' []), KafkaTopic = env E ''KAFKA_TOPIC'' ''titan.events'',
        KafkaPartitions = parts, KafkaGroupID = env E ''KAFKA_GROUP_ID'' ''titan-worker'', sc_MaxInflight = infl,
        sc_MaxBodyBytes = 2 ^ 20, ShutdownTimeout = shut, LogLevel = env E ''LOG_LEVEL'' ''info'',
        LogSampleRate = logr, OTLPEndpoint = env E ''OTEL_EXPORTER_OTLP_ENDPOINT'' [], TraceSampleRatio = trace,
        WorkerFlushInterval = fint, WorkerFlushSize = fsize\<rparr>,
       concat (map must [e1, e2, e3, e4, e5, e6, e7, e8, e9, e10, e11, e12]) @
       (if infl < 1 then [MaxInflightRange] else []) @ (if parts < 1 then [KafkaPartitionsRange] else [])))"

section \<open>Durations are read as they are written\<close>

definition print_part :: "nat \<times> string \<Rightarrow> string" where
  "print_part p = digits_of (fst p) @ snd p"

definition part_value :: "nat \<times> string \<Rightarrow> nat" where
  "part_value p = fst p * (case unitMap (snd p) of None \<Rightarrow> 0 | Some u \<Rightarrow> u)"

definition starts_number :: "string \<Rightarrow> bool" where
  "starts_number r \<longleftrightarrow> r = [] \<or> digit_value (hd r) \<noteq> None"

lemma parse_digits_ge: "parse_digits acc ds = Some n \<Longrightarrow> acc \<le> n"
  by (induction acc ds rule: parse_digits.induct) (fastforce split: option.splits)+

lemma leadingInt_digits:
  assumes "parse_digits x ds = Some n" "n \<le> 2 ^ 63" "r = [] \<or> digit_value (hd r) = None"
  shows "leadingInt x (ds @ r) = Some (n, r)"
  using assms
proof (induction x ds rule: parse_digits.induct)
  case (1 x)
  then show ?case by (cases r) auto
next
  case (2 x c cs)
  then obtain d where d: "digit_value c = Some d" "parse_digits (10 * x + d) cs = Some n"
    by (auto split: option.splits)
  then have "10 * x + d \<le> 2 ^ 63" using parse_digits_ge "2.prems"(2) by (meson order_trans)
  then have "\<not> 2 ^ 63 div 10 < x" "\<not> 2 ^ 63 < 10 * x + d" by linarith+
  with d 2 show ?case by (simp add: Let_def)
qed

lemma unit_chars: "unitMap u = Some k \<Longrightarrow> list_all unit_char u"
  by (auto simp: unitMap_def unit_char_def digit_value_def split: if_splits)

lemma takeWhile_unit:
  assumes "list_all unit_char u" "starts_number r"
  shows "takeWhile unit_char (u @ r) = u" "dropWhile unit_char (u @ r) = r"
proof -
  have r: "takeWhile unit_char r = []" "dropWhile unit_char r = r"
    using assms(2) by (cases r; auto simp: starts_number_def unit_char_def)+
  have u: "\<And>x. x \<in> set u \<Longrightarrow> unit_char x" using assms(1) by (simp add: list_all_iff)
  show "takeWhile unit_char (u @ r) = u" using u r by (simp add: takeWhile_append2)
  show "dropWhile unit_char (u @ r) = r" using u r by (simp add: dropWhile_append2)
qed

lemma hd_digit_value: "digit_value (hd (digits_of n)) \<noteq> None"
  using hd_digits_of [of n] by auto

lemma duration_part_print:
  assumes u: "unitMap u = Some k" and n: "n * k \<le> 2 ^ 63" and r: "starts_number r"
  shows "duration_part (digits_of n @ u @ r) = Some (n * k, r)"
proof -
  have k: "0 < k" "u \<noteq> []" using unit_nonempty [OF u] by auto
  have uc: "unit_char (hd (u @ r))" using unit_chars [OF u] k by (cases u) auto
  have "n \<le> n * k" using k by simp
  then have "n \<le> 2 ^ 63" using n by (rule order_trans)
  then have "leadingInt 0 (digits_of n @ (u @ r)) = Some (n, u @ r)"
    using uc k by (intro leadingInt_digits parse_digits_of) (auto simp: unit_char_def)
  moreover have "fraction_part (u @ r) = (0, 1, u @ r, False)"
    using uc k by (cases u) (auto simp: fraction_part_def unit_char_def)
  moreover have "in_unit n 0 1 k = Some (n * k)"
  proof -
    have "n \<le> 2 ^ 63 div k" using n k(1) by (simp add: less_eq_div_iff_mult_less_eq)
    then show ?thesis using n by (simp add: in_unit_def)
  qed
  ultimately show ?thesis
    using takeWhile_unit [OF unit_chars [OF u] r] u hd_digit_value [of n]
    by (simp add: duration_part_def hd_append)
qed

lemma starts_number_print: "starts_number (concat (map print_part ps))"
  using hd_digit_value by (cases ps) (auto simp: starts_number_def print_part_def hd_append)

lemma duration_parts_print:
  assumes "list_all (\<lambda>p. unitMap (snd p) \<noteq> None) ps" "d + sum_list (map part_value ps) \<le> 2 ^ 63"
  shows "duration_parts d (concat (map print_part ps)) = Some (d + sum_list (map part_value ps))"
  using assms
proof (induction ps arbitrary: d)
  case Nil
  then show ?case by (simp add: duration_parts.simps)
next
  case (Cons p ps)
  then obtain k where k: "unitMap (snd p) = Some k" by auto
  let ?r = "concat (map print_part ps)"
  have v: "part_value p = fst p * k" using k by (simp add: part_value_def)
  have "duration_part (digits_of (fst p) @ snd p @ ?r) = Some (fst p * k, ?r)"
    using k Cons.prems(2) v starts_number_print by (intro duration_part_print) auto
  moreover have "duration_parts (d + part_value p) ?r = Some (d + part_value p + sum_list (map part_value ps))"
    using Cons.prems by (intro Cons.IH) auto
  ultimately show ?case using Cons.prems(2) v
    by (subst duration_parts.simps) (simp add: print_part_def add.assoc)
qed

lemma digits_not_sign: "hd (digits_of n) \<noteq> CHR ''-''" "hd (digits_of n) \<noteq> CHR ''+''"
  using hd_digits_of [of n] digit_not_sign by metis+

lemma unit_in_print:
  assumes "ps \<noteq> []" "list_all (\<lambda>p. unitMap (snd p) \<noteq> None) ps"
  shows "concat (map print_part ps) \<noteq> [] \<and> concat (map print_part ps) \<noteq> ''0''"
proof -
  obtain p qs where p: "ps = p # qs" using assms(1) by (cases ps) auto
  obtain k where "unitMap (snd p) = Some k" using assms(2) p by auto
  then have "snd p \<noteq> []" using unit_nonempty by blast
  then have "2 \<le> length (print_part p)"
    using digits_of_nonempty [of "fst p"] by (cases "snd p"; cases "digits_of (fst p)") (auto simp: print_part_def)
  then show ?thesis using p by (auto simp: Cons_eq_append_conv append_eq_Cons_conv)
qed



section \<open>Lists\<close>

lemma split_on_word: "c \<notin> set w \<Longrightarrow> split_on c (w @ c # r) = w # split_on c r"
  by (induction w) auto

lemma split_on_last: "c \<notin> set w \<Longrightarrow> split_on c w = [w]"
  by (induction w) auto

definition join_comma :: "string list \<Rightarrow> string" where
  "join_comma ws = concat (map (\<lambda>w. w @ '','') ws)"

lemma splitList_join:
  "list_all (\<lambda>w. w \<noteq> [] \<and> trim_space w = w \<and> CHR '','' \<notin> set w) ws \<Longrightarrow> splitList (join_comma ws) = ws"
  by (induction ws) (auto simp: splitList_def join_comma_def split_on_word trim_space_def)

lemma splitList_trimmed: "w \<in> set (splitList s) \<Longrightarrow> w \<noteq> []"
  by (auto simp: splitList_def)

section \<open>What Load accepts\<close>

definition var_parses :: "(string \<Rightarrow> real option) \<Rightarrow> string \<Rightarrow> string \<Rightarrow> bool" where
  "var_parses pf k v =
     (if k \<in> set [''DB_MAX_CONNS'', ''REDIS_POOL_SIZE'', ''KAFKA_PARTITIONS'', ''MAX_INFLIGHT'', ''WORKER_FLUSH_SIZE''] then ParseInt v \<noteq> None
      else if k \<in> set [''MIGRATE_ON_START'', ''REDIS_TLS''] then ParseBool v \<noteq> None
      else if k \<in> set [''CACHE_TTL'', ''SHUTDOWN_TIMEOUT'', ''WORKER_FLUSH_INTERVAL''] then ParseDuration v \<noteq> None
      else if k \<in> set [''LOG_SAMPLE_RATE'', ''TRACE_SAMPLE_RATIO''] then pf v \<noteq> None
      else True)"

lemma must_env_as [simp]:
  "x \<in> set (must (snd (env_as p E key d))) \<longleftrightarrow> x = BadVar key \<and> env E key [] \<noteq> [] \<and> p (env E key []) = None"
  by (auto simp: must_def env_as_def Let_def split: option.splits)

lemma bad_vars:
  "BadVar k \<in> set (snd (Load pf host E svc)) \<longleftrightarrow> env E k [] \<noteq> [] \<and> \<not> var_parses pf k (env E k [])"
proof -
  have "BadVar k \<in> set (snd (Load pf host E svc)) \<longleftrightarrow> (\<exists>(key, p) \<in> set (
      map (\<lambda>key. (key, \<lambda>v. ParseInt v = None)) [''DB_MAX_CONNS'', ''REDIS_POOL_SIZE'', ''KAFKA_PARTITIONS'', ''MAX_INFLIGHT'', ''WORKER_FLUSH_SIZE''] @
      map (\<lambda>key. (key, \<lambda>v. ParseBool v = None)) [''MIGRATE_ON_START'', ''REDIS_TLS''] @
      map (\<lambda>key. (key, \<lambda>v. ParseDuration v = None)) [''CACHE_TTL'', ''SHUTDOWN_TIMEOUT'', ''WORKER_FLUSH_INTERVAL''] @
      map (\<lambda>key. (key, \<lambda>v. pf v = None)) [''LOG_SAMPLE_RATE'', ''TRACE_SAMPLE_RATIO'']).
      k = key \<and> env E key [] \<noteq> [] \<and> p (env E key []))"
    by (simp add: Load_def case_prod_beta Let_def envInt_def envBool_def envDuration_def envFloat_def)
  also have "\<dots> \<longleftrightarrow> env E k [] \<noteq> [] \<and> \<not> var_parses pf k (env E k [])"
    by (auto simp: var_parses_def)
  finally show ?thesis .
qed

lemma load_ranges:
  "MaxInflightRange \<in> set (snd (Load pf host E svc)) \<longleftrightarrow> sc_MaxInflight (fst (Load pf host E svc)) < 1"
  "KafkaPartitionsRange \<in> set (snd (Load pf host E svc)) \<longleftrightarrow> KafkaPartitions (fst (Load pf host E svc)) < 1"
  by (simp_all add: Load_def case_prod_beta Let_def envInt_def envBool_def envDuration_def envFloat_def)

text \<open>C33: Loading reports every mistake and accepts nothing else: a variable is complained about exactly
  when it is set to text its type rejects, the two range errors appear exactly when the value is below
  one, and a configuration loaded without error admits at least one request and has a partition.\<close>

theorem load_reports_every_error:
  "(BadVar k \<in> set (snd (Load pf host E svc)) \<longleftrightarrow> env E k [] \<noteq> [] \<and> \<not> var_parses pf k (env E k [])) \<and>
   (MaxInflightRange \<in> set (snd (Load pf host E svc)) \<longleftrightarrow> sc_MaxInflight (fst (Load pf host E svc)) < 1) \<and>
   (KafkaPartitionsRange \<in> set (snd (Load pf host E svc)) \<longleftrightarrow> KafkaPartitions (fst (Load pf host E svc)) < 1)"
  by (intro conjI bad_vars load_ranges)

text \<open>The connection limit is cut to 32 bits after it was accepted: \<open>4294967306\<close> connections are loaded as 10.\<close>

lemma env_as_unset: "E key = None \<Longrightarrow> env_as p E key d = (d, None)"
  by (simp add: env_as_def env_def)

lemma db_max_conns_truncated:
  fixes E :: environ
  assumes "E ''DB_MAX_CONNS'' = Some ''4294967306''" "\<And>k. k \<noteq> ''DB_MAX_CONNS'' \<Longrightarrow> E k = None"
  shows "snd (Load pf host E svc) = [] \<and> DBMaxConns (fst (Load pf host E svc)) = 10"
proof -
  have "ParseInt ''4294967306'' = Some 4294967306" "trim_space ''4294967306'' = ''4294967306''"
    by (simp_all add: ParseInt_def parse_magnitude_def digit_value_def in_i64_def trim_space_def is_space_def)
  then have "env_as ParseInt E ''DB_MAX_CONNS'' 10 = (4294967306, None)" using assms(1) by (simp add: env_as_def env_def)
  then show ?thesis
    by (simp add: Load_def envInt_def envBool_def envDuration_def envFloat_def env_as_unset assms(2) must_def i32_def)
qed

end
