(* ===== verification/Clients.thy ===== *)
theory Clients
  imports Service_Config
begin

text \<open>
  The settings with which the services construct their clients: \<open>NewPostgres\<close> (\<open>store.go\<close>), \<open>NewRedis\<close>
  (\<open>cache.go\<close>), \<open>NewKafka\<close> (\<open>events.go\<close>) and \<open>NewConsumer\<close> (\<open>worker.go\<close>). The client libraries are outside; a
  constructor that can fail takes the answer of the library as an argument.
\<close>

section \<open>PostgreSQL\<close>

record pool_config =
  MaxConns :: int
  MinConns :: int
  MaxConnIdleTime :: duration
  MaxConnLifetime :: duration
  HealthCheckPeriod :: duration
  cache_statements :: bool

datatype pool_error = ParseFailed | PoolFailed

text \<open>\<open>parsed\<close> tells whether \<open>pgxpool.ParseConfig\<close> accepted the URL, \<open>opened\<close> is \<open>NewWithConfig\<close>.\<close>

definition NewPostgres :: "bool \<Rightarrow> (pool_config \<Rightarrow> bool) \<Rightarrow> int \<Rightarrow> pool_error + pool_config" where
  "NewPostgres parsed opened maxConns =
     (if \<not> parsed then Inl ParseFailed
      else let cfg = \<lparr>MaxConns = maxConns, MinConns = min 2 maxConns, MaxConnIdleTime = 5 * Minute,
                 MaxConnLifetime = 30 * Minute, HealthCheckPeriod = 30 * Second, cache_statements = True\<rparr> in
        if opened cfg then Inr cfg else Inl PoolFailed)"

section \<open>Redis\<close>

record redis_options =
  ro_Addr :: string
  ro_Password :: string
  PoolSize :: int
  MinIdleConns :: int
  DialTimeout :: duration
  ReadTimeout :: duration
  WriteTimeout :: duration
  PoolTimeout :: duration
  ConnMaxIdleTime :: duration
  ro_TLS :: "string option"

definition NewRedis :: "string \<Rightarrow> string \<Rightarrow> int \<Rightarrow> bool \<Rightarrow> redis_options" where
  "NewRedis addr password poolSize useTLS =
     (let opts = \<lparr>ro_Addr = addr, ro_Password = password, PoolSize = poolSize, MinIdleConns = min 8 poolSize,
            DialTimeout = 2 * Second, ReadTimeout = 250 * Millisecond, WriteTimeout = 250 * Millisecond,
            PoolTimeout = 500 * Millisecond, ConnMaxIdleTime = 5 * Minute, ro_TLS = None\<rparr> in
      if useTLS then opts\<lparr>ro_TLS := Some ''1.2''\<rparr> else opts)"

section \<open>Kafka\<close>

datatype acks = LeaderAck | AllISRAcks

datatype partitioner = StickyKeyPartitioner | RoundRobinPartitioner

record producer_options =
  po_brokers :: "string list"
  po_topic :: string
  po_linger :: duration
  po_compression :: "string list"
  po_acks :: acks
  po_idempotent :: bool
  po_maxBuffered :: int
  po_partitioner :: partitioner
  po_client :: string

record kafka =
  kafka_options :: producer_options
  kafka_topic :: string
  maxBuffered :: int

definition NewKafka :: "(producer_options \<Rightarrow> bool) \<Rightarrow> string list \<Rightarrow> string \<Rightarrow> int \<Rightarrow> kafka option" where
  "NewKafka created brokers topic limit =
     (let opts = \<lparr>po_brokers = brokers, po_topic = topic, po_linger = 5 * Millisecond, po_compression = [''snappy'', ''none''],
            po_acks = LeaderAck, po_idempotent = False, po_maxBuffered = limit,
            po_partitioner = StickyKeyPartitioner, po_client = ''titan-api''\<rparr> in
      if created opts then Some \<lparr>kafka_options = opts, kafka_topic = topic, maxBuffered = limit\<rparr> else None)"

record group_options =
  go_brokers :: "string list"
  go_group :: string
  go_topic :: string
  go_autocommit :: bool
  go_block_rebalance :: bool
  go_max_wait :: duration
  go_client :: string
  go_from_start :: bool

definition NewConsumer :: "(group_options \<Rightarrow> bool) \<Rightarrow> service_config \<Rightarrow> group_options option" where
  "NewConsumer created c =
     (let opts = \<lparr>go_brokers = KafkaBrokers c, go_group = KafkaGroupID c, go_topic = KafkaTopic c, go_autocommit = False,
            go_block_rebalance = True, go_max_wait = 500 * Millisecond, go_client = ''titan-worker-'' @ sc_PodName c,
            go_from_start = True\<rparr> in
      if created opts then Some opts else None)"

section \<open>What the settings guarantee\<close>

text \<open>Producer and consumer of one configuration meet at the same topic; the producer refuses exactly where
  the library would start to drop; the consumer reads from the start and commits only explicitly, which is
  what the delivery guarantees of the consumer rest on.\<close>

lemma producer_limits_agree: "NewKafka created brokers topic limit = Some k \<Longrightarrow> maxBuffered k = po_maxBuffered (kafka_options k)"
  by (auto simp: NewKafka_def Let_def split: if_splits)

lemma same_topic:
  assumes "NewKafka p (KafkaBrokers c) (KafkaTopic c) limit = Some k" "NewConsumer g c = Some o'"
  shows "po_topic (kafka_options k) = go_topic o'" "po_brokers (kafka_options k) = go_brokers o'" "\<not> go_autocommit o'" "go_from_start o'"
  using assms by (auto simp: NewKafka_def NewConsumer_def Let_def split: if_splits)

text \<open>The pools never keep more idle connections than they may open.\<close>

lemma pool_sizes:
  "NewPostgres parsed opened n = Inr cfg \<Longrightarrow> MinConns cfg \<le> MaxConns cfg"
  "MinIdleConns (NewRedis addr password n tls) \<le> PoolSize (NewRedis addr password n tls)"
  by (auto simp: NewPostgres_def NewRedis_def Let_def split: if_splits)

end
