(* ===== verification/Producer.thy ===== *)
theory Producer
  imports Clients Api
begin

text \<open>
  The event producer of \<open>internal/events/events.go\<close> as a machine of its own: \<open>Publish\<close> is two actions, reading
  the buffer level and handing the record to the client, between which other requests run; the client calls
  back once per record; \<open>Close\<close> flushes for at most five seconds. The counters are the metric
  \<open>titan_kafka_published_total\<close>. Also the result labels of the cache and database metrics, and the random ids.
\<close>

section \<open>Identifiers\<close>

definition hex_digit :: "nat \<Rightarrow> char" where
  "hex_digit d = (if d < 10 then char_of (48 + d) else char_of (87 + d))"

text \<open>\<open>hex.EncodeToString\<close>\<close>

definition hex_encode :: "8 word list \<Rightarrow> string" where
  "hex_encode bs = concat (map (\<lambda>b. [hex_digit (unat b div 16), hex_digit (unat b mod 16)]) bs)"

text \<open>\<open>NewID\<close>; \<open>random\<close> is what \<open>rand.Read\<close> fills the sixteen bytes with.\<close>

definition NewID :: "(nat \<Rightarrow> 8 word) \<Rightarrow> string" where
  "NewID random = hex_encode (map random [0..<16])"

definition hex_value :: "char \<Rightarrow> nat" where
  "hex_value c = (let n = of_char c :: nat in if n < 58 then n - 48 else n - 87)"

fun hex_decode :: "string \<Rightarrow> 8 word list" where
  "hex_decode (a # b # cs) = of_nat (16 * hex_value a + hex_value b) # hex_decode cs"
| "hex_decode _ = []"

lemma hex_value_digit: "d < 16 \<Longrightarrow> hex_value (hex_digit d) = d"
  by (auto simp: hex_value_def hex_digit_def Let_def)

lemma hex_roundtrip: "hex_decode (hex_encode bs) = bs"
proof (induction bs)
  case (Cons b bs)
  have "unat b < 2 ^ LENGTH(8)" by (rule unsigned_less)
  then have "unat b div 16 < 16" "unat b mod 16 < 16" by simp_all
  then have "of_nat (16 * hex_value (hex_digit (unat b div 16)) + hex_value (hex_digit (unat b mod 16))) = b"
    by (simp only: hex_value_digit mult_div_mod_eq of_nat_unat ucast_id)
  with Cons show ?case by (simp add: hex_encode_def)
qed (simp add: hex_encode_def)

text \<open>Two ids are equal only when all 128 random bits are; an id is 32 characters long.\<close>

lemma NewID_inject: "NewID r = NewID r' \<longleftrightarrow> (\<forall>i < 16. r i = r' i)"
proof -
  have "NewID r = NewID r' \<longleftrightarrow> map r [0..<16] = map r' [0..<16]" unfolding NewID_def by (metis hex_roundtrip)
  then show ?thesis by (simp only: map_eq_conv set_upt) auto
qed

lemma length_hex_encode: "length (hex_encode bs) = 2 * length bs"
  by (induction bs) (simp_all add: hex_encode_def)

lemma length_NewID: "length (NewID r) = 32"
  by (simp add: NewID_def length_hex_encode)

section \<open>Result labels\<close>

text \<open>\<open>observe\<close> of \<open>store.go\<close>: a missing row is not an error of the database.\<close>

definition observe_result :: "db_error option \<Rightarrow> string" where
  "observe_result err = (if err \<noteq> None \<and> err \<noteq> Some ErrNotFound then ''error'' else ''ok'')"

text \<open>\<open>Redis.Get\<close>: the outcome of a lookup as the metric counts it.\<close>

definition cache_result :: "string option option \<Rightarrow> string" where
  "cache_result r = (case r of None \<Rightarrow> ''error'' | Some None \<Rightarrow> ''miss'' | Some (Some v) \<Rightarrow> ''hit'')"

lemma result_labels:
  "cache_result (cache_Get fail key w) = ''error'' \<longleftrightarrow> fail"
  "observe_result (case GetItem fail i w of Inl e \<Rightarrow> Some e | Inr it \<Rightarrow> None) = ''error'' \<longleftrightarrow> fail"
  by (auto simp: cache_result_def cache_Get_def observe_result_def GetItem_def split: option.splits)

section \<open>The producer\<close>

record producer =
  bound :: int
  entering :: nat
  in_buffer :: nat
  flushing :: bool
  shut :: bool
  n_ok :: nat
  n_error :: nat
  n_backpressure :: nat

definition producer_of :: "kafka \<Rightarrow> producer" where
  "producer_of k = \<lparr>bound = maxBuffered k, entering = 0, in_buffer = 0, flushing = False, shut = False, n_ok = 0, n_error = 0, n_backpressure = 0\<rparr>"

datatype kafka_error = ErrMaxBuffered | OtherError

text \<open>The callback of \<open>TryProduce\<close>.\<close>

definition delivered :: "kafka_error option \<Rightarrow> producer \<Rightarrow> producer" where
  "delivered err p =
     (case err of
        Some ErrMaxBuffered \<Rightarrow> p\<lparr>n_backpressure := n_backpressure p + 1\<rparr>
      | Some OtherError \<Rightarrow> p\<lparr>n_error := n_error p + 1\<rparr>
      | None \<Rightarrow> p\<lparr>n_ok := n_ok p + 1\<rparr>)"

datatype (discs_sels) pevent =
    PublishCalled
  | TryProduced
  | Callback "kafka_error option"
  | CloseCalled
  | FlushEnded
  | ClientClosed

text \<open>The client accepts a record while it is open and has room, and fails it at once otherwise; it calls back
  once for every record it accepted, with an error for what is left when it is closed. \<open>Flush\<close> ends when the
  buffer is empty or after five seconds.\<close>

fun producer_step :: "producer \<Rightarrow> pevent \<Rightarrow> producer option" where
  "producer_step p PublishCalled =
     Some (if bound p \<le> int (in_buffer p) then p\<lparr>n_backpressure := n_backpressure p + 1\<rparr> else p\<lparr>entering := entering p + 1\<rparr>)"
| "producer_step p TryProduced =
     guard (0 < entering p)
       (let p = p\<lparr>entering := entering p - 1\<rparr> in
        if shut p then delivered (Some OtherError) p
        else if bound p \<le> int (in_buffer p) then delivered (Some ErrMaxBuffered) p
        else p\<lparr>in_buffer := in_buffer p + 1\<rparr>)"
| "producer_step p (Callback err) =
     guard (0 < in_buffer p \<and> err \<noteq> Some ErrMaxBuffered) (delivered err (p\<lparr>in_buffer := in_buffer p - 1\<rparr>))"
| "producer_step p CloseCalled = guard (\<not> flushing p \<and> \<not> shut p) (p\<lparr>flushing := True\<rparr>)"
| "producer_step p FlushEnded = guard (flushing p) (p\<lparr>flushing := False, shut := True\<rparr>)"
| "producer_step p ClientClosed = guard (shut p) (p\<lparr>in_buffer := 0, n_error := n_error p + in_buffer p\<rparr>)"

definition published :: "producer \<Rightarrow> nat" where
  "published p = n_ok p + n_error p + n_backpressure p"

definition accounted :: "producer \<Rightarrow> pevent list \<Rightarrow> producer \<Rightarrow> bool" where
  "accounted p0 es p \<longleftrightarrow> bound p = bound p0 \<and> int (in_buffer p) \<le> max 0 (bound p) \<and>
     count_list es PublishCalled = published p + entering p + in_buffer p"

lemma accounted_step:
  assumes "accounted p0 es p" "producer_step p ev = Some p'"
  shows "accounted p0 (es @ [ev]) p'"
  using assms
  by (cases ev) (auto simp: accounted_def published_def delivered_def guard_def Let_def split: if_splits option.splits kafka_error.splits)

interpretation producing: machine producer_step "\<lambda>p. \<exists>k. p = producer_of k" accounted
proof (unfold_locales, goal_cases)
  case (1 p)
  then show ?case by (auto simp: accounted_def producer_of_def published_def)
qed (rule accounted_step)

text \<open>C28: The metric is exact: at every moment each call of \<open>Publish\<close> is either counted under exactly one result,
  or its record is still on the way, and the buffer never holds more records than its bound; once the
  client is closed and the last request is through, the results add up to the number of calls.\<close>

theorem publish_accounting:
  assumes "exec producer_step (producer_of k) es = Some p"
  shows "count_list es PublishCalled = published p + entering p + in_buffer p \<and> int (in_buffer p) \<le> max 0 (maxBuffered k) \<and>
    (entering p = 0 \<and> last es = ClientClosed \<and> es \<noteq> [] \<longrightarrow> published p = count_list es PublishCalled)"
proof -
  have a: "accounted (producer_of k) es p" using producing.inv_exec [OF _ assms] by blast
  have "in_buffer p = 0" if "es \<noteq> []" "last es = ClientClosed"
  proof -
    obtain fs where "es = fs @ [ClientClosed]" using \<open>es \<noteq> []\<close> \<open>last es = ClientClosed\<close> by (metis append_butlast_last_id)
    then obtain q where "producer_step q ClientClosed = Some p" using assms by (auto simp: exec_snoc)
    then show ?thesis by (auto simp: guard_def split: if_splits)
  qed
  with a show ?thesis by (auto simp: accounted_def producer_of_def)
qed

definition demo_kafka :: kafka where
  "demo_kafka = \<lparr>kafka_options = \<lparr>po_brokers = [''k1''], po_topic = ''t'', po_linger = 0, po_compression = [], po_acks = LeaderAck,
     po_idempotent = False, po_maxBuffered = 1, po_partitioner = StickyKeyPartitioner, po_client = ''c''\<rparr>, kafka_topic = ''t'', maxBuffered = 1\<rparr>"

theorem publish_accounting_witness:
  "\<exists>p. exec producer_step (producer_of demo_kafka)
     [PublishCalled, PublishCalled, TryProduced, TryProduced, PublishCalled, Callback None, PublishCalled, TryProduced, CloseCalled, FlushEnded, ClientClosed]
     = Some p \<and> published p = 4 \<and> n_ok p = 1 \<and> n_backpressure p = 2"
proof -
  let ?es = "[PublishCalled, PublishCalled, TryProduced, TryProduced, PublishCalled, Callback None, PublishCalled, TryProduced, CloseCalled, FlushEnded, ClientClosed]"
  have "\<exists>p. exec producer_step (producer_of demo_kafka) ?es = Some p \<and> entering p = 0 \<and> n_ok p = 1 \<and> n_backpressure p = 2"
    by (simp add: producer_of_def demo_kafka_def guard_def delivered_def)
  then obtain p where p: "exec producer_step (producer_of demo_kafka) ?es = Some p" "entering p = 0" "n_ok p = 1" "n_backpressure p = 2" by blast
  have "published p = count_list ?es PublishCalled"
    by (rule conjunct2 [OF conjunct2 [OF publish_accounting [OF p(1)]], rule_format]) (simp add: p(2))
  then have "published p = 4" by simp
  with p show ?thesis by blast
qed

end
