(* ===== verification/Item_List.thy ===== *)
theory Item_List
  imports Api_State
begin

text \<open>
  What \<open>GET /api/v1/items\<close> returns (\<open>listItems\<close> of \<open>handlers.go\<close> over \<open>ListItems\<close> of \<open>store.go\<close>): in every state
  the API can reach, the newest rows of the table, newest first, each once, and as many as were asked for;
  and never a shortened list when the database fails on the way.
\<close>

section \<open>The rows of the table\<close>

text \<open>Every row is stored under its id, and the ids are those the sequence has handed out.\<close>

definition rows_ok :: "world \<Rightarrow> bool" where
  "rows_ok w \<longleftrightarrow> (\<forall>n it. items w n = Some it \<longrightarrow> it_ID it = n \<and> 1 \<le> n \<and> n < next_id w) \<and> 1 \<le> next_id w"

lemma rows_ok_same: "rows_ok w \<Longrightarrow> items w' = items w \<Longrightarrow> next_id w' = next_id w \<Longrightarrow> rows_ok w'"
  by (simp add: rows_ok_def)

lemma rows_ok_CreateItem: "rows_ok w \<Longrightarrow> rows_ok (fst (CreateItem jsonb f dbnow name payload w))"
  by (fastforce simp: rows_ok_def CreateItem_def Let_def)

lemma getItem_rows [simp]:
  "items (fst (getItem marshal d f path w)) = items w" "next_id (fst (getItem marshal d f path w)) = next_id w"
  by (auto simp: getItem_def Let_def split: option.splits sum.splits db_error.splits)

lemma incr_rows [simp]: "items (fold incr_kv cs w) = items w" "next_id (fold incr_kv cs w) = next_id w"
proof -
  have "items (incr_kv c w) = items w \<and> next_id (incr_kv c w) = next_id w" for c w
    by (cases c) (auto simp: incr_kv_def split: option.splits)
  then show "items (fold incr_kv cs w) = items w" "next_id (fold incr_kv cs w) = next_id w"
    by (induction cs arbitrary: w) auto
qed

lemma rows_ok_createItem:
  assumes "rows_ok w"
  shows "rows_ok (fst (createItem jsonb describe cf d f seen dbnow now fresh bod w))"
proof (cases "decode bod")
  case (Inr req)
  obtain w' r where c: "CreateItem jsonb f dbnow (cr_Name req) (cr_Payload req) w = (w', r)" by fastforce
  then have "rows_ok w'" using rows_ok_CreateItem [OF assms, of jsonb f dbnow "cr_Name req" "cr_Payload req"] by simp
  then show ?thesis using assms c Inr by (auto simp: createItem_def intro: rows_ok_same split: sum.splits)
qed (use assms in \<open>simp add: createItem_def\<close>)

lemma rows_ok_step:
  assumes "rows_ok w" "api_step marshal jsonb describe cf d w ev = Some w'"
  shows "rows_ok w'"
proof (cases ev)
  case (ReqPublish seen now fresh bod)
  with assms publishEvent_world [of cf d seen now fresh bod w] show ?thesis by (auto intro: rows_ok_same)
qed (use assms in \<open>auto intro: rows_ok_createItem rows_ok_same split: if_splits\<close>)

interpretation table_rows: machine "api_step marshal jsonb describe cf d" rows_ok "\<lambda>w0 es w. rows_ok w"
  for marshal jsonb describe cf d
  by unfold_locales (blast intro: rows_ok_step)+

lemma set_all_rows:
  assumes "rows_ok w"
  shows "set (all_rows w) = {it. \<exists>n. items w n = Some it}"
proof -
  have "set (all_rows w) = {it. \<exists>n. 1 \<le> n \<and> n < next_id w \<and> items w n = Some it}"
    by (force simp: all_rows_def List.map_filter_def image_iff)
  moreover have "items w n = Some it \<Longrightarrow> 1 \<le> n \<and> n < next_id w" for n it using assms by (auto simp: rows_ok_def)
  ultimately show ?thesis by blast
qed

lemma distinct_map_filter:
  assumes "distinct xs" "\<And>x y z. f x = Some z \<Longrightarrow> f y = Some z \<Longrightarrow> x = y"
  shows "distinct (List.map_filter f xs)"
proof -
  have "inj_on (the \<circ> f) (set (filter (\<lambda>x. f x \<noteq> None) xs))" using assms(2) by (auto simp: inj_on_def)
  then show ?thesis using assms(1) by (simp add: List.map_filter_def distinct_map)
qed

lemma distinct_all_rows: "rows_ok w \<Longrightarrow> distinct (all_rows w)"
  unfolding all_rows_def by (rule distinct_map_filter) (auto simp: rows_ok_def)

section \<open>The order of the list\<close>

interpretation newest_first: less_order newer
  by unfold_locales (auto simp: newer_def)

lemma scan_rows_None: "scan_rows None rs acc = Inr (acc @ rs)"
  by (induction rs arbitrary: acc) simp_all

text \<open>A list that is returned at all is the whole answer: no failure shortens it.\<close>

lemma scan_rows_Inr: "scan_rows k rs acc = Inr its \<Longrightarrow> its = acc @ rs"
proof (induction rs arbitrary: k acc)
  case (Cons r rs)
  from Cons.prems Cons.IH [of "map_option (\<lambda>n. n - 1) k" "acc @ [r]"] show ?case by (simp split: if_splits)
qed simp

lemma ListItems_Inr: "ListItems f limit w = Inr its \<Longrightarrow> its = take limit (sort_by newer (all_rows w))"
  by (auto simp: ListItems_def Let_def split: if_splits sum.splits option.splits dest: scan_rows_Inr)

lemma ListItems_ok: "\<not> lf_query f \<Longrightarrow> lf_scan f = None \<Longrightarrow> lf_cut f = None \<Longrightarrow> \<exists>its. ListItems f limit w = Inr its"
  by (simp add: ListItems_def scan_rows_None)

text \<open>The first \<open>k\<close> of a sorted list are not preceded by any of the rest.\<close>

definition newest :: "nat \<Rightarrow> world \<Rightarrow> Item list \<Rightarrow> bool" where
  "newest k w its \<longleftrightarrow> distinct its \<and> sorted_wrt (\<lambda>a b. \<not> newer b a) its \<and>
     set its \<subseteq> {it. \<exists>n. items w n = Some it} \<and> length its = min k (card {it. \<exists>n. items w n = Some it}) \<and>
     (\<forall>n it. items w n = Some it \<longrightarrow> it \<notin> set its \<longrightarrow> list_all (\<lambda>l. \<not> newer it l) its)"

lemma newest_sorted:
  assumes "rows_ok w"
  shows "newest k w (take k (sort_by newer (all_rows w)))"
proof -
  define ls where "ls = sort_by newer (all_rows w)"
  have m: "mset ls = mset (all_rows w)" by (simp add: ls_def)
  have d: "distinct ls" using distinct_all_rows [OF assms] m using mset_eq_imp_distinct_iff by blast
  have s: "set ls = {it. \<exists>n. items w n = Some it}" using set_all_rows [OF assms] by (simp add: ls_def)
  have o: "sorted_wrt (\<lambda>a b. \<not> newer b a) (take k ls @ drop k ls)"
    using newest_first.sort_by_sorted [of "all_rows w"] by (simp add: ls_def)
  have "length (take k ls) = min k (card (set ls))" using d by (simp add: distinct_card min.commute)
  moreover have "list_all (\<lambda>l. \<not> newer it l) (take k ls)" if "it \<in> set ls" "it \<notin> set (take k ls)" for it
  proof -
    have "it \<in> set (drop k ls)" using that append_take_drop_id [of k ls] by (metis Un_iff set_append)
    then show ?thesis using o unfolding sorted_wrt_append list_all_iff by blast
  qed
  ultimately have "newest k w (take k ls)"
    using d o s set_take_subset [of k ls] by (auto simp: newest_def sorted_wrt_append)
  then show ?thesis by (simp add: ls_def)
qed

definition parsed_limit :: "string \<Rightarrow> int option" where
  "parsed_limit v = (if v = [] then Some 20 else ParseInt v)"

text \<open>C20: Listing is exact: with the database up, a request for \<open>n\<close> items is answered with the \<open>n\<close> newest rows
  (or all, if there are fewer), newest first and each once, in every state the API reaches; and whatever fails,
  the reply is either this list or an error.\<close>

theorem list_items_newest:
  assumes "rows_ok w0" "exec (api_step marshal jsonb describe cf d) w0 es = Some w" "has_store d"
    and "parsed_limit v = Some n" "1 \<le> n" "n \<le> 100"
  shows "(\<exists>its. listItems d f v w = writeJSON 200 (ItemsBody its (length its)) \<and> newest (nat n) w its) \<or>
    code (listItems d f v w) = 500 \<and> (lf_query f \<or> lf_scan f \<noteq> None \<or> lf_cut f \<noteq> None)"
proof -
  have ok: "rows_ok w" by (rule table_rows.inv_exec [OF assms(1,2)])
  have l: "listItems d f v w = (case ListItems f (nat n) w of Inl _ \<Rightarrow> writeError 500 ''database error''
      | Inr its \<Rightarrow> writeJSON 200 (ItemsBody its (length its)))"
    using assms(3-6) by (auto simp: listItems_def parsed_limit_def Let_def split: if_splits)
  show ?thesis
  proof (cases "ListItems f (nat n) w")
    case (Inl e)
    then show ?thesis using l ListItems_ok [of f "nat n" w] by (auto simp: writeError_def)
  next
    case (Inr its)
    then show ?thesis using l newest_sorted [OF ok, of "nat n"] ListItems_Inr [OF Inr] by auto
  qed
qed

theorem list_items_newest_witness:
  "\<exists>its. listItems demo_deps \<lparr>lf_query = False, lf_scan = None, lf_cut = None\<rparr> ''1'' (demo_served it_Name) =
     writeJSON 200 (ItemsBody its (length its)) \<and> newest 1 (demo_served it_Name) its"
proof -
  have "rows_ok demo_world" by (simp add: rows_ok_def demo_world_def)
  moreover have "parsed_limit ''1'' = Some 1" by (simp add: parsed_limit_def ParseInt_1)
  moreover have "has_store demo_deps" by (simp add: demo_deps_def)
  ultimately show ?thesis
    using list_items_newest [OF _ demo_served_exec [where marshal = it_Name], of "''1''" 1 "\<lparr>lf_query = False, lf_scan = None, lf_cut = None\<rparr>"]
    by simp
qed

end
