(* ===== verification/Migrations.thy ===== *)
theory Migrations
  imports Go_Prelude
begin

text \<open>
  Schema migrations (\<open>Postgres.Migrate\<close> of \<open>internal/store/store.go\<close>) and topic creation (\<open>EnsureTopic\<close> of
  \<open>internal/events/events.go\<close>). Several replicas may call \<open>Migrate\<close>; the advisory lock lets one at a time
  past its beginning. A call may fail at every statement, and its process may stop between any two. The
  embedded files are a parameter: pairs of a path \<open>migrations/<version>.sql\<close> and its text.
\<close>

section \<open>One file\<close>

type_synonym files = "(string \<times> string) list"

definition version_of :: "string \<Rightarrow> string" where
  "version_of name = trim_suffix (trim_prefix name ''migrations/'') ''.sql''"

text \<open>The rows of \<open>schema_migrations\<close> and the scripts the database has run, oldest first.\<close>

record schema =
  applied :: "string list"
  executed :: "(string \<times> string) list"

text \<open>What goes wrong with one file: the lookup, the read, begin, the script, the insert or the commit
  fails; or the commit happened and its reply was lost.\<close>

datatype mig_fault = NoFault | LookupFails | ReadFails | BeginFails | ScriptFails | InsertFails | CommitFails | CommitLost

text \<open>The loop body: the new schema and whether the loop goes on. A transaction takes effect at its commit.\<close>

definition migrate_file :: "mig_fault \<Rightarrow> string \<times> string \<Rightarrow> schema \<Rightarrow> schema \<times> bool" where
  "migrate_file fault f db =
     (let v = version_of (fst f);
          db' = db\<lparr>applied := applied db @ [v], executed := executed db @ [(v, snd f)]\<rparr> in
      if fault = LookupFails then (db, False)
      else if v \<in> set (applied db) then (db, True)
      else (case fault of NoFault \<Rightarrow> (db', True) | CommitLost \<Rightarrow> (db', False) | _ \<Rightarrow> (db, False)))"

definition name_less :: "string \<times> string \<Rightarrow> string \<times> string \<Rightarrow> bool" where
  "name_less a b \<longleftrightarrow> fst a < fst b"

definition sorted_files :: "files \<Rightarrow> files" where
  "sorted_files fs = sort_by name_less fs"

section \<open>Replicas\<close>

record migration =
  db :: schema
  holder :: "nat option"
  todo :: files
  finished :: "nat list"

datatype (discs_sels) mig_event =
    Lock nat
  | File mig_fault
  | Unlock
  | Crash

text \<open>\<open>Lock\<close> is \<open>pg_advisory_lock\<close> returning for a replica; it waits while another session holds the lock,
  which a crash of that session releases.\<close>

fun mig_step :: "files \<Rightarrow> migration \<Rightarrow> mig_event \<Rightarrow> migration option" where
  "mig_step fs m (Lock r) = (if holder m = None then Some (m\<lparr>holder := Some r, todo := sorted_files fs\<rparr>) else None)"
| "mig_step fs m (File fault) =
     (case (holder m, todo m) of
        (Some r, f # rest) \<Rightarrow>
          (case migrate_file fault f (db m) of
             (d, True) \<Rightarrow> Some (m\<lparr>db := d, todo := rest\<rparr>)
           | (d, False) \<Rightarrow> Some (m\<lparr>db := d, holder := None\<rparr>))
      | _ \<Rightarrow> None)"
| "mig_step fs m Unlock =
     (case (holder m, todo m) of
        (Some r, []) \<Rightarrow> Some (m\<lparr>holder := None, finished := finished m @ [r]\<rparr>)
      | _ \<Rightarrow> None)"
| "mig_step fs m Crash = (if holder m \<noteq> None then Some (m\<lparr>holder := None\<rparr>) else None)"

section \<open>Exactly once, in order\<close>

interpretation by_name: less_order name_less
  by unfold_locales (auto simp: name_less_def)

definition versioned :: "files \<Rightarrow> (string \<times> string) list" where
  "versioned fs = map (\<lambda>f. (version_of (fst f), snd f)) (sorted_files fs)"

definition prefix_applied :: "files \<Rightarrow> nat \<Rightarrow> schema \<Rightarrow> bool" where
  "prefix_applied fs k d \<longleftrightarrow> k \<le> length (sorted_files fs) \<and> executed d = take k (versioned fs) \<and> applied d = map fst (take k (versioned fs))"

lemma length_versioned [simp]: "length (versioned fs) = length (sorted_files fs)"
  by (simp add: versioned_def)

lemma migrate_prefix:
  assumes d: "distinct (map fst (versioned fs))" and p: "prefix_applied fs k d" and j: "j \<le> k" "j < length (sorted_files fs)"
    and s: "migrate_file fault (sorted_files fs ! j) d = (d', go)"
  shows "\<exists>k'\<ge>k. prefix_applied fs k' d' \<and> (go \<longrightarrow> Suc j \<le> k')"
proof -
  let ?f = "sorted_files fs ! j"
  let ?v = "version_of (fst ?f)"
  have vj: "versioned fs ! j = (?v, snd ?f)" using j(2) by (simp add: versioned_def)
  show ?thesis
  proof (cases "j < k")
    case True
    have "(?v, snd ?f) \<in> set (take k (versioned fs))"
      using True j(2) vj by (auto simp: in_set_conv_nth intro!: exI [of _ j])
    then have "?v \<in> set (applied d)" using p by (force simp: prefix_applied_def)
    then have "d' = d" using s by (auto simp: migrate_file_def Let_def split: if_splits)
    with p True show ?thesis by (intro exI [of _ k]) auto
  next
    case False
    then have k: "k = j" using j(1) by simp
    have "?v \<notin> set (applied d)"
    proof
      assume "?v \<in> set (applied d)"
      then obtain i where i: "i < j" "map fst (take j (versioned fs)) ! i = ?v"
        using p k j(2) by (auto simp: prefix_applied_def in_set_conv_nth)
      then have "map fst (versioned fs) ! i = map fst (versioned fs) ! j" using vj j(2) by simp
      then show False using nth_eq_iff_index_eq [OF d, of i j] i(1) j(2) by simp
    qed
    then have cases: "d' = d \<and> \<not> go \<or> d' = d\<lparr>applied := applied d @ [?v], executed := executed d @ [(?v, snd ?f)]\<rparr>"
      using s by (auto simp: migrate_file_def Let_def split: if_splits mig_fault.splits)
    have "prefix_applied fs (Suc j) (d\<lparr>applied := applied d @ [?v], executed := executed d @ [(?v, snd ?f)]\<rparr>)"
      using p k j(2) vj by (simp add: prefix_applied_def take_Suc_conv_app_nth)
    moreover have "\<exists>k'\<ge>k. prefix_applied fs k' x \<and> (go \<longrightarrow> Suc j \<le> k')" if "prefix_applied fs (Suc j) x" for x
      using that k by (intro exI [of _ "Suc j"]) simp
    ultimately show ?thesis using cases p k by auto
  qed
qed

definition holder_ok :: "files \<Rightarrow> nat \<Rightarrow> migration \<Rightarrow> bool" where
  "holder_ok fs k m \<longleftrightarrow> (holder m \<noteq> None \<longrightarrow> (\<exists>j\<le>k. todo m = drop j (sorted_files fs))) \<and>
     (finished m \<noteq> [] \<longrightarrow> k = length (sorted_files fs))"

lemma mig_step_inv:
  assumes d: "distinct (map fst (versioned fs))" and p: "prefix_applied fs k (db m)" "holder_ok fs k m" and s: "mig_step fs m e = Some m'"
  shows "\<exists>k. prefix_applied fs k (db m') \<and> holder_ok fs k m'"
proof (cases e)
  case (File fault)
  obtain r f rest where h: "holder m = Some r" "todo m = f # rest" using s File by (auto split: option.splits list.splits)
  obtain j where j: "j \<le> k" "todo m = drop j (sorted_files fs)" using p(2) h by (auto simp: holder_ok_def)
  then have jl: "j < length (sorted_files fs)" using h(2) by (metis drop_all list.distinct(1) not_less)
  then have f: "f = sorted_files fs ! j" "rest = drop (Suc j) (sorted_files fs)"
    using h(2) j(2) by (simp_all add: Cons_nth_drop_Suc [symmetric])
  obtain d' go where mf: "migrate_file fault (sorted_files fs ! j) (db m) = (d', go)" by (cases "migrate_file fault (sorted_files fs ! j) (db m)")
  then obtain k' where k': "k \<le> k'" "prefix_applied fs k' d'" "go \<longrightarrow> Suc j \<le> k'"
    using migrate_prefix [OF d p(1) j(1) jl] by blast
  have m': "m' = (if go then m\<lparr>db := d', todo := rest\<rparr> else m\<lparr>db := d', holder := None\<rparr>)"
    using s File h mf f by (auto split: bool.splits)
  have "finished m \<noteq> [] \<longrightarrow> k' = length (sorted_files fs)"
    using p k'(1,2) by (auto simp: holder_ok_def prefix_applied_def)
  then have "holder_ok fs k' m'" using k'(3) m' f(2) by (cases go) (auto simp: holder_ok_def)
  with k'(2) m' show ?thesis by (cases go) auto
next
  case Unlock
  then have "holder m \<noteq> None" "todo m = []" using s by (auto split: option.splits list.splits)
  then have "k = length (sorted_files fs)" using p by (auto simp: holder_ok_def prefix_applied_def)
  with p Unlock s show ?thesis by (auto simp: holder_ok_def split: option.splits list.splits)
next
  case (Lock r)
  have "todo m' = drop 0 (sorted_files fs)" using s Lock by (auto split: if_splits)
  then show ?thesis using p s Lock by (intro exI [of _ k]) (auto simp: holder_ok_def split: if_splits)
next
  case Crash
  then show ?thesis using p s by (intro exI [of _ k]) (auto simp: holder_ok_def split: if_splits)
qed

definition fresh_db :: "migration \<Rightarrow> bool" where
  "fresh_db m \<longleftrightarrow> applied (db m) = [] \<and> executed (db m) = [] \<and> holder m = None \<and> finished m = []"

interpretation migrating: machine "mig_step fs" fresh_db
  "\<lambda>m0 es m. distinct (map fst (versioned fs)) \<longrightarrow> (\<exists>k. prefix_applied fs k (db m) \<and> holder_ok fs k m)" for fs
proof (unfold_locales, goal_cases)
  case (1 m)
  then show ?case by (auto simp: fresh_db_def prefix_applied_def holder_ok_def)
next
  case (2 m0 es m e m')
  then show ?case using mig_step_inv by blast
qed

text \<open>C23: Migrations run exactly once and in order: whatever replicas start, fail at any statement, lose
  the reply of a commit, or crash, the scripts the database has run are the first \<open>k\<close> files in the order
  of their names, each once, and the recorded versions are theirs; and as soon as one replica reports
  success all of them have run.\<close>

theorem migrations_exactly_once:
  assumes "fresh_db m0" "exec (mig_step fs) m0 es = Some m" "distinct (map fst (versioned fs))"
  shows "\<exists>k. executed (db m) = take k (versioned fs) \<and> applied (db m) = map fst (executed (db m)) \<and>
    (finished m \<noteq> [] \<longrightarrow> executed (db m) = versioned fs)"
proof -
  obtain k where "prefix_applied fs k (db m)" "holder_ok fs k m"
    using migrating.inv_exec [OF assms(1,2)] assms(3) by blast
  then show ?thesis by (intro exI [of _ k]) (auto simp: prefix_applied_def holder_ok_def)
qed

lemma sorted_files_order: "sorted_wrt (\<lambda>a b. \<not> name_less b a) (sorted_files fs) \<and> mset (sorted_files fs) = mset fs"
  unfolding sorted_files_def using by_name.sort_by_sorted by simp

theorem migrations_exactly_once_witness:
  "\<exists>m. exec (mig_step [(''migrations/2.sql'', ''b''), (''migrations/1.sql'', ''a'')])
     \<lparr>db = \<lparr>applied = [], executed = []\<rparr>, holder = None, todo = [], finished = []\<rparr>
     [Lock 0, File NoFault, File CommitLost, Lock 1, File NoFault, File NoFault, Unlock] = Some m \<and>
     executed (db m) = [(''1'', ''a''), (''2'', ''b'')]"
proof -
  let ?fs = "[(''migrations/2.sql'', ''b''), (''migrations/1.sql'', ''a'')]"
  let ?m = "\<lparr>db = \<lparr>applied = [], executed = []\<rparr>, holder = None, todo = [], finished = []\<rparr>"
  let ?es = "[Lock 0, File NoFault, File CommitLost, Lock 1, File NoFault, File NoFault, Unlock]"
  have sorted: "sorted_files ?fs = [(''migrations/1.sql'', ''a''), (''migrations/2.sql'', ''b'')]" by code_simp
  have v: "version_of ''migrations/1.sql'' = ''1''" "version_of ''migrations/2.sql'' = ''2''" by code_simp+
  then have vs: "versioned ?fs = [(''1'', ''a''), (''2'', ''b'')]" by (simp add: versioned_def sorted)
  obtain m where m: "exec (mig_step ?fs) ?m ?es = Some m" "finished m \<noteq> []"
    by (simp add: sorted migrate_file_def v Let_def)
  have "fresh_db ?m" by (simp add: fresh_db_def)
  then have "executed (db m) = versioned ?fs" using migrations_exactly_once [OF _ m(1)] m(2) vs by auto
  then show ?thesis using m(1) vs by auto
qed

section \<open>Topics\<close>

text \<open>The replication factor \<open>EnsureTopic\<close> asks for, and its result for the answers per topic.\<close>

datatype topic_result = Created | TopicAlreadyExists | TopicError string

definition replication_factor :: "nat \<Rightarrow> nat" where
  "replication_factor brokers = (let rf = min 3 brokers in if rf < 1 then 1 else rf)"

definition EnsureTopic :: "nat option \<Rightarrow> topic_result list option \<Rightarrow> string option" where
  "EnsureTopic brokers resp =
     (case (brokers, resp) of
        (None, _) \<Rightarrow> Some ''broker metadata''
      | (_, None) \<Rightarrow> Some ''create topics''
      | (_, Some rs) \<Rightarrow>
          (case find (\<lambda>r. case r of TopicError _ \<Rightarrow> True | _ \<Rightarrow> False) rs of
             Some (TopicError e) \<Rightarrow> Some (''create topic: '' @ e)
           | _ \<Rightarrow> None))"

lemma replication_factor_bounds:
  "1 \<le> replication_factor n \<and> replication_factor n \<le> 3 \<and> (1 \<le> n \<longrightarrow> replication_factor n \<le> n)"
  by (simp add: replication_factor_def Let_def)

end
