(* ===== verification/Services.thy ===== *)
theory Services
  imports Service_Config Api_Server Migrations
begin

text \<open>
  The two service commands (\<open>cmd/api/main.go\<close>, \<open>cmd/worker/main.go\<close>): from the loaded configuration to the
  dependencies a server or a consumer runs with, and the exit codes. What the outside does during start
  and shutdown (connections, tracing, listeners, signals) is in the arguments.
\<close>

section \<open>The API command\<close>

datatype api_command = ApiVersion | ApiMigrate | ApiServe | ApiUnknown

definition api_main :: "string list \<Rightarrow> api_command" where
  "api_main args =
     (let cmd = (case args of [] \<Rightarrow> [] | a # _ \<Rightarrow> a) in
      if cmd \<in> set [''version'', ''--version'', ''-v''] then ApiVersion
      else if cmd = ''migrate'' then ApiMigrate
      else if cmd = [] \<or> cmd = ''serve'' then ApiServe
      else ApiUnknown)"

text \<open>One attempt of \<open>waitForPostgres\<close>: whether the pool opened, answered the ping, and whether the context
  ended during the pause after it.\<close>

record attempt =
  pool_opened :: bool
  pool_pinged :: bool
  ctx_ended :: bool

datatype wait_result = Connected int | GaveUp | StillWaiting

text \<open>The result with the number of pools left open.\<close>

fun waitForPostgres :: "int \<Rightarrow> int \<Rightarrow> attempt list \<Rightarrow> wait_result \<times> int" where
  "waitForPostgres n pools [] = (StillWaiting, pools)"
| "waitForPostgres n pools (a # as) =
     (let pools = (if pool_opened a then pools + 1 else pools) in
      if pool_opened a \<and> pool_pinged a then (Connected n, pools)
      else let pools = (if pool_opened a then pools - 1 else pools) in
        if ctx_ended a then (GaveUp, pools) else waitForPostgres (n + 1) pools as)"

definition wait_delay :: "int \<Rightarrow> duration" where
  "wait_delay n = min (n * Second) (10 * Second)"

lemma waitForPostgres_pools:
  "snd (waitForPostgres n pools as) = pools + (case fst (waitForPostgres n pools as) of Connected _ \<Rightarrow> 1 | _ \<Rightarrow> 0)"
  by (induction n pools as rule: waitForPostgres.induct) (auto simp: Let_def)

text \<open>How the start went.\<close>

record start_env =
  tracing_ok :: bool
  connect :: "attempt list"
  migrate_ok :: bool
  producer_ok :: bool
  grpc_listens :: bool

datatype started_server = Exited int | Serving server_config deps

definition connected :: "attempt list \<Rightarrow> bool" where
  "connected as = (case fst (waitForPostgres 1 0 as) of Connected _ \<Rightarrow> True | _ \<Rightarrow> False)"

definition server_config_of :: "service_config \<Rightarrow> server_config" where
  "server_config_of c = \<lparr>PodName = sc_PodName c, CacheTTL = sc_CacheTTL c, MaxInflight = sc_MaxInflight c,
     MaxBodyBytes = sc_MaxBodyBytes c, MaxBuffered = 250000\<rparr>"

definition deps_of :: "service_config \<Rightarrow> deps" where
  "deps_of c = \<lparr>has_store = (DatabaseURL c \<noteq> []), has_cache = (RedisAddr c \<noteq> []), has_publisher = (KafkaBrokers c \<noteq> [])\<rparr>"

definition serve :: "service_config \<times> load_error list \<Rightarrow> start_env \<Rightarrow> started_server" where
  "serve l en =
     (case l of (c, errs) \<Rightarrow>
        if errs \<noteq> [] then Exited 1
        else if \<not> tracing_ok en then Exited 1
        else if DatabaseURL c \<noteq> [] \<and> \<not> connected (connect en) then Exited 1
        else if DatabaseURL c \<noteq> [] \<and> MigrateOnStart c \<and> \<not> migrate_ok en then Exited 1
        else if KafkaBrokers c \<noteq> [] \<and> \<not> producer_ok en then Exited 1
        else if \<not> grpc_listens en then Exited 1
        else Serving (server_config_of c) (deps_of c))"

text \<open>The end of \<open>serve\<close>: a signal, or one of the three servers returned; \<open>ignoreClosed\<close> turns
  \<open>ErrServerClosed\<close> into success.\<close>

datatype server_error = ServerClosed | ServerFailed

definition ignoreClosed :: "server_error option \<Rightarrow> server_error option" where
  "ignoreClosed e = (if e = Some ServerClosed then None else e)"

datatype serve_end = SignalReceived | HttpReturned "server_error option" | MetricsReturned "server_error option" | GrpcReturned "server_error option"

fun serve_exit :: "serve_end \<Rightarrow> int" where
  "serve_exit SignalReceived = 0"
| "serve_exit (HttpReturned e) = (if ignoreClosed e \<noteq> None then 1 else 0)"
| "serve_exit (MetricsReturned e) = (if ignoreClosed e \<noteq> None then 1 else 0)"
| "serve_exit (GrpcReturned e) = (if e \<noteq> None then 1 else 0)"

definition migrate_cmd :: "service_config \<times> load_error list \<Rightarrow> attempt list \<Rightarrow> bool \<Rightarrow> int" where
  "migrate_cmd l as ok =
     (case l of (c, errs) \<Rightarrow>
        if errs \<noteq> [] then 1
        else if DatabaseURL c = [] then 1
        else if \<not> connected as then 1
        else if \<not> ok then 1
        else 0)"

section \<open>The worker command\<close>

text \<open>\<open>main\<close>: whether it only prints the version.\<close>

definition worker_main :: "string list \<Rightarrow> bool" where
  "worker_main args = (case args of [] \<Rightarrow> False | a # _ \<Rightarrow> a = ''version'' \<or> a = ''--version'')"

text \<open>\<open>run\<close>: \<open>Inl\<close> an exit code, or \<open>Inr\<close> whether the sink has a store and a cache.\<close>

definition worker_run :: "service_config \<times> load_error list \<Rightarrow> bool \<Rightarrow> bool \<Rightarrow> bool \<Rightarrow> int + bool \<times> bool" where
  "worker_run l tracing pool client =
     (case l of (c, errs) \<Rightarrow>
        if errs \<noteq> [] then Inl 1
        else if KafkaBrokers c = [] then Inl 1
        else if \<not> tracing then Inl 1
        else if DatabaseURL c \<noteq> [] \<and> \<not> pool then Inl 1
        else if \<not> client then Inl 1
        else Inr (DatabaseURL c \<noteq> [], RedisAddr c \<noteq> []))"

section \<open>Properties\<close>

lemma serving_config:
  assumes "serve (Load pf host E svc) en = Serving cf d"
  shows "1 \<le> MaxInflight cf" "d = deps_of (fst (Load pf host E svc))"
proof -
  obtain c errs where l: "Load pf host E svc = (c, errs)" by (cases "Load pf host E svc")
  then have e: "errs = []" "cf = server_config_of c" "d = deps_of c" using assms by (auto simp: serve_def split: if_splits)
  have "MaxInflightRange \<in> set errs \<longleftrightarrow> sc_MaxInflight c < 1" using load_ranges(1) [of pf host E svc] l by simp
  then show "1 \<le> MaxInflight cf" "d = deps_of (fst (Load pf host E svc))" using e l by (simp_all add: server_config_of_def)
qed

lemma disabled_replies:
  assumes "\<not> has_store d" "\<not> has_publisher d"
  shows "code (snd (dispatch marshal jsonb describe cf d s e i wc)) = (if e = Ping \<or> e = Stats then 200 else 503)"
  using assms by (cases e) (auto simp: dispatch_def ping_def listItems_def createItem_def getItem_def publishEvent_def
      stats_def writeError_def writeJSON_def Let_def split: prod.splits)

lemma bare_load:
  "snd (Load pf host (\<lambda>_. None) svc) = [] \<and> DatabaseURL (fst (Load pf host (\<lambda>_. None) svc)) = [] \<and>
   RedisAddr (fst (Load pf host (\<lambda>_. None) svc)) = [] \<and> KafkaBrokers (fst (Load pf host (\<lambda>_. None) svc)) = []"
  by (simp add: Load_def envInt_def envBool_def envDuration_def envFloat_def env_as_unset must_def env_def splitList_def trim_space_def)

text \<open>C34: A bare binary serves: with an empty environment the API starts without any backend as soon as its
  listeners do, admits requests, answers \<open>ping\<close> and \<open>stats\<close>, and refuses every endpoint that needs a
  backend with 503, whatever the request.\<close>

theorem bare_server_serves:
  assumes "tracing_ok en" "grpc_listens en"
  shows "\<exists>cf d. serve (Load pf host (\<lambda>_. None) svc) en = Serving cf d \<and> 1 \<le> MaxInflight cf \<and>
    (\<forall>marshal jsonb describe s e i wc.
       code (snd (dispatch marshal jsonb describe cf d s e i wc)) = (if e = Ping \<or> e = Stats then 200 else 503))"
proof -
  let ?l = "Load pf host (\<lambda>_. None) svc"
  obtain c errs where l: "?l = (c, errs)" by (cases ?l)
  then have bare: "errs = []" "DatabaseURL c = []" "RedisAddr c = []" "KafkaBrokers c = []" using bare_load [of pf host svc] by auto
  then have s: "serve ?l en = Serving (server_config_of c) (deps_of c)" using assms l by (simp add: serve_def)
  have "\<not> has_store (deps_of c)" "\<not> has_publisher (deps_of c)" using bare by (simp_all add: deps_of_def)
  then show ?thesis using s serving_config(1) [OF s] disabled_replies by blast
qed

theorem bare_server_serves_witness:
  "\<exists>cf d. serve (Load (\<lambda>_. None) None (\<lambda>_. None) ''titan-api'')
     \<lparr>tracing_ok = True, connect = [], migrate_ok = False, producer_ok = False, grpc_listens = True\<rparr> = Serving cf d \<and> 1 \<le> MaxInflight cf"
  using bare_server_serves [of "\<lparr>tracing_ok = True, connect = [], migrate_ok = False, producer_ok = False, grpc_listens = True\<rparr>" "\<lambda>_. None" None "''titan-api''"]
  by auto

end
