(* ===== verification/Observability.thy ===== *)
theory Observability
  imports Go_Prelude
begin

text \<open>
  The decisions of \<open>internal/observability/observability.go\<close>, \<open>internal/buildinfo/buildinfo.go\<close> and
  \<open>internal/grpcserver/grpcserver.go\<close>: the log level, when tracing is set up and can fail, the requests the
  metrics listener answers, the version line, and the settings the gRPC server is made with. Prometheus,
  OpenTelemetry and gRPC themselves are outside; what they answer is an argument.
\<close>

section \<open>Version\<close>

record build_info =
  bi_Version :: string
  bi_Commit :: string
  bi_Date :: string

definition default_build :: build_info where
  "default_build = \<lparr>bi_Version = ''dev'', bi_Commit = ''none'', bi_Date = ''unknown''\<rparr>"

text \<open>\<open>buildinfo.String\<close>; \<open>goversion\<close> is \<open>runtime.Version()\<close>.\<close>

definition build_String :: "string \<Rightarrow> build_info \<Rightarrow> string" where
  "build_String goversion b =
     bi_Version b @ '' (commit '' @ bi_Commit b @ '', built '' @ bi_Date b @ '', '' @ goversion @ '')''"

section \<open>Logging\<close>

datatype log_level = Debug | Info | Warn | Error

definition lower_char :: "char \<Rightarrow> char" where
  "lower_char c = (let n = of_char c :: nat in if 65 \<le> n \<and> n \<le> 90 then char_of (n + 32) else c)"

text \<open>\<open>strings.ToLower\<close> of an ASCII string.\<close>

definition to_lower :: "string \<Rightarrow> string" where
  "to_lower = map lower_char"

definition NewLogger_level :: "string \<Rightarrow> log_level" where
  "NewLogger_level level =
     (let l = to_lower level in
      if l = ''debug'' then Debug
      else if l = ''warn'' \<or> l = ''warning'' then Warn
      else if l = ''error'' then Error
      else Info)"

text \<open>The attributes every line of the log carries.\<close>

definition NewLogger_attrs :: "build_info \<Rightarrow> string \<Rightarrow> string \<Rightarrow> (string \<times> string) list" where
  "NewLogger_attrs b service pod = [(''service'', service), (''pod'', pod), (''version'', bi_Version b)]"

section \<open>Tracing\<close>

datatype resource_result = ResourceOk | ResourcePartial | ResourceFailed

record trace_settings =
  ts_attributes :: "(string \<times> string) list"
  ts_MaxQueueSize :: nat
  ts_MaxExportBatchSize :: nat
  ts_ratio :: real

datatype tracing = TracingOff | TracingOn trace_settings

datatype tracing_error = ExporterFailed | ResourceError

text \<open>\<open>SetupTracing\<close>: without an endpoint nothing is contacted and nothing can fail. Otherwise the exporter and
  the resource are created, in this order; a partial resource is good enough. New spans without a parent are
  sampled by the given ratio.\<close>

definition SetupTracing ::
  "build_info \<Rightarrow> bool \<Rightarrow> resource_result \<Rightarrow> string \<Rightarrow> string \<Rightarrow> string \<Rightarrow> real \<Rightarrow> tracing_error + tracing" where
  "SetupTracing b exporter_ok res service pod endpoint ratio =
     (if endpoint = [] then Inr TracingOff
      else if \<not> exporter_ok then Inl ExporterFailed
      else if res = ResourceFailed then Inl ResourceError
      else Inr (TracingOn \<lparr>ts_attributes = [(''service.name'', service), (''service.version'', bi_Version b),
          (''service.instance.id'', pod), (''k8s.pod.name'', pod)],
        ts_MaxQueueSize = 8192, ts_MaxExportBatchSize = 1024, ts_ratio = ratio\<rparr>))"

lemma tracing_off_never_fails: "SetupTracing b exporter_ok res service pod [] ratio = Inr TracingOff"
  by (simp add: SetupTracing_def)

section \<open>The metrics listener\<close>

datatype probe_reply = MetricsPage | ProbeOk int string | ProbeNoRoute int

text \<open>The routes of \<open>NewMetricsServer\<close>: \<open>ready\<close> is the function given, or \<open>None\<close> for nil.\<close>

definition metrics_mux :: "bool option \<Rightarrow> string \<Rightarrow> string \<Rightarrow> probe_reply" where
  "metrics_mux ready m p =
     (if p \<in> set [''/metrics'', ''/healthz'', ''/readyz''] \<and> m \<noteq> ''GET'' \<and> m \<noteq> ''HEAD'' then ProbeNoRoute 405
      else if p = ''/metrics'' then MetricsPage
      else if p = ''/healthz'' then ProbeOk 200 ''ok''
      else if p = ''/readyz'' then (if ready = Some False then ProbeOk 503 ''not ready'' else ProbeOk 200 ''ready'')
      else ProbeNoRoute 404)"

record metrics_server =
  ms_Addr :: string
  ms_Handler :: "string \<Rightarrow> string \<Rightarrow> probe_reply"
  ms_ReadHeaderTimeout :: duration

definition NewMetricsServer :: "string \<Rightarrow> bool option \<Rightarrow> metrics_server" where
  "NewMetricsServer addr ready = \<lparr>ms_Addr = addr, ms_Handler = metrics_mux ready, ms_ReadHeaderTimeout = 5 * Second\<rparr>"

section \<open>The gRPC server\<close>

datatype serving_status = SERVING | NOT_SERVING

record grpc_settings =
  MaxConcurrentStreams :: nat
  MaxConnectionAge :: duration
  MaxConnectionAgeGrace :: duration
  KeepaliveTime :: duration
  EnforcementMinTime :: duration
  PermitWithoutStream :: bool
  initial_status :: "(string \<times> serving_status) list"

definition grpcserver_New :: grpc_settings where
  "grpcserver_New = \<lparr>MaxConcurrentStreams = 1024, MaxConnectionAge = 5 * Minute, MaxConnectionAgeGrace = 30 * Second,
     KeepaliveTime = 30 * Second, EnforcementMinTime = 10 * Second, PermitWithoutStream = True,
     initial_status = [([], SERVING), (''titanedge.api'', SERVING)]\<rparr>"

end
