(* ===== verification/Lifecycle.thy ===== *)
theory Lifecycle
  imports Services Clients Observability "HOL-Library.Sublist"
begin

text \<open>
  The whole life of the API process (\<open>serve\<close> of \<open>cmd/api/main.go\<close>) as the list of its actions: opening the
  backends, starting the listeners, the graceful drain, and the deferred calls that run on every return.
  Resources are shown to be released in reverse order on every path, early exits included, and the event
  producer to be flushed after the last request was served.
\<close>

section \<open>Actions\<close>

datatype resource = Signals | Tracing | PgPool | Redis | Producer

datatype action =
    Opened resource | Closed resource | Migrated | TopicEnsured bool
  | HttpStarted | MetricsStarted | GrpcStarted
  | HealthDown | HttpDrained bool | GrpcStopped bool | MetricsStopped | TracingFlushed | ConsumerRan

text \<open>A running function: what it did, and what it has deferred, the latest first.\<close>

record proc =
  acts :: "action list"
  deferred :: "resource list"

definition act :: "action \<Rightarrow> proc \<Rightarrow> proc" where
  "act a f = f\<lparr>acts := acts f @ [a]\<rparr>"

definition acquire :: "resource \<Rightarrow> proc \<Rightarrow> proc" where
  "acquire r f = (act (Opened r) f)\<lparr>deferred := r # deferred f\<rparr>"

definition returns :: "int \<Rightarrow> proc \<Rightarrow> action list \<times> int" where
  "returns rc f = (acts f @ map Closed (deferred f), rc)"

section \<open>Start\<close>

definition open_store :: "service_config \<Rightarrow> start_env \<Rightarrow> proc \<Rightarrow> (action list \<times> int) + proc" where
  "open_store c en f =
     (if DatabaseURL c = [] then Inr f
      else if \<not> connected (connect en) then Inl (returns 1 f)
      else let f = acquire PgPool f in
        if MigrateOnStart c then (if migrate_ok en then Inr (act Migrated f) else Inl (returns 1 f)) else Inr f)"

definition open_cache :: "service_config \<Rightarrow> proc \<Rightarrow> proc" where
  "open_cache c f = (if RedisAddr c = [] then f else acquire Redis f)"

definition open_publisher :: "service_config \<Rightarrow> start_env \<Rightarrow> bool \<Rightarrow> proc \<Rightarrow> (action list \<times> int) + proc" where
  "open_publisher c en topic_ok f =
     (if KafkaBrokers c = [] then Inr f
      else let f = act (TopicEnsured topic_ok) f in
        if producer_ok en then Inr (acquire Producer f) else Inl (returns 1 f))"

definition listen :: "start_env \<Rightarrow> proc \<Rightarrow> (action list \<times> int) + proc" where
  "listen en f =
     (if \<not> grpc_listens en then Inl (returns 1 f)
      else Inr (act GrpcStarted (act MetricsStarted (act HttpStarted f))))"

text \<open>The public HTTP server: HTTP/1.1 and HTTP/2 without TLS, with limits against slow clients.\<close>

record http_server =
  hs_Addr :: string
  hs_ReadHeaderTimeout :: duration
  hs_ReadTimeout :: duration
  hs_WriteTimeout :: duration
  hs_IdleTimeout :: duration
  hs_MaxHeaderBytes :: int
  hs_HTTP1 :: bool
  hs_UnencryptedHTTP2 :: bool

definition http_server_of :: "service_config \<Rightarrow> http_server" where
  "http_server_of c = \<lparr>hs_Addr = HTTPAddr c, hs_ReadHeaderTimeout = 5 * Second, hs_ReadTimeout = 30 * Second,
     hs_WriteTimeout = 30 * Second, hs_IdleTimeout = 120 * Second, hs_MaxHeaderBytes = 64 * 1024, hs_HTTP1 = True,
     hs_UnencryptedHTTP2 = True\<rparr>"

text \<open>Its readiness, seen through the metrics listener, is what \<open>Ready\<close> answers.\<close>

definition api_metrics :: "service_config \<Rightarrow> bool \<Rightarrow> metrics_server" where
  "api_metrics c ready = NewMetricsServer (MetricsAddr c) (Some ready)"

section \<open>Drain\<close>

text \<open>What the drain meets: whether the requests in flight ended within \<open>ShutdownTimeout\<close>, and whether the
  gRPC streams did.\<close>

record drain =
  http_in_time :: bool
  grpc_in_time :: bool

definition shutdown :: "drain \<Rightarrow> proc \<Rightarrow> proc" where
  "shutdown d f =
     act TracingFlushed (act MetricsStopped (act (GrpcStopped (grpc_in_time d)) (act (HttpDrained (http_in_time d)) (act HealthDown f))))"

definition serve_run ::
  "service_config \<times> load_error list \<Rightarrow> start_env \<Rightarrow> bool \<Rightarrow> serve_end \<Rightarrow> drain \<Rightarrow> action list \<times> int" where
  "serve_run l en topic_ok fin d =
     (case l of (c, errs) \<Rightarrow>
        if errs \<noteq> [] then ([], 1)
        else let f = acquire Signals \<lparr>acts = [], deferred = []\<rparr> in
          if \<not> tracing_ok en then returns 1 f
          else case open_store c en f of
            Inl x \<Rightarrow> x
          | Inr f \<Rightarrow>
              (case open_publisher c en topic_ok (open_cache c f) of
                 Inl x \<Rightarrow> x
               | Inr f \<Rightarrow>
                   (case listen en f of
                      Inl x \<Rightarrow> x
                    | Inr f \<Rightarrow> returns (serve_exit fin) (shutdown d f))))"

section \<open>The worker process\<close>

text \<open>\<open>run\<close> of \<open>cmd/worker/main.go\<close>. \<open>Consumer.Run\<close> returns after a signal, and always without an error.\<close>

definition worker_life :: "service_config \<times> load_error list \<Rightarrow> bool \<Rightarrow> bool \<Rightarrow> bool \<Rightarrow> action list \<times> int" where
  "worker_life l tracing pool client =
     (case l of (c, errs) \<Rightarrow>
        if errs \<noteq> [] then ([], 1)
        else if KafkaBrokers c = [] then ([], 1)
        else let f = acquire Signals \<lparr>acts = [], deferred = []\<rparr> in
          if \<not> tracing then returns 1 f
          else let f = acquire Tracing f in
            if DatabaseURL c \<noteq> [] \<and> \<not> pool then returns 1 f
            else let f = (if DatabaseURL c \<noteq> [] then acquire PgPool f else f);
                     f = (if RedisAddr c \<noteq> [] then acquire Redis f else f) in
              if \<not> client then returns 1 f
              else returns 0 (act MetricsStopped (act ConsumerRan (act MetricsStarted f))))"

text \<open>The readiness that its metrics listener reports is the connection to the brokers.\<close>

definition worker_metrics :: "service_config \<Rightarrow> bool \<Rightarrow> metrics_server" where
  "worker_metrics c pinged = NewMetricsServer (MetricsAddr c) (Some pinged)"

section \<open>Everything opened is closed, in reverse order\<close>

definition opens :: "action list \<Rightarrow> resource list" where
  "opens as = List.map_filter (\<lambda>a. case a of Opened r \<Rightarrow> Some r | _ \<Rightarrow> None) as"

definition closes :: "action list \<Rightarrow> resource list" where
  "closes as = List.map_filter (\<lambda>a. case a of Closed r \<Rightarrow> Some r | _ \<Rightarrow> None) as"

definition tidy :: "proc \<Rightarrow> bool" where
  "tidy f \<longleftrightarrow> deferred f = rev (opens (acts f)) \<and> closes (acts f) = []"

definition bracketed :: "action list \<Rightarrow> bool" where
  "bracketed as \<longleftrightarrow> (\<exists>body. as = body @ map Closed (rev (opens body)) \<and> closes body = [])"

lemma opens_simps [simp]:
  "opens [] = []" "opens (as @ bs) = opens as @ opens bs" "opens (Opened r # as) = r # opens as"
  "closes [] = []" "closes (as @ bs) = closes as @ closes bs" "closes (Opened r # as) = closes as"
  by (simp_all add: opens_def closes_def List.map_filter_def)

lemma tidy_acquire: "tidy f \<Longrightarrow> tidy (acquire r f)"
  by (simp add: tidy_def acquire_def act_def)

lemma tidy_act: "tidy f \<Longrightarrow> \<forall>r. a \<noteq> Opened r \<and> a \<noteq> Closed r \<Longrightarrow> tidy (act a f)"
  by (cases a) (simp_all add: tidy_def act_def opens_def closes_def List.map_filter_def)

lemma bracketed_returns: "tidy f \<Longrightarrow> bracketed (fst (returns rc f))"
  by (auto simp: bracketed_def returns_def tidy_def)

lemmas tidy_intros = tidy_acquire tidy_act bracketed_returns

lemma bracketed_start:
  "open_store c en f = Inl x \<Longrightarrow> tidy f \<Longrightarrow> bracketed (fst x)" "open_store c en f = Inr f' \<Longrightarrow> tidy f \<Longrightarrow> tidy f'"
  "tidy f \<Longrightarrow> tidy (open_cache c f)"
  "open_publisher c en k f = Inl x \<Longrightarrow> tidy f \<Longrightarrow> bracketed (fst x)" "open_publisher c en k f = Inr f' \<Longrightarrow> tidy f \<Longrightarrow> tidy f'"
  "listen en f = Inl x \<Longrightarrow> tidy f \<Longrightarrow> bracketed (fst x)" "listen en f = Inr f' \<Longrightarrow> tidy f \<Longrightarrow> tidy f'"
  by (auto simp: open_store_def open_cache_def open_publisher_def listen_def Let_def intro!: tidy_intros split: if_splits)

lemma tidy_shutdown: "tidy f \<Longrightarrow> tidy (shutdown d f)"
  by (auto simp: shutdown_def intro!: tidy_intros)

lemma bracketed_serve_run: "bracketed (fst (serve_run l en topic_ok fin d))"
proof (cases l)
  case (Pair c errs)
  let ?f = "acquire Signals \<lparr>acts = [], deferred = []\<rparr>"
  have f: "tidy ?f" by (rule tidy_acquire) (simp add: tidy_def)
  have "bracketed []" by (simp add: bracketed_def)
  then have early: "errs \<noteq> [] \<or> \<not> tracing_ok en \<Longrightarrow> ?thesis" using bracketed_returns [OF f] by (auto simp: serve_run_def Pair Let_def)
  show ?thesis
  proof (cases "open_store c en ?f")
    case (Inl x)
    then show ?thesis using bracketed_start(1) [OF Inl f] early by (auto simp: serve_run_def Pair Let_def)
  next
    case 1: (Inr f1)
    have f1: "tidy (open_cache c f1)" using bracketed_start(2) [OF 1 f] by (rule bracketed_start(3))
    show ?thesis
    proof (cases "open_publisher c en topic_ok (open_cache c f1)")
      case (Inl x)
      then show ?thesis using bracketed_start(4) [OF Inl f1] early 1 by (auto simp: serve_run_def Pair Let_def)
    next
      case 2: (Inr f2)
      have f2: "tidy f2" by (rule bracketed_start(5) [OF 2 f1])
      show ?thesis
        using bracketed_start(6) [OF _ f2, of en] bracketed_returns [OF tidy_shutdown [OF bracketed_start(7) [OF _ f2]], of en] early 1 2
        by (cases "listen en f2") (auto simp: serve_run_def Pair Let_def)
    qed
  qed
qed

lemma bracketed_worker: "bracketed (fst (worker_life l tracing pool client))"
proof (cases l)
  case (Pair c errs)
  have "tidy \<lparr>acts = [], deferred = []\<rparr>" "bracketed []" by (simp_all add: tidy_def bracketed_def)
  then show ?thesis by (auto simp: worker_life_def Pair Let_def intro!: tidy_intros)
qed

lemma worker_life_run:
  "snd (worker_life l tracing pool client) = (case worker_run l tracing pool client of Inl rc \<Rightarrow> rc | Inr _ \<Rightarrow> 0)"
  by (cases l) (auto simp: worker_life_def worker_run_def returns_def Let_def)

section \<open>The orderly life\<close>

text \<open>When \<open>serve\<close> gets as far as serving, the order of the whole life of the process.\<close>

lemma served_run:
  assumes "serve (c, errs) en = Serving cf d"
  shows "serve_run (c, errs) en k fin dr =
    ([Opened Signals] @ (if has_store d then [Opened PgPool] else []) @ (if has_store d \<and> MigrateOnStart c then [Migrated] else []) @
     (if has_cache d then [Opened Redis] else []) @ (if has_publisher d then [TopicEnsured k, Opened Producer] else []) @
     [HttpStarted, MetricsStarted, GrpcStarted, HealthDown, HttpDrained (http_in_time dr), GrpcStopped (grpc_in_time dr), MetricsStopped, TracingFlushed] @
     (if has_publisher d then [Closed Producer] else []) @ (if has_cache d then [Closed Redis] else []) @
     (if has_store d then [Closed PgPool] else []) @ [Closed Signals], serve_exit fin)"
  using assms
  by (auto simp: serve_def serve_run_def open_store_def open_cache_def open_publisher_def listen_def shutdown_def acquire_def
      act_def returns_def deps_of_def Let_def split: if_splits)

lemma exited_run:
  assumes "serve (c, errs) en = Exited rc"
  shows "snd (serve_run (c, errs) en k fin dr) = rc" "HttpStarted \<notin> set (fst (serve_run (c, errs) en k fin dr))"
  using assms
  by (auto simp: serve_def serve_run_def open_store_def open_cache_def open_publisher_def listen_def acquire_def
      act_def returns_def Let_def split: if_splits)


definition demo_service :: "service_config \<times> load_error list" where
  "demo_service = ((fst (Load (\<lambda>_. None) None (\<lambda>_. None) ''titan-api''))\<lparr>DatabaseURL := ''db'', RedisAddr := [], KafkaBrokers := [''k1'']\<rparr>, [])"

definition demo_start :: start_env where
  "demo_start = \<lparr>tracing_ok = True, connect = [\<lparr>pool_opened = True, pool_pinged = True, ctx_ended = False\<rparr>], migrate_ok = True,
     producer_ok = True, grpc_listens = True\<rparr>"


end
