(* ===== verification/Spec2Isabelle.thy ===== *)
theory Spec2Isabelle
  imports
    Stats_Quantile
    Targets_File
    Schedule
    Coordinator_Run
    Ledger
    Report
    Dashboard
    Commands
    Event_Pipeline
    Api_Server
    Producer
    Item_List
    Lifecycle
    Migrations
begin

text \<open>
  Verification of TitanEdge's load generator and services (Go, \<open>src/\<close>).

  \<^bold>\<open>The program.\<close> \<open>titanload\<close> (\<open>cmd/titanload\<close>, \<open>internal/titanload\<close>) drives HTTP and gRPC load: an
  engine of goroutines issues requests as fast as possible (closed model) or on a schedule (open
  model), each goroutine records its results in a histogram shard, and snapshots of the shards are
  displayed, checked against objectives, and, in distributed mode, sent by workers to a coordinator
  which merges them. The other half of the repository is the system under load: an API server
  (\<open>internal/api\<close>) that reads items through Redis from PostgreSQL and publishes events to Kafka, a
  consumer (\<open>internal/worker\<close>) that counts the events into rollup rows and live counters, and their
  commands and configuration.

  \<^bold>\<open>The theories: load generator.\<close>
  \<^item> \<open>Go_Prelude\<close>, \<open>Go_Strconv\<close>, \<open>Go_Utf8\<close>, \<open>Float64\<close>, \<open>Float_Error\<close>: Go's integers, durations, panics, strings,
    decimal conversion and runes; IEEE binary64 rounding on the reals and a calculus of its relative
    error; sorting with a less function; the transition systems (\<open>exec\<close>, locales \<open>machine\<close> and
    \<open>simulation\<close>) all state machines use.
  \<^item> \<open>Stats\<close>: all of \<open>internal/titanload/stats/histogram.go\<close>. \<open>Stats_Exact\<close> specifies a shard and a
    snapshot by the samples they count (\<open>shard_of\<close>, \<open>snapshot_of\<close>) and shows that recording, folding,
    merging and subtracting compute them; its locale \<open>bounded_monoid\<close> is the contract of merging that
    the coordinator relies on. \<open>Stats_Quantile\<close> relates reported percentiles to order statistics and
    bounds their error by two per cent.
  \<^item> \<open>Engine_Config\<close>, \<open>Targets_File\<close>, \<open>Transport\<close>: configuration and its validation, the targets file
    (\<open>engine.go\<close>), the two requesters and the error classification (\<open>transport.go\<close>).
  \<^item> \<open>Engine\<close>: the \<open>Engine\<close> struct, the schedule, and \<open>Run\<close>, \<open>worker\<close> and \<open>pace\<close> as the labelled steps
    \<open>engine_step\<close>. \<open>Engine_Run\<close> proves, for every interleaving: no panic and exact snapshots, round-robin
    targets, the exact request budget, tokens in schedule order, and draining after cancellation.
    \<open>Schedule\<close> compares the schedule, computed in floating point, with the ideal ramp: start times within
    two nanoseconds, request counts within two.
  \<^item> \<open>Coordinator\<close>: \<open>distributed.go\<close>, handlers and main loop as \<open>coord_step\<close>. \<open>Coordinator_Run\<close>: its
    invariant, the frozen job, exact and order-independent aggregation, the split of the run, and how a
    run ends or fails to end.
  \<^item> \<open>Load_Worker\<close>: \<open>distributed/worker.go\<close> as \<open>worker_step\<close> with the requests it sends; the order and
    number of its requests. \<open>Distributed_Run\<close> composes engines, workers and coordinator: the result of a
    whole distributed run is the snapshot of all samples of all machines. \<open>Cluster\<close> adds the routing of
    the coordinator's \<open>Handler\<close> and the network: any number of worker sessions, with requests and replies
    lost, as \<open>cluster_step\<close>; whoever succeeds is counted once. \<open>Ledger\<close>: the abstract specification, a
    write-once ledger, and the simulation that the cluster refines it.
  \<^item> \<open>Report\<close>: \<open>report.go\<close>, the SLO gate related to the measured latencies, the summary and its formats.
    \<open>Exporter\<close> (\<open>exporter.go\<close>), \<open>Widgets\<close>, \<open>Dashboard_Screen\<close> and \<open>Dashboard\<close> (\<open>dashboard.go\<close>): the screen byte by
    byte, widgets that cannot panic, the ticker loop as \<open>dash_step\<close>, ticks that partition the run.
    \<open>Commands\<close>: \<open>cmd/titanload/main.go\<close> from flags to configuration, metrics listener and exit code.

  \<^bold>\<open>The theories: services.\<close>
  \<^item> \<open>Consumer\<close>: \<open>internal/worker/worker.go\<close> with \<open>AddRollups\<close> and \<open>IncrBy\<close> as \<open>consumer_step\<close>.
    \<open>Consumer_Delivery\<close>: at-least-once counting under lost replies and crashes, exactly-once counting
    without them, complete shutdown, exact counters.
  \<^item> \<open>Api\<close>: the handlers of \<open>handlers.go\<close> with the operations of \<open>store.go\<close>, \<open>cache.go\<close> and \<open>events.go\<close> they
    call, over an explicit state of rows, keys and buffered records (\<open>world\<close>). \<open>Api_State\<close>: the locale
    \<open>cache_aside\<close> (the contract with package \<open>cache\<close>), coherence of cached items, correct reads, typed and
    bounded events. \<open>Item_List\<close>: the listing of the newest items. \<open>Api_Server\<close>: routing and middleware of
    \<open>server.go\<close> and \<open>middleware.go\<close> as \<open>server_step\<close>, admission control, well-formed replies.
    \<open>Event_Pipeline\<close>: API and consumer together.
  \<^item> \<open>Clients\<close>: the settings of the PostgreSQL, Redis and Kafka clients. \<open>Producer\<close>: \<open>events.Kafka\<close> with its
    callbacks and shutdown as \<open>producer_step\<close>, its metric shown exact; random ids; result labels.
  \<^item> \<open>Migrations\<close>: \<open>Migrate\<close> of \<open>store.go\<close> under replicas, faults and crashes, and \<open>EnsureTopic\<close>.
    \<open>Service_Config\<close>: \<open>config.go\<close> with \<open>time.ParseDuration\<close>. \<open>Observability\<close>: \<open>observability.go\<close>, \<open>buildinfo.go\<close>
    and \<open>grpcserver.go\<close>. \<open>Services\<close>: start-up and exit codes of \<open>cmd/api\<close> and \<open>cmd/worker\<close>. \<open>Lifecycle\<close>: the life
    of both processes as the list of their actions, from the first backend opened to the last closed.

  \<^bold>\<open>Modelling decisions.\<close> A \<open>uint64\<close> is a \<open>64 word\<close>; \<open>int\<close>, \<open>int64\<close> and \<open>time.Duration\<close> are integers
  that wrap through \<open>i64\<close> where the code can leave the range. A float64 is the real it denotes and every
  operation rounds by \<open>f64\<close>; \<open>math.Log\<close>, \<open>math.Pow\<close> and \<open>math.Sqrt\<close> are taken as correctly rounded, and
  NaN and infinities do not occur. Strings are byte lists and white space is ASCII. Panics are values
  (\<open>go_panic\<close>). Concurrency is interleaving of the atomic actions of the source; one \<open>Record\<close> call is
  one action. Servers, clocks, the file system, the HTTP client and the gRPC library are parameters or
  event labels. Rows, Redis keys and Kafka records are explicit state changed as the statements of the
  sources say, with the failure of every call, and of the reply to it, left to the events. No fuel is
  used: all functions terminate, and runs are finite event lists of any length.

  \<^bold>\<open>Not modelled.\<close> The encoding of JSON, the flag parser of the standard library, signals, sockets and the
  internals of pgx, go-redis, franz-go, gRPC, Prometheus and OpenTelemetry: their answers are arguments or
  event labels. Pings, closing of connections, log lines, spans, help texts of metrics and of flags, the
  console mode of Windows (\<open>vt_windows.go\<close>) have no state the program reads. In \<open>Cluster\<close> a request that
  outlives its sender is left out; lemma \<open>late_report_overwrites\<close> of \<open>Coordinator_Run\<close> shows what such a
  report does.
\<close>

end
